(* ===== verification/Prelude.thy ===== *)
theory Prelude
  imports Main "HOL-Library.Word" "HOL-Library.Monad_Syntax" "HOL-Library.Multiset"
begin

text \<open>
  Shared vocabulary of the development.

  \<^item> The C integer types are named after their typedefs. Signed quantities whose overflow is
    undefined behaviour in C (log indexes, terms, times, node identifiers, return codes) are
    \<open>int\<close>; unsigned counters that wrap around (message identifiers, sizes, flag words) are words.
  \<^item> A C function that can abort (a failed \<open>assert\<close>, a dereference of NULL or of freed memory, an
    index outside its array, a division by zero) is an \<open>option\<close>-valued function: \<open>None\<close> is the
    abort, and a loop that does not end is \<open>None\<close> as well. Error codes that the code returns are
    values inside \<open>Some\<close>.
  \<^item> \<open>assert_ok\<close> is the C \<open>assert\<close>; \<open>arr_get\<close> and \<open>arr_set\<close> are checked array accesses.
\<close>

type_synonym raft_entry_id_t = int
type_synonym raft_term_t = int
type_synonym raft_index_t = int
type_synonym raft_session_t = "64 word"
type_synonym raft_size_t = "64 word"
type_synonym raft_node_id_t = int
type_synonym raft_msg_id_t = "64 word"
type_synonym raft_time_t = int

named_theorems option_do \<open>unfolding rules for option-valued code\<close>

definition assert_ok :: "bool \<Rightarrow> unit option" where
  "assert_ok b = (if b then Some () else None)"

definition arr_get :: "'a list \<Rightarrow> int \<Rightarrow> 'a option" where
  "arr_get xs i = (if 0 \<le> i \<and> i < int (length xs) then Some (xs ! nat i) else None)"

definition arr_set :: "'a list \<Rightarrow> int \<Rightarrow> 'a \<Rightarrow> 'a list option" where
  "arr_set xs i v = (if 0 \<le> i \<and> i < int (length xs) then Some (xs[nat i := v]) else None)"

text \<open>The C remainder truncates towards zero; division by zero is undefined.\<close>

definition c_rem :: "int \<Rightarrow> int \<Rightarrow> int option" where
  "c_rem a b = (if b = 0 then None else Some (sgn a * (\<bar>a\<bar> mod \<bar>b\<bar>)))"

text \<open>The C quotient truncates towards zero; used with a constant divisor.\<close>

definition c_quot :: "int \<Rightarrow> int \<Rightarrow> int" where
  "c_quot a b = sgn a * sgn b * (\<bar>a\<bar> div \<bar>b\<bar>)"

lemma assert_ok_eq_Some [simp]: "assert_ok b = Some u \<longleftrightarrow> b"
  by (simp add: assert_ok_def)

lemma assert_ok_True [simp]: "assert_ok True = Some ()"
  by (simp add: assert_ok_def)

lemma assert_ok_False [simp]: "assert_ok False = None"
  by (simp add: assert_ok_def)

lemma assert_bind [simp]:
  "Option.bind (assert_ok b) f = (if b then f () else None)"
  by (simp add: assert_ok_def)

lemma arr_get_Some: "0 \<le> i \<Longrightarrow> i < int (length xs) \<Longrightarrow> arr_get xs i = Some (xs ! nat i)"
  by (simp add: arr_get_def)

lemma arr_set_Some: "0 \<le> i \<Longrightarrow> i < int (length xs) \<Longrightarrow> arr_set xs i v = Some (xs[nat i := v])"
  by (simp add: arr_set_def)

lemma c_rem_nonneg: "0 \<le> a \<Longrightarrow> 0 < b \<Longrightarrow> c_rem a b = Some (a mod b)"
  by (cases "a = 0") (auto simp: c_rem_def sgn_if)

lemma those_map_Some: "(\<And>x. x \<in> set xs \<Longrightarrow> f x = Some (g x)) \<Longrightarrow> those (map f xs) = Some (map g xs)"
  by (induction xs) auto

lemma bind_eq_Some [option_do]:
  "Option.bind m f = Some y \<longleftrightarrow> (\<exists>x. m = Some x \<and> f x = Some y)"
  by (cases m) auto

lemma case_prod_eq_Some [option_do]:
  "(case p of (a, b) \<Rightarrow> f a b) = Some y \<longleftrightarrow> (\<exists>a b. p = (a, b) \<and> f a b = Some y)"
  by (cases p) auto

text \<open>
  Elimination rules that take a run of option-valued code apart, one case for each path through
  it: used as \<open>elim!: do_elims\<close>.
\<close>

definition branch :: "bool \<Rightarrow> bool \<Rightarrow> bool" where
  branch_def [simp]: "branch b v \<longleftrightarrow> (b = v)"

lemma bind_SomeE:
  "Option.bind m f = Some y \<Longrightarrow> (\<And>x. m = Some x \<Longrightarrow> f x = Some y \<Longrightarrow> P) \<Longrightarrow> P"
  by (cases m) auto

lemma if_SomeE:
  "(if b then m else n) = Some y \<Longrightarrow> (branch b True \<Longrightarrow> m = Some y \<Longrightarrow> P) \<Longrightarrow>
   (branch b False \<Longrightarrow> n = Some y \<Longrightarrow> P) \<Longrightarrow> P"
  by (cases b) auto

lemma if_PairE:
  "(if b then m else n) = (x, y) \<Longrightarrow> (branch b True \<Longrightarrow> m = (x, y) \<Longrightarrow> P) \<Longrightarrow>
   (branch b False \<Longrightarrow> n = (x, y) \<Longrightarrow> P) \<Longrightarrow> P"
  by (cases b) auto

lemma case_prod_SomeE:
  "(case p of (a, b) \<Rightarrow> f a b) = Some y \<Longrightarrow> (\<And>a b. p = (a, b) \<Longrightarrow> f a b = Some y \<Longrightarrow> P) \<Longrightarrow> P"
  by (cases p) auto

lemma case_prod_PairE:
  "(case p of (a, b) \<Rightarrow> f a b) = (x, y) \<Longrightarrow> (\<And>a b. p = (a, b) \<Longrightarrow> f a b = (x, y) \<Longrightarrow> P) \<Longrightarrow> P"
  by (cases p) auto

lemma case_option_SomeE:
  "(case m of None \<Rightarrow> n | Some x \<Rightarrow> f x) = Some y \<Longrightarrow> (m = None \<Longrightarrow> n = Some y \<Longrightarrow> P) \<Longrightarrow>
   (\<And>x. m = Some x \<Longrightarrow> f x = Some y \<Longrightarrow> P) \<Longrightarrow> P"
  by (cases m) auto

lemma case_option_PairE:
  "(case m of None \<Rightarrow> n | Some x \<Rightarrow> f x) = (z, y) \<Longrightarrow> (m = None \<Longrightarrow> n = (z, y) \<Longrightarrow> P) \<Longrightarrow>
   (\<And>x. m = Some x \<Longrightarrow> f x = (z, y) \<Longrightarrow> P) \<Longrightarrow> P"
  by (cases m) auto

lemma case_list_SomeE:
  "(case m of [] \<Rightarrow> n | x # xs \<Rightarrow> f x xs) = Some y \<Longrightarrow> (m = [] \<Longrightarrow> n = Some y \<Longrightarrow> P) \<Longrightarrow>
   (\<And>x xs. m = x # xs \<Longrightarrow> f x xs = Some y \<Longrightarrow> P) \<Longrightarrow> P"
  by (cases m) auto

lemmas do_elims = bind_SomeE if_SomeE if_PairE case_prod_SomeE case_prod_PairE case_option_SomeE
  case_option_PairE case_list_SomeE

end
