(* ===== verification/Raft_Types.thy ===== *)
theory Raft_Types
  imports Prelude
begin

text \<open>
  The public types of the raft library, from \<open>deps/raft/include/raft.h\<close>: error codes, the server
  states, log entry types, log entries and the messages.
\<close>

section \<open>Error codes and enumerations\<close>

abbreviation (input) RAFT_ERR_NOT_LEADER :: int where "RAFT_ERR_NOT_LEADER \<equiv> - 2"
abbreviation (input) RAFT_ERR_ONE_VOTING_CHANGE_ONLY :: int where "RAFT_ERR_ONE_VOTING_CHANGE_ONLY \<equiv> - 3"
abbreviation (input) RAFT_ERR_SHUTDOWN :: int where "RAFT_ERR_SHUTDOWN \<equiv> - 4"
abbreviation (input) RAFT_ERR_NOMEM :: int where "RAFT_ERR_NOMEM \<equiv> - 5"
abbreviation (input) RAFT_ERR_SNAPSHOT_IN_PROGRESS :: int where "RAFT_ERR_SNAPSHOT_IN_PROGRESS \<equiv> - 6"
abbreviation (input) RAFT_ERR_SNAPSHOT_ALREADY_LOADED :: int where "RAFT_ERR_SNAPSHOT_ALREADY_LOADED \<equiv> - 7"
abbreviation (input) RAFT_ERR_INVALID_NODEID :: int where "RAFT_ERR_INVALID_NODEID \<equiv> - 8"
abbreviation (input) RAFT_ERR_LEADER_TRANSFER_IN_PROGRESS :: int where
  "RAFT_ERR_LEADER_TRANSFER_IN_PROGRESS \<equiv> - 9"
abbreviation (input) RAFT_ERR_DONE :: int where "RAFT_ERR_DONE \<equiv> - 10"
abbreviation (input) RAFT_ERR_NOTFOUND :: int where "RAFT_ERR_NOTFOUND \<equiv> - 11"
abbreviation (input) RAFT_ERR_MISUSE :: int where "RAFT_ERR_MISUSE \<equiv> - 12"
abbreviation (input) RAFT_ERR_TRYAGAIN :: int where "RAFT_ERR_TRYAGAIN \<equiv> - 13"

abbreviation (input) RAFT_NODE_ID_NONE :: raft_node_id_t where "RAFT_NODE_ID_NONE \<equiv> - 1"

datatype raft_membership_e = RAFT_MEMBERSHIP_ADD | RAFT_MEMBERSHIP_REMOVE

datatype raft_state_e =
    RAFT_STATE_FOLLOWER
  | RAFT_STATE_PRECANDIDATE
  | RAFT_STATE_CANDIDATE
  | RAFT_STATE_LEADER

datatype raft_leader_transfer_e =
    RAFT_LEADER_TRANSFER_TIMEOUT
  | RAFT_LEADER_TRANSFER_UNEXPECTED_LEADER
  | RAFT_LEADER_TRANSFER_EXPECTED_LEADER

datatype raft_config_e =
    RAFT_CONFIG_ELECTION_TIMEOUT
  | RAFT_CONFIG_REQUEST_TIMEOUT
  | RAFT_CONFIG_AUTO_FLUSH
  | RAFT_CONFIG_LOG_ENABLED
  | RAFT_CONFIG_NONBLOCKING_APPLY
  | RAFT_CONFIG_DISABLE_APPLY
  | RAFT_CONFIG_UNKNOWN int

text \<open>Entry types are plain C integers, and applications use values above \<open>RAFT_LOGTYPE_NUM\<close>.\<close>

abbreviation (input) RAFT_LOGTYPE_NORMAL :: int where "RAFT_LOGTYPE_NORMAL \<equiv> 0"
abbreviation (input) RAFT_LOGTYPE_ADD_NONVOTING_NODE :: int where "RAFT_LOGTYPE_ADD_NONVOTING_NODE \<equiv> 1"
abbreviation (input) RAFT_LOGTYPE_ADD_NODE :: int where "RAFT_LOGTYPE_ADD_NODE \<equiv> 2"
abbreviation (input) RAFT_LOGTYPE_REMOVE_NODE :: int where "RAFT_LOGTYPE_REMOVE_NODE \<equiv> 3"
abbreviation (input) RAFT_LOGTYPE_NO_OP :: int where "RAFT_LOGTYPE_NO_OP \<equiv> 4"
abbreviation (input) RAFT_LOGTYPE_NUM :: int where "RAFT_LOGTYPE_NUM \<equiv> 100"

section \<open>Log entries\<close>

text \<open>
  An entry is a value here: the reference count, the private pointer and the free function of
  \<open>raft_entry_t\<close> belong to its memory management and are not part of the value.
  \<open>data_len\<close> is the length of \<open>ety_data\<close>.
\<close>

record raft_entry =
  ety_term :: raft_term_t
  ety_id :: raft_entry_id_t
  ety_session :: raft_session_t
  ety_type :: int
  ety_data :: "8 word list"

record raft_entry_resp =
  er_id :: raft_entry_id_t
  er_term :: raft_term_t
  er_idx :: raft_index_t

section \<open>Messages\<close>

record raft_snapshot_chunk =
  ch_offset :: raft_size_t
  ch_data :: "8 word list"
  ch_len :: raft_size_t
  ch_last_chunk :: bool

record raft_requestvote_req =
  rv_prevote :: bool
  rv_term :: raft_term_t
  rv_candidate_id :: raft_node_id_t
  rv_last_log_idx :: raft_index_t
  rv_last_log_term :: raft_term_t

record raft_requestvote_resp =
  rvr_prevote :: bool
  rvr_request_term :: raft_term_t
  rvr_term :: raft_term_t
  rvr_vote_granted :: bool

record raft_snapshot_req =
  sn_term :: raft_term_t
  sn_leader_id :: raft_node_id_t
  sn_msg_id :: raft_msg_id_t
  sn_snapshot_index :: raft_index_t
  sn_snapshot_term :: raft_term_t
  sn_chunk :: raft_snapshot_chunk

record raft_snapshot_resp =
  snr_msg_id :: raft_msg_id_t
  snr_snapshot_index :: raft_index_t
  snr_term :: raft_term_t
  snr_offset :: raft_size_t
  snr_success :: bool
  snr_last_chunk :: bool

text \<open>\<open>n_entries\<close> is the length of \<open>ae_entries\<close>.\<close>

record raft_appendentries_req =
  ae_leader_id :: raft_node_id_t
  ae_msg_id :: raft_msg_id_t
  ae_term :: raft_term_t
  ae_prev_log_idx :: raft_index_t
  ae_prev_log_term :: raft_term_t
  ae_leader_commit :: raft_index_t
  ae_entries :: "raft_entry list"

record raft_appendentries_resp =
  aer_msg_id :: raft_msg_id_t
  aer_term :: raft_term_t
  aer_success :: bool
  aer_current_idx :: raft_index_t

record raft_server_stats =
  appendentries_req_with_entry :: "64 word"
  snapshots_created :: "64 word"
  snapshots_received :: "64 word"
  exec_throttled :: "64 word"
  appendentries_req_sent :: "64 word"
  appendentries_req_received :: "64 word"
  appendentries_req_failed :: "64 word"
  appendentries_resp_received :: "64 word"
  snapshot_req_sent :: "64 word"
  snapshot_req_received :: "64 word"
  snapshot_req_failed :: "64 word"
  snapshot_resp_received :: "64 word"
  requestvote_prevote_req_sent :: "64 word"
  requestvote_prevote_req_received :: "64 word"
  requestvote_prevote_req_failed :: "64 word"
  requestvote_prevote_req_granted :: "64 word"
  requestvote_prevote_resp_received :: "64 word"
  requestvote_req_sent :: "64 word"
  requestvote_req_received :: "64 word"
  requestvote_req_failed :: "64 word"
  requestvote_req_granted :: "64 word"
  requestvote_resp_received :: "64 word"

section \<open>Classification of entries\<close>

definition raft_entry_is_voting_cfg_change :: "raft_entry \<Rightarrow> bool" where
  "raft_entry_is_voting_cfg_change ety \<longleftrightarrow>
     RAFT_LOGTYPE_ADD_NODE = ety_type ety \<or> RAFT_LOGTYPE_REMOVE_NODE = ety_type ety"

definition raft_entry_is_cfg_change :: "raft_entry \<Rightarrow> bool" where
  "raft_entry_is_cfg_change ety \<longleftrightarrow>
     RAFT_LOGTYPE_ADD_NODE = ety_type ety \<or>
     RAFT_LOGTYPE_ADD_NONVOTING_NODE = ety_type ety \<or>
     RAFT_LOGTYPE_REMOVE_NODE = ety_type ety"

lemma voting_cfg_change_is_cfg_change:
  "raft_entry_is_voting_cfg_change ety \<Longrightarrow> raft_entry_is_cfg_change ety"
  by (auto simp: raft_entry_is_voting_cfg_change_def raft_entry_is_cfg_change_def)

end
