(* ===== verification/Raft_Log_Impl.thy ===== *)
theory Raft_Log_Impl
  imports Raft_Types
begin

text \<open>
  The pluggable log of the raft library: the function table \<open>raft_log_impl_t\<close> of
  \<open>deps/raft/include/raft.h\<close>, and what the server relies on when it calls through it, as the
  locale \<open>raft_log_store\<close>. A log represents a base index and the list of the entries above it:
  entry number \<open>base + 1 + k\<close> is element \<open>k\<close> of the list.
\<close>

record 'l raft_log_impl =
  li_reset :: "'l \<Rightarrow> raft_index_t \<Rightarrow> raft_term_t \<Rightarrow> 'l option"
  li_append :: "'l \<Rightarrow> raft_entry \<Rightarrow> (int \<times> 'l) option"
  li_poll :: "'l \<Rightarrow> raft_index_t \<Rightarrow> (int \<times> 'l) option"
  li_pop :: "'l \<Rightarrow> raft_index_t \<Rightarrow> (int \<times> 'l) option"
  li_get :: "'l \<Rightarrow> raft_index_t \<Rightarrow> raft_entry option option"
  li_get_batch :: "'l \<Rightarrow> raft_index_t \<Rightarrow> raft_index_t \<Rightarrow> (raft_index_t \<times> raft_entry list) option"
  li_first_idx :: "'l \<Rightarrow> raft_index_t"
  li_current_idx :: "'l \<Rightarrow> raft_index_t"
  li_count :: "'l \<Rightarrow> raft_index_t"
  li_sync :: "'l \<Rightarrow> (int \<times> 'l) option"

text \<open>The entry with index \<open>i\<close> of a log with base \<open>b\<close> and entries \<open>es\<close>; \<open>None\<close> is NULL.\<close>

definition ent_at :: "raft_index_t \<Rightarrow> raft_entry list \<Rightarrow> raft_index_t \<Rightarrow> raft_entry option" where
  "ent_at b es i =
     (if b < i \<and> i \<le> b + int (length es) then Some (es ! nat (i - b - 1)) else None)"

lemma ent_at_append_old:
  "i \<le> b + int (length es) \<Longrightarrow> ent_at b (es @ xs) i = ent_at b es i"
  by (auto simp: ent_at_def nth_append)

lemma ent_at_append_new: "ent_at b (es @ [x]) (b + int (length es) + 1) = Some x"
  by (simp add: ent_at_def)

lemma ent_at_take:
  "n \<le> length es \<Longrightarrow> i \<le> b + int n \<Longrightarrow> ent_at b (take n es) i = ent_at b es i"
  by (auto simp: ent_at_def)

lemma ent_at_drop:
  "d \<le> length es \<Longrightarrow> b + int d < i \<Longrightarrow> ent_at (b + int d) (drop d es) i = ent_at b es i"
  by (auto simp: ent_at_def nat_diff_distrib' intro!: arg_cong[where f = "nth es"])

lemma ent_at_Some: "b < i \<Longrightarrow> i \<le> b + int (length es) \<Longrightarrow> \<exists>x \<in> set es. ent_at b es i = Some x"
  by (auto simp: ent_at_def intro!: nth_mem)

lemma ent_at_set: "ent_at b es i = Some x \<Longrightarrow> x \<in> set es"
  by (auto simp: ent_at_def split: if_splits intro!: nth_mem)

locale raft_log_store =
  fixes impl :: "'l raft_log_impl"
    and linv :: "'l \<Rightarrow> bool"
    and base_of :: "'l \<Rightarrow> raft_index_t"
    and ents :: "'l \<Rightarrow> raft_entry list"
  assumes base_nonneg: "linv l \<Longrightarrow> 0 \<le> base_of l"
    and first_idx: "linv l \<Longrightarrow> li_first_idx impl l = base_of l + 1"
    and current_idx: "linv l \<Longrightarrow> li_current_idx impl l = base_of l + int (length (ents l))"
    and count: "linv l \<Longrightarrow> li_count impl l = int (length (ents l))"
    and get: "linv l \<Longrightarrow> li_get impl l i = Some (ent_at (base_of l) (ents l) i)"
    and append: "linv l \<Longrightarrow> \<exists>e l'. li_append impl l ety = Some (e, l') \<and> linv l' \<and> base_of l' = base_of l \<and>
      (if e = 0 then ents l' = ents l @ [ety] else e < 0 \<and> ents l' = ents l)"
    and poll: "linv l \<Longrightarrow> \<exists>e l' d. li_poll impl l i = Some (e, l') \<and> e \<le> 0 \<and> linv l' \<and>
      d \<le> length (ents l) \<and> base_of l' = base_of l + int d \<and> ents l' = drop d (ents l) \<and>
      (d = 0 \<or> base_of l' < i) \<and> (e = 0 \<longrightarrow> base_of l' = max (base_of l) (i - 1))"
    and sync: "linv l \<Longrightarrow> \<exists>e l'. li_sync impl l = Some (e, l') \<and> linv l' \<and> base_of l' = base_of l \<and>
      ents l' = ents l"
    and reset: "linv l \<Longrightarrow> 1 \<le> i \<Longrightarrow> \<exists>l'. li_reset impl l i t = Some l' \<and> linv l' \<and> base_of l' = i - 1 \<and>
      ents l' = []"
    and pop: "linv l \<Longrightarrow> base_of l < i \<Longrightarrow> \<exists>e l'. li_pop impl l i = Some (e, l') \<and> linv l' \<and> base_of l' = base_of l \<and>
      (\<exists>n. nat (i - 1 - base_of l) \<le> n \<and> ents l' = take n (ents l)) \<and>
      (e = 0 \<longrightarrow> ents l' = take (nat (i - 1 - base_of l)) (ents l))"
    and get_batch: "linv l \<Longrightarrow> base_of l < i \<Longrightarrow> i \<le> base_of l + int (length (ents l)) \<Longrightarrow> 1 \<le> n \<Longrightarrow>
      \<exists>k. 1 \<le> k \<and> k \<le> n \<and>
        li_get_batch impl l i n = Some (k, take (nat k) (drop (nat (i - 1 - base_of l)) (ents l)))"
    and get_batch_outside: "linv l \<Longrightarrow> 1 \<le> i \<Longrightarrow> i \<le> base_of l \<or> base_of l + int (length (ents l)) < i \<Longrightarrow>
      li_get_batch impl l i n = Some (0, [])"

end
