(* ===== verification/Raft_Node.thy ===== *)
theory Raft_Node
  imports Raft_Types
begin

unbundle bit_operations_syntax

text \<open>
  A peer as the leader sees it, \<open>deps/raft/src/raft_node.c\<close>: replication positions, message
  identifiers, the snapshot offset and a word of flags. The node is a value; the server keeps the
  list of them. \<open>node_udata\<close> is the opaque user pointer.
\<close>

section \<open>Structure and operations\<close>

record raft_node =
  node_udata :: nat
  next_idx :: raft_index_t
  match_idx :: raft_index_t
  next_msgid :: raft_msg_id_t
  match_msgid :: raft_msg_id_t
  max_seen_msgid :: raft_msg_id_t
  flags :: "32 word"
  node_id :: raft_node_id_t
  snapshot_offset :: raft_size_t

abbreviation (input) RAFT_NODE_VOTED_FOR_ME :: "32 word" where "RAFT_NODE_VOTED_FOR_ME \<equiv> push_bit 0 1"
abbreviation (input) RAFT_NODE_VOTING :: "32 word" where "RAFT_NODE_VOTING \<equiv> push_bit 1 1"
abbreviation (input) RAFT_NODE_HAS_SUFFICIENT_LOG :: "32 word" where
  "RAFT_NODE_HAS_SUFFICIENT_LOG \<equiv> push_bit 2 1"
abbreviation (input) RAFT_NODE_INACTIVE :: "32 word" where "RAFT_NODE_INACTIVE \<equiv> push_bit 3 1"
abbreviation (input) RAFT_NODE_VOTING_COMMITTED :: "32 word" where
  "RAFT_NODE_VOTING_COMMITTED \<equiv> push_bit 4 1"
abbreviation (input) RAFT_NODE_ADDITION_COMMITTED :: "32 word" where
  "RAFT_NODE_ADDITION_COMMITTED \<equiv> push_bit 5 1"

definition raft_node_set_next_idx :: "raft_index_t \<Rightarrow> raft_node \<Rightarrow> raft_node" where
  "raft_node_set_next_idx idx node = node\<lparr>next_idx := (if idx < 1 then 1 else idx)\<rparr>"

definition raft_node_set_match_idx :: "raft_index_t \<Rightarrow> raft_node \<Rightarrow> raft_node" where
  "raft_node_set_match_idx idx node = node\<lparr>match_idx := idx\<rparr>"

definition raft_node_set_match_msgid :: "raft_msg_id_t \<Rightarrow> raft_node \<Rightarrow> raft_node" where
  "raft_node_set_match_msgid msgid node = node\<lparr>match_msgid := msgid\<rparr>"

definition raft_node_set_next_msgid :: "raft_msg_id_t \<Rightarrow> raft_node \<Rightarrow> raft_node" where
  "raft_node_set_next_msgid msgid node = node\<lparr>next_msgid := msgid\<rparr>"

definition raft_node_update_max_seen_msg_id :: "raft_msg_id_t \<Rightarrow> raft_node \<Rightarrow> raft_node" where
  "raft_node_update_max_seen_msg_id msg_id node =
     (if max_seen_msgid node < msg_id then node\<lparr>max_seen_msgid := msg_id\<rparr> else node)"

definition raft_node_set_udata :: "nat \<Rightarrow> raft_node \<Rightarrow> raft_node" where
  "raft_node_set_udata udata node = node\<lparr>node_udata := udata\<rparr>"

definition raft_node_clear_flags :: "raft_node \<Rightarrow> raft_node" where
  "raft_node_clear_flags node = node\<lparr>flags := 0\<rparr>"

definition raft_node_set_voted_for_me :: "bool \<Rightarrow> raft_node \<Rightarrow> raft_node" where
  "raft_node_set_voted_for_me vote node =
     (if vote then node\<lparr>flags := flags node OR RAFT_NODE_VOTED_FOR_ME\<rparr>
      else node\<lparr>flags := flags node AND NOT RAFT_NODE_VOTED_FOR_ME\<rparr>)"

definition raft_node_has_vote_for_me :: "raft_node \<Rightarrow> bool" where
  "raft_node_has_vote_for_me node \<longleftrightarrow> flags node AND RAFT_NODE_VOTED_FOR_ME \<noteq> 0"

definition raft_node_set_voting :: "bool \<Rightarrow> raft_node \<Rightarrow> raft_node" where
  "raft_node_set_voting voting node =
     (if voting then node\<lparr>flags := flags node OR RAFT_NODE_VOTING\<rparr>
      else node\<lparr>flags := flags node AND NOT RAFT_NODE_VOTING\<rparr>)"

definition raft_node_is_voting :: "raft_node \<Rightarrow> bool" where
  "raft_node_is_voting node \<longleftrightarrow>
     flags node AND RAFT_NODE_VOTING \<noteq> 0 \<and> \<not> flags node AND RAFT_NODE_INACTIVE \<noteq> 0"

definition raft_node_has_sufficient_logs :: "raft_node \<Rightarrow> bool" where
  "raft_node_has_sufficient_logs node \<longleftrightarrow> flags node AND RAFT_NODE_HAS_SUFFICIENT_LOG \<noteq> 0"

definition raft_node_set_has_sufficient_logs :: "bool \<Rightarrow> raft_node \<Rightarrow> raft_node" where
  "raft_node_set_has_sufficient_logs sufficient_logs node =
     (if sufficient_logs then node\<lparr>flags := flags node OR RAFT_NODE_HAS_SUFFICIENT_LOG\<rparr>
      else node\<lparr>flags := flags node AND NOT RAFT_NODE_HAS_SUFFICIENT_LOG\<rparr>)"

definition raft_node_set_active :: "bool \<Rightarrow> raft_node \<Rightarrow> raft_node" where
  "raft_node_set_active active node =
     (if \<not> active then node\<lparr>flags := flags node OR RAFT_NODE_INACTIVE\<rparr>
      else node\<lparr>flags := flags node AND NOT RAFT_NODE_INACTIVE\<rparr>)"

definition raft_node_is_active :: "raft_node \<Rightarrow> bool" where
  "raft_node_is_active node \<longleftrightarrow> flags node AND RAFT_NODE_INACTIVE = 0"

definition raft_node_set_voting_committed :: "bool \<Rightarrow> raft_node \<Rightarrow> raft_node" where
  "raft_node_set_voting_committed voting node =
     (if voting then node\<lparr>flags := flags node OR RAFT_NODE_VOTING_COMMITTED\<rparr>
      else node\<lparr>flags := flags node AND NOT RAFT_NODE_VOTING_COMMITTED\<rparr>)"

definition raft_node_is_voting_committed :: "raft_node \<Rightarrow> bool" where
  "raft_node_is_voting_committed node \<longleftrightarrow> flags node AND RAFT_NODE_VOTING_COMMITTED \<noteq> 0"

definition raft_node_set_addition_committed :: "bool \<Rightarrow> raft_node \<Rightarrow> raft_node" where
  "raft_node_set_addition_committed committed node =
     (if committed then node\<lparr>flags := flags node OR RAFT_NODE_ADDITION_COMMITTED\<rparr>
      else node\<lparr>flags := flags node AND NOT RAFT_NODE_ADDITION_COMMITTED\<rparr>)"

definition raft_node_is_addition_committed :: "raft_node \<Rightarrow> bool" where
  "raft_node_is_addition_committed node \<longleftrightarrow> flags node AND RAFT_NODE_ADDITION_COMMITTED \<noteq> 0"

definition raft_node_set_snapshot_offset :: "raft_size_t \<Rightarrow> raft_node \<Rightarrow> raft_node" where
  "raft_node_set_snapshot_offset offset node = node\<lparr>snapshot_offset := offset\<rparr>"

text \<open>\<open>raft_calloc\<close> zeroes the structure; NULL on an allocation failure is \<open>None\<close>.\<close>

abbreviation (input) SIZEOF_RAFT_NODE :: int where "SIZEOF_RAFT_NODE \<equiv> 64"

definition raft_node_new :: "(int \<Rightarrow> bool) \<Rightarrow> nat \<Rightarrow> raft_node_id_t \<Rightarrow> bool \<Rightarrow> raft_node option" where
  "raft_node_new raft_calloc udata nid voting =
     (if \<not> raft_calloc SIZEOF_RAFT_NODE then None
      else Some (raft_node_set_voting voting
        \<lparr>node_udata = udata, next_idx = 1, match_idx = 0, next_msgid = 0, match_msgid = 0,
         max_seen_msgid = 0, flags = 0, node_id = nid, snapshot_offset = 0\<rparr>))"

section \<open>The flags do not interfere\<close>

lemma flag_bit: "(w AND push_bit n 1 \<noteq> 0) = bit w n" for w :: "32 word"
  by (simp add: and_exp_eq_0_iff_not_bit)

lemma flag_bit0: "(w AND push_bit n 1 = 0) = (\<not> bit w n)" for w :: "32 word"
  by (simp add: and_exp_eq_0_iff_not_bit)

lemma flag_or: "bit (w OR push_bit n 1) m = (bit w m \<or> m = n \<and> n < 32)" for w :: "32 word"
  by (auto simp: bit_simps)

lemma flag_and_not: "bit (w AND NOT (push_bit n 1)) m = (bit w m \<and> m \<noteq> n)" for w :: "32 word"
  by (auto simp: bit_simps dest: bit_imp_le_length)

lemmas node_flag_defs =
  raft_node_has_vote_for_me_def raft_node_is_voting_def raft_node_has_sufficient_logs_def
  raft_node_is_active_def raft_node_is_voting_committed_def raft_node_is_addition_committed_def

lemmas node_set_defs =
  raft_node_set_next_idx_def raft_node_set_match_idx_def raft_node_set_match_msgid_def
  raft_node_set_next_msgid_def raft_node_update_max_seen_msg_id_def raft_node_set_udata_def
  raft_node_clear_flags_def raft_node_set_voted_for_me_def raft_node_set_voting_def
  raft_node_set_has_sufficient_logs_def raft_node_set_active_def raft_node_set_voting_committed_def
  raft_node_set_addition_committed_def raft_node_set_snapshot_offset_def

lemma flags_set:
  "flags (raft_node_set_next_idx i n) = flags n"
  "flags (raft_node_set_match_idx i n) = flags n"
  "flags (raft_node_set_match_msgid m n) = flags n"
  "flags (raft_node_set_next_msgid m n) = flags n"
  "flags (raft_node_update_max_seen_msg_id m n) = flags n"
  "flags (raft_node_set_udata u n) = flags n"
  "flags (raft_node_clear_flags n) = 0"
  "flags (raft_node_set_voted_for_me b n) =
     (if b then flags n OR RAFT_NODE_VOTED_FOR_ME else flags n AND NOT RAFT_NODE_VOTED_FOR_ME)"
  "flags (raft_node_set_voting b n) =
     (if b then flags n OR RAFT_NODE_VOTING else flags n AND NOT RAFT_NODE_VOTING)"
  "flags (raft_node_set_has_sufficient_logs b n) =
     (if b then flags n OR RAFT_NODE_HAS_SUFFICIENT_LOG else flags n AND NOT RAFT_NODE_HAS_SUFFICIENT_LOG)"
  "flags (raft_node_set_active b n) =
     (if b then flags n AND NOT RAFT_NODE_INACTIVE else flags n OR RAFT_NODE_INACTIVE)"
  "flags (raft_node_set_voting_committed b n) =
     (if b then flags n OR RAFT_NODE_VOTING_COMMITTED else flags n AND NOT RAFT_NODE_VOTING_COMMITTED)"
  "flags (raft_node_set_addition_committed b n) =
     (if b then flags n OR RAFT_NODE_ADDITION_COMMITTED else flags n AND NOT RAFT_NODE_ADDITION_COMMITTED)"
  "flags (raft_node_set_snapshot_offset s n) = flags n"
  by (simp_all add: node_set_defs)

lemma node_id_set [simp]:
  "node_id (raft_node_set_next_idx i n) = node_id n"
  "node_id (raft_node_set_match_idx i n) = node_id n"
  "node_id (raft_node_set_match_msgid m n) = node_id n"
  "node_id (raft_node_set_next_msgid m n) = node_id n"
  "node_id (raft_node_update_max_seen_msg_id m n) = node_id n"
  "node_id (raft_node_set_udata u n) = node_id n"
  "node_id (raft_node_clear_flags n) = node_id n"
  "node_id (raft_node_set_voted_for_me b n) = node_id n"
  "node_id (raft_node_set_voting b n) = node_id n"
  "node_id (raft_node_set_has_sufficient_logs b n) = node_id n"
  "node_id (raft_node_set_active b n) = node_id n"
  "node_id (raft_node_set_voting_committed b n) = node_id n"
  "node_id (raft_node_set_addition_committed b n) = node_id n"
  "node_id (raft_node_set_snapshot_offset s n) = node_id n"
  by (simp_all add: node_set_defs)

lemma voted_flag_set [simp]:
  "raft_node_has_vote_for_me (raft_node_set_voted_for_me b n) = b"
  "raft_node_has_vote_for_me (raft_node_set_next_idx i n) = raft_node_has_vote_for_me n"
  "raft_node_has_vote_for_me (raft_node_set_match_idx i n) = raft_node_has_vote_for_me n"
  "raft_node_has_vote_for_me (raft_node_set_match_msgid m n) = raft_node_has_vote_for_me n"
  "raft_node_has_vote_for_me (raft_node_set_next_msgid m n) = raft_node_has_vote_for_me n"
  "raft_node_has_vote_for_me (raft_node_update_max_seen_msg_id m n) = raft_node_has_vote_for_me n"
  "raft_node_has_vote_for_me (raft_node_set_voting b n) = raft_node_has_vote_for_me n"
  "raft_node_has_vote_for_me (raft_node_set_has_sufficient_logs b n) = raft_node_has_vote_for_me n"
  "raft_node_has_vote_for_me (raft_node_set_active b n) = raft_node_has_vote_for_me n"
  "raft_node_has_vote_for_me (raft_node_set_voting_committed b n) = raft_node_has_vote_for_me n"
  "raft_node_has_vote_for_me (raft_node_set_addition_committed b n) = raft_node_has_vote_for_me n"
  "raft_node_has_vote_for_me (raft_node_set_snapshot_offset s n) = raft_node_has_vote_for_me n"
  "\<not> raft_node_has_vote_for_me (raft_node_clear_flags n)"
  by (simp_all only: flags_set node_flag_defs flag_bit flag_bit0 flag_or flag_and_not bit_0_eq split: if_split) auto

lemma voting_flag_set [simp]:
  "raft_node_is_voting (raft_node_set_voted_for_me b n) = raft_node_is_voting n"
  "raft_node_is_voting (raft_node_set_next_idx i n) = raft_node_is_voting n"
  "raft_node_is_voting (raft_node_set_match_idx i n) = raft_node_is_voting n"
  "raft_node_is_voting (raft_node_set_match_msgid m n) = raft_node_is_voting n"
  "raft_node_is_voting (raft_node_set_next_msgid m n) = raft_node_is_voting n"
  "raft_node_is_voting (raft_node_update_max_seen_msg_id m n) = raft_node_is_voting n"
  "raft_node_is_voting (raft_node_set_voting b n) = (b \<and> raft_node_is_active n)"
  "raft_node_is_voting (raft_node_set_has_sufficient_logs b n) = raft_node_is_voting n"
  "raft_node_is_voting (raft_node_set_voting_committed b n) = raft_node_is_voting n"
  "raft_node_is_voting (raft_node_set_addition_committed b n) = raft_node_is_voting n"
  "raft_node_is_voting (raft_node_set_snapshot_offset s n) = raft_node_is_voting n"
  "\<not> raft_node_is_voting (raft_node_set_active False n)"
  "\<not> raft_node_is_voting (raft_node_clear_flags n)"
  by (simp_all only: flags_set node_flag_defs flag_bit flag_bit0 flag_or flag_and_not bit_0_eq split: if_split) auto

end
