(* ===== verification/Raft_Server_Model.thy ===== *)
theory Raft_Server_Model
  imports Raft_Log_Impl Raft_Node
begin

text \<open>
  The raft server, \<open>deps/raft/src/raft_server.c\<close> and \<open>raft_server_properties.c\<close>, over any log
  behind \<open>raft_log_impl_t\<close>. This theory holds the definitions only.

  \<^item> \<open>raft_server\<close> is \<open>struct raft_server\<close>. A pointer to a node is the node's identifier, NULL is
    \<open>None\<close>, and a pointer that is not in the node list (a freed node) aborts when it is read. The
    linked read queue is a list. \<open>udata\<close> stands for everything the callbacks and the C library's
    \<open>rand\<close> act on.
  \<^item> \<open>raft_ctx\<close> holds what the server calls and does not implement: the log table, the callbacks of
    \<open>raft_cbs_t\<close> (an optional one is \<open>None\<close> when NULL; calling a NULL one that the code does not
    test aborts), the functions behind the
    pointers of read requests, \<open>rand\<close> and the heap functions.
  \<^item> A callback takes the server and returns its result and the new \<open>udata\<close>; only \<open>load_snapshot\<close>,
    which is documented to call back into the server, returns a whole server.
  \<^item> The debug messages of \<open>raft_log()\<close> are left out: they change no state of the server.
\<close>

section \<open>The server and its context\<close>

text \<open>\<open>rr_cb\<close> stands for the pair of the function pointer \<open>cb\<close> and its argument \<open>cb_arg\<close>.\<close>

record raft_read_request =
  rr_read_idx :: raft_index_t
  rr_msg_id :: raft_msg_id_t
  rr_cb :: nat

record ('l, 'u) raft_server =
  current_term :: raft_term_t
  voted_for :: raft_node_id_t
  log_st :: 'l
  commit_idx :: raft_index_t
  last_applied_idx :: raft_index_t
  last_applied_term :: raft_term_t
  state :: raft_state_e
  timeout_elapsed :: raft_time_t
  timestamp :: raft_time_t
  exec_deadline :: raft_time_t
  pending_operations :: bool
  nodes :: "raft_node list"
  quorum_timeout :: raft_time_t
  last_acked_msg_id :: raft_msg_id_t
  leader_id :: raft_node_id_t
  udata :: 'u
  my_node :: "raft_node_id_t option"
  voting_cfg_change_log_idx :: raft_index_t
  snapshot_in_progress :: bool
  snapshot_last_idx :: raft_index_t
  snapshot_last_term :: raft_term_t
  next_snapshot_last_idx :: raft_index_t
  next_snapshot_last_term :: raft_term_t
  snapshot_recv_idx :: raft_index_t
  snapshot_recv_offset :: raft_size_t
  msg_id :: raft_msg_id_t
  read_queue :: "raft_read_request list"
  node_transferring_leader_to :: raft_node_id_t
  transfer_leader_time :: raft_time_t
  sent_timeout_now :: bool
  next_sync_index :: raft_index_t
  election_timeout_rand :: raft_time_t
  election_timeout :: raft_time_t
  request_timeout :: raft_time_t
  nonblocking_apply :: bool
  auto_flush :: bool
  log_enabled :: bool
  disable_apply :: bool
  stats :: raft_server_stats

record ('l, 'u) raft_ctx =
  impl :: "'l raft_log_impl"
  cb_send_requestvote :: "(('l, 'u) raft_server \<Rightarrow> raft_node \<Rightarrow> raft_requestvote_req \<Rightarrow> int \<times> 'u) option"
  cb_send_appendentries :: "(('l, 'u) raft_server \<Rightarrow> raft_node \<Rightarrow> raft_appendentries_req \<Rightarrow> int \<times> 'u) option"
  cb_send_snapshot :: "(('l, 'u) raft_server \<Rightarrow> raft_node \<Rightarrow> raft_snapshot_req \<Rightarrow> int \<times> 'u) option"
  cb_send_timeoutnow :: "(('l, 'u) raft_server \<Rightarrow> raft_node \<Rightarrow> int \<times> 'u) option"
  cb_load_snapshot :: "(('l, 'u) raft_server \<Rightarrow> raft_term_t \<Rightarrow> raft_index_t \<Rightarrow> int \<times> ('l, 'u) raft_server) option"
  cb_get_snapshot_chunk :: "(('l, 'u) raft_server \<Rightarrow> raft_node \<Rightarrow> raft_size_t \<Rightarrow> raft_snapshot_chunk \<Rightarrow>
      int \<times> raft_snapshot_chunk \<times> 'u) option"
  cb_store_snapshot_chunk :: "(('l, 'u) raft_server \<Rightarrow> raft_index_t \<Rightarrow> raft_size_t \<Rightarrow> raft_snapshot_chunk \<Rightarrow> int \<times> 'u) option"
  cb_clear_snapshot :: "(('l, 'u) raft_server \<Rightarrow> int \<times> 'u) option"
  cb_applylog :: "(('l, 'u) raft_server \<Rightarrow> raft_entry \<Rightarrow> raft_index_t \<Rightarrow> int \<times> 'u) option"
  cb_persist_metadata :: "(('l, 'u) raft_server \<Rightarrow> raft_term_t \<Rightarrow> raft_node_id_t \<Rightarrow> int \<times> 'u) option"
  cb_get_node_id :: "(('l, 'u) raft_server \<Rightarrow> raft_entry \<Rightarrow> raft_index_t \<Rightarrow> raft_node_id_t \<times> 'u) option"
  cb_node_has_sufficient_logs :: "(('l, 'u) raft_server \<Rightarrow> raft_node \<Rightarrow> int \<times> 'u) option"
  cb_timestamp :: "(('l, 'u) raft_server \<Rightarrow> raft_time_t \<times> 'u) option"
  cb_notify_membership_event :: "(('l, 'u) raft_server \<Rightarrow> raft_node option \<Rightarrow> raft_entry option \<Rightarrow> raft_membership_e \<Rightarrow> 'u) option"
  cb_notify_state_event :: "(('l, 'u) raft_server \<Rightarrow> raft_state_e \<Rightarrow> 'u) option"
  cb_notify_transfer_event :: "(('l, 'u) raft_server \<Rightarrow> raft_leader_transfer_e \<Rightarrow> 'u) option"
  cb_backpressure :: "(('l, 'u) raft_server \<Rightarrow> raft_node \<Rightarrow> int \<times> 'u) option"
  cb_get_entries_to_send :: "(('l, 'u) raft_server \<Rightarrow> raft_node \<Rightarrow> raft_index_t \<Rightarrow> raft_index_t \<Rightarrow>
      raft_index_t \<times> raft_entry list \<times> 'u) option"
  c_call_read :: "nat \<Rightarrow> bool \<Rightarrow> 'u \<Rightarrow> 'u"
  c_rand :: "'u \<Rightarrow> int \<times> 'u"
  c_calloc :: "int \<Rightarrow> bool"
  c_realloc :: "int \<Rightarrow> bool"

abbreviation (input) LLONG_MAX :: raft_time_t where "LLONG_MAX \<equiv> 9223372036854775807"

section \<open>Properties of the server (\<open>raft_server_properties.c\<close>)\<close>

definition raft_get_node :: "('l, 'u) raft_server \<Rightarrow> raft_node_id_t \<Rightarrow> raft_node option" where
  "raft_get_node me nodeid = find (\<lambda>n. nodeid = node_id n) (nodes me)"

text \<open>A write through a node pointer.\<close>

definition upd_node ::
  "raft_node_id_t \<Rightarrow> (raft_node \<Rightarrow> raft_node) \<Rightarrow> ('l, 'u) raft_server \<Rightarrow> ('l, 'u) raft_server option" where
  "upd_node i f me =
     (case raft_get_node me i of
        None \<Rightarrow> None
      | Some _ \<Rightarrow> Some (me\<lparr>nodes := map (\<lambda>n. if node_id n = i then f n else n) (nodes me)\<rparr>))"

text \<open>A read through the pointer \<open>me->node\<close>.\<close>

definition deref_my_node :: "('l, 'u) raft_server \<Rightarrow> raft_node option" where
  "deref_my_node me = do { i \<leftarrow> my_node me; raft_get_node me i }"

definition raft_get_nodeid :: "('l, 'u) raft_server \<Rightarrow> raft_node_id_t option" where
  "raft_get_nodeid me =
     (case my_node me of
        None \<Rightarrow> Some RAFT_NODE_ID_NONE
      | Some i \<Rightarrow> map_option node_id (raft_get_node me i))"

definition raft_get_num_nodes :: "('l, 'u) raft_server \<Rightarrow> int" where
  "raft_get_num_nodes me = int (length (nodes me))"

definition raft_get_num_voting_nodes :: "('l, 'u) raft_server \<Rightarrow> int" where
  "raft_get_num_voting_nodes me = int (length (filter raft_node_is_voting (nodes me)))"

definition raft_get_log_count :: "('l, 'u) raft_ctx \<Rightarrow> ('l, 'u) raft_server \<Rightarrow> raft_index_t" where
  "raft_get_log_count c me = li_count (impl c) (log_st me)"

definition raft_get_current_idx :: "('l, 'u) raft_ctx \<Rightarrow> ('l, 'u) raft_server \<Rightarrow> raft_index_t" where
  "raft_get_current_idx c me = li_current_idx (impl c) (log_st me)"

definition raft_get_entry_from_idx ::
  "('l, 'u) raft_ctx \<Rightarrow> ('l, 'u) raft_server \<Rightarrow> raft_index_t \<Rightarrow> raft_entry option option" where
  "raft_get_entry_from_idx c me etyidx = li_get (impl c) (log_st me) etyidx"

definition call_persist_metadata ::
  "('l, 'u) raft_ctx \<Rightarrow> ('l, 'u) raft_server \<Rightarrow> raft_term_t \<Rightarrow> raft_node_id_t \<Rightarrow> int \<times> ('l, 'u) raft_server" where
  "call_persist_metadata c me t vote =
     (case cb_persist_metadata c of
        None \<Rightarrow> (0, me)
      | Some f \<Rightarrow> (let (e, u) = f me t vote in (e, me\<lparr>udata := u\<rparr>)))"

definition raft_set_current_term ::
  "('l, 'u) raft_ctx \<Rightarrow> ('l, 'u) raft_server \<Rightarrow> raft_term_t \<Rightarrow> int \<times> ('l, 'u) raft_server" where
  "raft_set_current_term c me t =
     (if current_term me \<ge> t then (0, me)
      else let (e, me) = call_persist_metadata c me t RAFT_NODE_ID_NONE
           in if e \<noteq> 0 then (e, me)
              else (0, me\<lparr>current_term := t, voted_for := RAFT_NODE_ID_NONE\<rparr>))"

definition raft_set_commit_idx ::
  "('l, 'u) raft_ctx \<Rightarrow> ('l, 'u) raft_server \<Rightarrow> raft_index_t \<Rightarrow> ('l, 'u) raft_server option" where
  "raft_set_commit_idx c me idx =
     do {
       assert_ok (commit_idx me \<le> idx);
       assert_ok (idx \<le> raft_get_current_idx c me);
       Some (me\<lparr>commit_idx := idx\<rparr>)
     }"

definition raft_set_state :: "('l, 'u) raft_server \<Rightarrow> raft_state_e \<Rightarrow> ('l, 'u) raft_server option" where
  "raft_set_state me st =
     (if st = RAFT_STATE_LEADER then
        do { i \<leftarrow> raft_get_nodeid me; Some (me\<lparr>leader_id := i, state := st\<rparr>) }
      else Some (me\<lparr>state := st\<rparr>))"

definition raft_get_state_str :: "('l, 'u) raft_server \<Rightarrow> string" where
  "raft_get_state_str me =
     (case state me of
        RAFT_STATE_FOLLOWER \<Rightarrow> ''follower''
      | RAFT_STATE_PRECANDIDATE \<Rightarrow> ''pre-candidate''
      | RAFT_STATE_CANDIDATE \<Rightarrow> ''candidate''
      | RAFT_STATE_LEADER \<Rightarrow> ''leader'')"

definition raft_get_error_str :: "int \<Rightarrow> string" where
  "raft_get_error_str err =
     (if err = RAFT_ERR_NOT_LEADER then ''not leader''
      else if err = RAFT_ERR_ONE_VOTING_CHANGE_ONLY then ''one voting change only''
      else if err = RAFT_ERR_SHUTDOWN then ''shutdown''
      else if err = RAFT_ERR_NOMEM then ''out of memory''
      else if err = RAFT_ERR_SNAPSHOT_IN_PROGRESS then ''snapshot is in progress''
      else if err = RAFT_ERR_SNAPSHOT_ALREADY_LOADED then ''snapshot already loaded''
      else if err = RAFT_ERR_INVALID_NODEID then ''invalid node id''
      else if err = RAFT_ERR_LEADER_TRANSFER_IN_PROGRESS then ''leader transfer is in progress''
      else if err = RAFT_ERR_DONE then ''done''
      else if err = RAFT_ERR_NOTFOUND then ''not found''
      else if err = RAFT_ERR_MISUSE then ''misuse''
      else if err = RAFT_ERR_TRYAGAIN then ''try again''
      else ''unknown error'')"

abbreviation raft_is_follower :: "('l, 'u) raft_server \<Rightarrow> bool" where
  "raft_is_follower me \<equiv> state me = RAFT_STATE_FOLLOWER"

abbreviation raft_is_leader :: "('l, 'u) raft_server \<Rightarrow> bool" where
  "raft_is_leader me \<equiv> state me = RAFT_STATE_LEADER"

abbreviation raft_is_precandidate :: "('l, 'u) raft_server \<Rightarrow> bool" where
  "raft_is_precandidate me \<equiv> state me = RAFT_STATE_PRECANDIDATE"

abbreviation raft_is_candidate :: "('l, 'u) raft_server \<Rightarrow> bool" where
  "raft_is_candidate me \<equiv> state me = RAFT_STATE_CANDIDATE"

definition raft_get_last_log_term ::
  "('l, 'u) raft_ctx \<Rightarrow> ('l, 'u) raft_server \<Rightarrow> raft_term_t option" where
  "raft_get_last_log_term c me =
     (let current_idx = raft_get_current_idx c me
      in if current_idx = 0 then Some 0
         else if current_idx = snapshot_last_idx me then Some (snapshot_last_term me)
         else do {
           ety \<leftarrow> raft_get_entry_from_idx c me current_idx;
           Some (case ety of Some e \<Rightarrow> ety_term e | None \<Rightarrow> 0)
         })"

definition raft_is_apply_allowed :: "('l, 'u) raft_server \<Rightarrow> bool" where
  "raft_is_apply_allowed me \<longleftrightarrow>
     \<not> disable_apply me \<and> (\<not> snapshot_in_progress me \<or> nonblocking_apply me)"

definition raft_get_last_applied_entry ::
  "('l, 'u) raft_ctx \<Rightarrow> ('l, 'u) raft_server \<Rightarrow> raft_entry option option" where
  "raft_get_last_applied_entry c me =
     (if last_applied_idx me = 0 then Some None
      else li_get (impl c) (log_st me) (last_applied_idx me))"

definition raft_is_single_node_voting_cluster :: "('l, 'u) raft_server \<Rightarrow> bool option" where
  "raft_is_single_node_voting_cluster me =
     (if raft_get_num_voting_nodes me = 1 then
        do { n \<leftarrow> deref_my_node me; Some (raft_node_is_voting n) }
      else Some False)"

definition raft_get_node_from_idx :: "('l, 'u) raft_server \<Rightarrow> raft_index_t \<Rightarrow> raft_node option" where
  "raft_get_node_from_idx me idx = arr_get (nodes me) idx"

definition raft_get_leader_node :: "('l, 'u) raft_server \<Rightarrow> raft_node option" where
  "raft_get_leader_node me = raft_get_node me (leader_id me)"

section \<open>Creation and membership (\<open>raft_server.c\<close>)\<close>

definition raft_randomize_election_timeout ::
  "('l, 'u) raft_ctx \<Rightarrow> ('l, 'u) raft_server \<Rightarrow> ('l, 'u) raft_server option" where
  "raft_randomize_election_timeout c me =
     (let (r, u) = c_rand c (udata me)
      in do {
        random \<leftarrow> c_rem r (election_timeout me);
        Some (me\<lparr>udata := u, election_timeout_rand := election_timeout me + random\<rparr>)
      })"

definition raft_update_quorum_meta ::
  "('l, 'u) raft_server \<Rightarrow> raft_msg_id_t \<Rightarrow> ('l, 'u) raft_server" where
  "raft_update_quorum_meta me i =
     me\<lparr>quorum_timeout := election_timeout me * 2, last_acked_msg_id := i\<rparr>"

definition raft_clear_incoming_snapshot ::
  "('l, 'u) raft_ctx \<Rightarrow> ('l, 'u) raft_server \<Rightarrow> raft_index_t \<Rightarrow> (int \<times> ('l, 'u) raft_server) option" where
  "raft_clear_incoming_snapshot c me new_idx =
     do {
       (e, me) \<leftarrow> (if snapshot_recv_idx me \<noteq> 0 then
                     do {
                       f \<leftarrow> cb_clear_snapshot c;
                       let (e, u) = f me;
                       Some (e, me\<lparr>udata := u\<rparr>)
                     }
                   else Some (0, me));
       Some (e, me\<lparr>snapshot_recv_idx := new_idx, snapshot_recv_offset := 0\<rparr>)
     }"

definition zero_stats :: raft_server_stats where
  "zero_stats =
     \<lparr>appendentries_req_with_entry = 0, snapshots_created = 0, snapshots_received = 0,
      exec_throttled = 0, appendentries_req_sent = 0, appendentries_req_received = 0,
      appendentries_req_failed = 0, appendentries_resp_received = 0, snapshot_req_sent = 0,
      snapshot_req_received = 0, snapshot_req_failed = 0, snapshot_resp_received = 0,
      requestvote_prevote_req_sent = 0, requestvote_prevote_req_received = 0,
      requestvote_prevote_req_failed = 0, requestvote_prevote_req_granted = 0,
      requestvote_prevote_resp_received = 0, requestvote_req_sent = 0,
      requestvote_req_received = 0, requestvote_req_failed = 0, requestvote_req_granted = 0,
      requestvote_resp_received = 0\<rparr>"

text \<open>
  \<open>init\<close> is the result of \<open>log_impl->init\<close> (NULL is \<open>None\<close>) and \<open>u\<close> the initial environment. The
  outer option is an abort, the inner one the NULL result.
\<close>

abbreviation (input) SIZEOF_RAFT_SERVER :: int where "SIZEOF_RAFT_SERVER \<equiv> 704"

definition raft_new_with_log ::
  "('l, 'u) raft_ctx \<Rightarrow> 'l option \<Rightarrow> 'u \<Rightarrow> ('l, 'u) raft_server option option" where
  "raft_new_with_log c init u =
     (if \<not> c_calloc c SIZEOF_RAFT_SERVER then Some None
      else case init of None \<Rightarrow> Some None | Some l \<Rightarrow>
        do {
          let me = \<lparr>current_term = 0, voted_for = RAFT_NODE_ID_NONE, log_st = l, commit_idx = 0,
             last_applied_idx = 0, last_applied_term = 0, state = RAFT_STATE_FOLLOWER,
             timeout_elapsed = 0, timestamp = 0, exec_deadline = LLONG_MAX,
             pending_operations = False, nodes = [], quorum_timeout = 0, last_acked_msg_id = 0,
             leader_id = 0, udata = u, my_node = None, voting_cfg_change_log_idx = 0,
             snapshot_in_progress = False, snapshot_last_idx = 0, snapshot_last_term = 0,
             next_snapshot_last_idx = 0, next_snapshot_last_term = 0, snapshot_recv_idx = 0,
             snapshot_recv_offset = 0, msg_id = 0, read_queue = [],
             node_transferring_leader_to = RAFT_NODE_ID_NONE, transfer_leader_time = 0,
             sent_timeout_now = False, next_sync_index = 0, election_timeout_rand = 0,
             election_timeout = 1000, request_timeout = 200, nonblocking_apply = False,
             auto_flush = True, log_enabled = False, disable_apply = False, stats = zero_stats\<rparr>;
          let me = raft_update_quorum_meta me (msg_id me);
          me \<leftarrow> raft_randomize_election_timeout c me;
          let me = me\<lparr>voting_cfg_change_log_idx := - 1\<rparr>;
          me \<leftarrow> raft_set_state me RAFT_STATE_FOLLOWER;
          Some (Some (me\<lparr>leader_id := RAFT_NODE_ID_NONE, snapshot_in_progress := False\<rparr>))
        })"

definition raft_restore_metadata ::
  "('l, 'u) raft_server \<Rightarrow> raft_term_t \<Rightarrow> raft_node_id_t \<Rightarrow> int \<times> ('l, 'u) raft_server" where
  "raft_restore_metadata me t vote = (0, me\<lparr>current_term := t, voted_for := vote\<rparr>)"

text \<open>The callbacks themselves are the context \<open>c\<close>; installing them also installs \<open>udata\<close>.\<close>

definition raft_set_callbacks :: "('l, 'u) raft_server \<Rightarrow> 'u \<Rightarrow> ('l, 'u) raft_server" where
  "raft_set_callbacks me u = me\<lparr>udata := u\<rparr>"

definition raft_clear ::
  "('l, 'u) raft_ctx \<Rightarrow> ('l, 'u) raft_server \<Rightarrow> ('l, 'u) raft_server option" where
  "raft_clear c me =
     do {
       let me = me\<lparr>current_term := 0, voted_for := RAFT_NODE_ID_NONE, timeout_elapsed := 0\<rparr>;
       me \<leftarrow> raft_randomize_election_timeout c me;
       let me = me\<lparr>voting_cfg_change_log_idx := - 1\<rparr>;
       me \<leftarrow> raft_set_state me RAFT_STATE_FOLLOWER;
       let me = me\<lparr>leader_id := RAFT_NODE_ID_NONE, commit_idx := 0, last_applied_idx := 0,
                   last_applied_term := 0, nodes := [], my_node := None\<rparr>;
       l \<leftarrow> li_reset (impl c) (log_st me) 1 1;
       Some (me\<lparr>log_st := l\<rparr>)
     }"

definition call_notify_membership ::
  "('l, 'u) raft_ctx \<Rightarrow> ('l, 'u) raft_server \<Rightarrow> raft_node option \<Rightarrow> raft_entry option \<Rightarrow> raft_membership_e \<Rightarrow>
   ('l, 'u) raft_server" where
  "call_notify_membership c me node ety ev =
     (case cb_notify_membership_event c of
        None \<Rightarrow> me
      | Some f \<Rightarrow> me\<lparr>udata := f me node ety ev\<rparr>)"

text \<open>The first component of the result is the returned pointer.\<close>

definition raft_add_node_internal ::
  "('l, 'u) raft_ctx \<Rightarrow> ('l, 'u) raft_server \<Rightarrow> raft_entry option \<Rightarrow> nat \<Rightarrow> raft_node_id_t \<Rightarrow> bool \<Rightarrow> bool \<Rightarrow>
   (raft_node_id_t option \<times> ('l, 'u) raft_server) option" where
  "raft_add_node_internal c me ety ud nid is_self voting =
     (if nid = RAFT_NODE_ID_NONE then Some (None, me)
      else case raft_get_node me nid of
        Some node \<Rightarrow>
          (if \<not> raft_node_is_voting node \<and> voting then
             do { me \<leftarrow> upd_node nid (raft_node_set_voting True) me; Some (Some nid, me) }
           else Some (None, me))
      | None \<Rightarrow>
          (case raft_node_new (c_calloc c) ud nid voting of
             None \<Rightarrow> Some (None, me)
           | Some node \<Rightarrow>
               (if \<not> c_realloc c (8 * (raft_get_num_nodes me + 1)) then Some (None, me)
                else let me = me\<lparr>nodes := nodes me @ [node]\<rparr>;
                         me = (if is_self then me\<lparr>my_node := Some nid\<rparr> else me)
                     in Some (Some nid,
                              call_notify_membership c me (Some node) ety RAFT_MEMBERSHIP_ADD))))"

definition raft_add_node ::
  "('l, 'u) raft_ctx \<Rightarrow> ('l, 'u) raft_server \<Rightarrow> nat \<Rightarrow> raft_node_id_t \<Rightarrow> bool \<Rightarrow>
   (raft_node_id_t option \<times> ('l, 'u) raft_server) option" where
  "raft_add_node c me ud nid is_self = raft_add_node_internal c me None ud nid is_self True"

definition raft_add_non_voting_node ::
  "('l, 'u) raft_ctx \<Rightarrow> ('l, 'u) raft_server \<Rightarrow> nat \<Rightarrow> raft_node_id_t \<Rightarrow> bool \<Rightarrow>
   (raft_node_id_t option \<times> ('l, 'u) raft_server) option" where
  "raft_add_non_voting_node c me ud nid is_self = raft_add_node_internal c me None ud nid is_self False"

text \<open>The \<open>memmove\<close> that closes the gap left by the removed node.\<close>

fun remove_node_id :: "raft_node_id_t \<Rightarrow> raft_node list \<Rightarrow> raft_node list" where
  "remove_node_id i [] = []"
| "remove_node_id i (n # ns) = (if node_id n = i then ns else n # remove_node_id i ns)"

definition raft_remove_node ::
  "('l, 'u) raft_ctx \<Rightarrow> ('l, 'u) raft_server \<Rightarrow> raft_node_id_t option \<Rightarrow> ('l, 'u) raft_server option" where
  "raft_remove_node c me node =
     do {
       let me = call_notify_membership c me (Option.bind node (raft_get_node me)) None
                  RAFT_MEMBERSHIP_REMOVE;
       i \<leftarrow> node;
       assert_ok (i \<in> set (map node_id (nodes me)));
       let me = me\<lparr>nodes := remove_node_id i (nodes me)\<rparr>;
       Some (if leader_id me = i then me\<lparr>leader_id := RAFT_NODE_ID_NONE\<rparr> else me)
     }"

definition raft_handle_append_cfg_change ::
  "('l, 'u) raft_ctx \<Rightarrow> ('l, 'u) raft_server \<Rightarrow> raft_entry \<Rightarrow> raft_index_t \<Rightarrow> ('l, 'u) raft_server option" where
  "raft_handle_append_cfg_change c me ety idx =
     (if \<not> raft_entry_is_cfg_change ety then Some me
      else case cb_get_node_id c of None \<Rightarrow> Some me | Some get_node_id \<Rightarrow>
        do {
          let (nid, u) = get_node_id me ety idx;
          let me = me\<lparr>udata := u\<rparr>;
          let node = raft_get_node me nid;
          my_id \<leftarrow> raft_get_nodeid me;
          let is_self = (nid = my_id);
          if ety_type ety = RAFT_LOGTYPE_ADD_NODE then
            do {
              (p, me) \<leftarrow> raft_add_node_internal c me (Some ety) 0 nid is_self True;
              i \<leftarrow> p;
              n \<leftarrow> raft_get_node me i;
              assert_ok (raft_node_is_voting n);
              Some me
            }
          else if ety_type ety = RAFT_LOGTYPE_ADD_NONVOTING_NODE then
            (if is_self then Some me
             else do {
               assert_ok (case node of None \<Rightarrow> True | Some n \<Rightarrow> \<not> raft_node_is_voting n);
               (case node of
                  Some n \<Rightarrow>
                    (if \<not> raft_node_is_active n then upd_node nid (raft_node_set_active True) me
                     else Some me)
                | None \<Rightarrow>
                    do {
                      (p, me) \<leftarrow> raft_add_node_internal c me (Some ety) 0 nid is_self False;
                      i \<leftarrow> p;
                      n \<leftarrow> raft_get_node me i;
                      assert_ok (\<not> raft_node_is_voting n);
                      Some me
                    })
             })
          else
            (case node of
               Some _ \<Rightarrow> upd_node nid (raft_node_set_active False) me
             | None \<Rightarrow> Some me)
        })"

definition raft_handle_remove_cfg_change ::
  "('l, 'u) raft_ctx \<Rightarrow> ('l, 'u) raft_server \<Rightarrow> raft_entry \<Rightarrow> raft_index_t \<Rightarrow> ('l, 'u) raft_server option" where
  "raft_handle_remove_cfg_change c me ety idx =
     (if \<not> raft_entry_is_cfg_change ety then Some me
      else case cb_get_node_id c of None \<Rightarrow> Some me | Some get_node_id \<Rightarrow>
        do {
          let (nid, u) = get_node_id me ety idx;
          let me = me\<lparr>udata := u\<rparr>;
          let node = map_option node_id (raft_get_node me nid);
          if ety_type ety = RAFT_LOGTYPE_ADD_NODE then
            do { i \<leftarrow> node; upd_node i (raft_node_set_voting False) me }
          else if ety_type ety = RAFT_LOGTYPE_ADD_NONVOTING_NODE then
            do {
              my_id \<leftarrow> raft_get_nodeid me;
              assert_ok (nid \<noteq> my_id);
              raft_remove_node c me node
            }
          else
            (case node of
               Some i \<Rightarrow> upd_node i (raft_node_set_active True) me
             | None \<Rightarrow> Some me)
        })"

definition raft_handle_apply_cfg_change ::
  "('l, 'u) raft_ctx \<Rightarrow> ('l, 'u) raft_server \<Rightarrow> raft_entry \<Rightarrow> raft_index_t \<Rightarrow> ('l, 'u) raft_server option" where
  "raft_handle_apply_cfg_change c me ety idx =
     (if \<not> raft_entry_is_cfg_change ety then Some me
      else case cb_get_node_id c of None \<Rightarrow> Some me | Some get_node_id \<Rightarrow>
        do {
          let (nid, u) = get_node_id me ety idx;
          let me = me\<lparr>udata := u\<rparr>;
          let node = map_option node_id (raft_get_node me nid);
          if ety_type ety = RAFT_LOGTYPE_ADD_NODE then
            do {
              i \<leftarrow> node;
              me \<leftarrow> upd_node i (raft_node_set_addition_committed True) me;
              me \<leftarrow> upd_node i (raft_node_set_voting_committed True) me;
              upd_node i (raft_node_set_has_sufficient_logs True) me
            }
          else if ety_type ety = RAFT_LOGTYPE_ADD_NONVOTING_NODE then
            do { i \<leftarrow> node; upd_node i (raft_node_set_addition_committed True) me }
          else if ety_type ety = RAFT_LOGTYPE_REMOVE_NODE then
            (case node of
               Some i \<Rightarrow> raft_remove_node c me (Some i)
             | None \<Rightarrow> Some me)
          else Some me
        })"

function raft_delete_entry_loop ::
  "('l, 'u) raft_ctx \<Rightarrow> ('l, 'u) raft_server \<Rightarrow> raft_index_t \<Rightarrow> raft_index_t \<Rightarrow>
   (int \<times> ('l, 'u) raft_server) option" where
  "raft_delete_entry_loop c me idx last_idx =
     (if last_idx \<ge> idx then
        do {
          ety \<leftarrow> raft_get_entry_from_idx c me last_idx;
          (e, l) \<leftarrow> li_pop (impl c) (log_st me) last_idx;
          let me = me\<lparr>log_st := l\<rparr>;
          if e \<noteq> 0 then
            do {
              (_, l) \<leftarrow> li_sync (impl c) (log_st me);
              _ \<leftarrow> ety;
              Some (e, me\<lparr>log_st := l\<rparr>)
            }
          else
            do {
              ety \<leftarrow> ety;
              me \<leftarrow> raft_handle_remove_cfg_change c me ety last_idx;
              let me = (if voting_cfg_change_log_idx me = last_idx
                        then me\<lparr>voting_cfg_change_log_idx := - 1\<rparr> else me);
              raft_delete_entry_loop c me idx (last_idx - 1)
            }
        }
      else
        do {
          (e, l) \<leftarrow> li_sync (impl c) (log_st me);
          Some (e, me\<lparr>log_st := l\<rparr>)
        })"
  by pat_completeness auto
termination by (relation "measure (\<lambda>(c, me, idx, last_idx). nat (last_idx - idx + 1))") auto

declare raft_delete_entry_loop.simps [simp del]

definition raft_delete_entry_from_idx ::
  "('l, 'u) raft_ctx \<Rightarrow> ('l, 'u) raft_server \<Rightarrow> raft_index_t \<Rightarrow> (int \<times> ('l, 'u) raft_server) option" where
  "raft_delete_entry_from_idx c me idx =
     do {
       assert_ok (commit_idx me < idx);
       if li_count (impl c) (log_st me) = 0 then Some (0, me)
       else
         let first = li_first_idx (impl c) (log_st me);
             last_idx = li_current_idx (impl c) (log_st me)
         in if idx < first \<or> idx > last_idx then Some (0, me)
            else raft_delete_entry_loop c me idx last_idx
     }"

section \<open>Appending and sending entries\<close>

definition count_stat ::
  "(('a :: {one, plus} \<Rightarrow> 'a) \<Rightarrow> raft_server_stats \<Rightarrow> raft_server_stats) \<Rightarrow>
   ('l, 'u) raft_server \<Rightarrow> ('l, 'u) raft_server" where
  "count_stat f me = me\<lparr>stats := f (\<lambda>n. n + 1) (stats me)\<rparr>"

definition raft_append_entry ::
  "('l, 'u) raft_ctx \<Rightarrow> ('l, 'u) raft_server \<Rightarrow> raft_entry \<Rightarrow> (int \<times> ('l, 'u) raft_server) option" where
  "raft_append_entry c me ety =
     do {
       assert_ok (current_term me \<ge> ety_term ety);
       (e, l) \<leftarrow> li_append (impl c) (log_st me) ety;
       let me = me\<lparr>log_st := l\<rparr>;
       if e < 0 then Some (e, me)
       else do {
         let me = (if raft_entry_is_voting_cfg_change ety
                   then me\<lparr>voting_cfg_change_log_idx := raft_get_current_idx c me\<rparr> else me);
         me \<leftarrow> (if raft_entry_is_cfg_change ety
                then raft_handle_append_cfg_change c me ety (raft_get_current_idx c me)
                else Some me);
         Some (0, me)
       }
     }"

text \<open>The entries as a list; the count \<open>n_etys\<close> is its length.\<close>

definition raft_get_entries_from_idx ::
  "('l, 'u) raft_ctx \<Rightarrow> ('l, 'u) raft_server \<Rightarrow> raft_index_t \<Rightarrow> raft_entry list option" where
  "raft_get_entries_from_idx c me idx =
     (if raft_get_current_idx c me < idx then Some []
      else do {
        let size = raft_get_current_idx c me - idx + 1;
        (n, es) \<leftarrow> li_get_batch (impl c) (log_st me) idx size;
        if n < 1 then Some []
        else do { assert_ok (n \<le> int (length es)); Some (take (nat n) es) }
      })"

abbreviation (input) MAX_ENTRIES_IN_APPEND_REQ :: int where "MAX_ENTRIES_IN_APPEND_REQ \<equiv> 65536"

definition raft_get_entries ::
  "('l, 'u) raft_ctx \<Rightarrow> ('l, 'u) raft_server \<Rightarrow> raft_node \<Rightarrow> raft_index_t \<Rightarrow>
   (raft_entry list \<times> ('l, 'u) raft_server) option" where
  "raft_get_entries c me node idx =
     (case cb_get_entries_to_send c of
        None \<Rightarrow> do { es \<leftarrow> raft_get_entries_from_idx c me idx; Some (es, me) }
      | Some f \<Rightarrow>
          (if raft_get_current_idx c me < idx then Some ([], me)
           else do {
             let size = raft_get_current_idx c me - idx + 1;
             let size = (if size > MAX_ENTRIES_IN_APPEND_REQ then MAX_ENTRIES_IN_APPEND_REQ else size);
             let (n, es, u) = f me node idx size;
             let n = (if n < 0 then 0 else n);
             assert_ok (n \<le> int (length es));
             Some (take (nat n) es, me\<lparr>udata := u\<rparr>)
           }))"

text \<open>The loop of \<open>raft_send_snapshot\<close>; it ends when the chunk source or the transport says so.\<close>

partial_function (option) raft_send_snapshot_loop ::
  "('l, 'u) raft_ctx \<Rightarrow> (('l, 'u) raft_server \<Rightarrow> raft_node \<Rightarrow> raft_snapshot_req \<Rightarrow> int \<times> 'u) \<Rightarrow>
   ('l, 'u) raft_server \<Rightarrow> raft_node_id_t \<Rightarrow> (int \<times> ('l, 'u) raft_server) option" where
  "raft_send_snapshot_loop c send_snapshot me node =
     do {
       n \<leftarrow> raft_get_node me node;
       my_id \<leftarrow> raft_get_nodeid me;
       let offset = snapshot_offset n;
       let me = me\<lparr>msg_id := msg_id me + 1\<rparr>;
       get_snapshot_chunk \<leftarrow> cb_get_snapshot_chunk c;
       let (e, chunk, u) = get_snapshot_chunk me n offset
             \<lparr>ch_offset = offset, ch_data = [], ch_len = 0, ch_last_chunk = False\<rparr>;
       let me = me\<lparr>udata := u\<rparr>;
       if e \<noteq> 0 then Some (if e \<noteq> RAFT_ERR_DONE then e else 0, me)
       else do {
         let me = count_stat snapshot_req_sent_update me;
         let (e, u) = send_snapshot me n
               \<lparr>sn_term = current_term me, sn_leader_id = my_id, sn_msg_id = msg_id me,
                sn_snapshot_index = snapshot_last_idx me, sn_snapshot_term = snapshot_last_term me,
                sn_chunk = chunk\<rparr>;
         let me = me\<lparr>udata := u\<rparr>;
         if e \<noteq> 0 then Some (e, me)
         else if ch_last_chunk chunk then
           do {
             me \<leftarrow> upd_node node (raft_node_set_snapshot_offset 0) me;
             me \<leftarrow> upd_node node (raft_node_set_next_idx (snapshot_last_idx me + 1)) me;
             Some (0, me)
           }
         else
           do {
             me \<leftarrow> upd_node node (raft_node_set_snapshot_offset (offset + ch_len chunk)) me;
             raft_send_snapshot_loop c send_snapshot me node
           }
       }
     }"

definition raft_send_snapshot ::
  "('l, 'u) raft_ctx \<Rightarrow> ('l, 'u) raft_server \<Rightarrow> raft_node_id_t \<Rightarrow> (int \<times> ('l, 'u) raft_server) option" where
  "raft_send_snapshot c me node =
     (case cb_send_snapshot c of
        None \<Rightarrow> Some (0, me)
      | Some f \<Rightarrow> raft_send_snapshot_loop c f me node)"

definition raft_get_previous_log_term ::
  "('l, 'u) raft_ctx \<Rightarrow> ('l, 'u) raft_server \<Rightarrow> raft_index_t \<Rightarrow> raft_term_t option" where
  "raft_get_previous_log_term c me idx =
     do {
       assert_ok (idx > 0);
       ety \<leftarrow> raft_get_entry_from_idx c me (idx - 1);
       Some (case ety of None \<Rightarrow> snapshot_last_term me | Some e \<Rightarrow> ety_term e)
     }"

definition call_backpressure ::
  "('l, 'u) raft_ctx \<Rightarrow> ('l, 'u) raft_server \<Rightarrow> raft_node \<Rightarrow> int \<times> ('l, 'u) raft_server" where
  "call_backpressure c me n =
     (case cb_backpressure c of
        None \<Rightarrow> (0, me)
      | Some f \<Rightarrow> (let (r, u) = f me n in (r, me\<lparr>udata := u\<rparr>)))"

partial_function (option) raft_send_appendentries_loop ::
  "('l, 'u) raft_ctx \<Rightarrow> (('l, 'u) raft_server \<Rightarrow> raft_node \<Rightarrow> raft_appendentries_req \<Rightarrow> int \<times> 'u) \<Rightarrow>
   ('l, 'u) raft_server \<Rightarrow> raft_node_id_t \<Rightarrow> (int \<times> ('l, 'u) raft_server) option" where
  "raft_send_appendentries_loop c send_appendentries me node =
     do {
       n \<leftarrow> raft_get_node me node;
       let (r, me) = call_backpressure c me n;
       if r \<noteq> 0 then Some (0, me)
       else do {
         let next = next_idx n;
         my_id \<leftarrow> raft_get_nodeid me;
         let me = me\<lparr>msg_id := msg_id me + 1\<rparr>;
         prev_term \<leftarrow> raft_get_previous_log_term c me next;
         (es, me) \<leftarrow> raft_get_entries c me n next;
         let req = \<lparr>ae_leader_id = my_id, ae_msg_id = msg_id me, ae_term = current_term me,
                    ae_prev_log_idx = next - 1, ae_prev_log_term = prev_term,
                    ae_leader_commit = commit_idx me, ae_entries = es\<rparr>;
         let me = count_stat appendentries_req_sent_update me;
         let (e, u) = send_appendentries me n req;
         let me = me\<lparr>udata := u\<rparr>;
         me \<leftarrow> upd_node node (raft_node_set_next_idx (next + int (length es))) me;
         me \<leftarrow> upd_node node (raft_node_set_next_msgid (ae_msg_id req + 1)) me;
         if e \<noteq> 0 then Some (e, me)
         else do {
           n \<leftarrow> raft_get_node me node;
           if next_idx n \<le> raft_get_current_idx c me
           then raft_send_appendentries_loop c send_appendentries me node
           else Some (0, me)
         }
       }
     }"

definition raft_send_appendentries ::
  "('l, 'u) raft_ctx \<Rightarrow> ('l, 'u) raft_server \<Rightarrow> raft_node_id_t \<Rightarrow> (int \<times> ('l, 'u) raft_server) option" where
  "raft_send_appendentries c me node =
     do {
       assert_ok (my_node me \<noteq> Some node);
       n \<leftarrow> raft_get_node me node;
       assert_ok (next_idx n \<noteq> 0);
       if \<not> raft_node_is_active n then Some (0, me)
       else if snapshot_last_idx me \<ge> next_idx n then raft_send_snapshot c me node
       else case cb_send_appendentries c of
         None \<Rightarrow> Some (- 1, me)
       | Some f \<Rightarrow> raft_send_appendentries_loop c f me node
     }"

text \<open>A C loop over \<open>me->nodes\<close> whose body gets the pointer to each node in turn.\<close>

fun for_nodes ::
  "('s \<Rightarrow> raft_node_id_t \<Rightarrow> 's option) \<Rightarrow> raft_node_id_t list \<Rightarrow> 's \<Rightarrow> 's option" where
  "for_nodes f [] s = Some s"
| "for_nodes f (i # is) s = do { s \<leftarrow> f s i; for_nodes f is s }"

abbreviation node_ids :: "('l, 'u) raft_server \<Rightarrow> raft_node_id_t list" where
  "node_ids me \<equiv> map node_id (nodes me)"

definition raft_send_appendentries_all ::
  "('l, 'u) raft_ctx \<Rightarrow> ('l, 'u) raft_server \<Rightarrow> (int \<times> ('l, 'u) raft_server) option" where
  "raft_send_appendentries_all c me =
     for_nodes (\<lambda>(ret, me) i.
         if my_node me = Some i then Some (ret, me)
         else do {
           (e, me) \<leftarrow> raft_send_appendentries c me i;
           Some (if 0 \<noteq> e then e else ret, me)
         })
       (node_ids me) (0, me)"

section \<open>Voting and elections\<close>

definition raft_vote_for_nodeid ::
  "('l, 'u) raft_ctx \<Rightarrow> ('l, 'u) raft_server \<Rightarrow> raft_node_id_t \<Rightarrow> int \<times> ('l, 'u) raft_server" where
  "raft_vote_for_nodeid c me nodeid =
     (let (e, me) = call_persist_metadata c me (current_term me) nodeid
      in if e \<noteq> 0 then (e, me) else (0, me\<lparr>voted_for := nodeid\<rparr>))"

definition raft_vote ::
  "('l, 'u) raft_ctx \<Rightarrow> ('l, 'u) raft_server \<Rightarrow> raft_node \<Rightarrow> int \<times> ('l, 'u) raft_server" where
  "raft_vote c me node = raft_vote_for_nodeid c me (node_id node)"

definition raft_get_nvotes_for_me :: "('l, 'u) raft_server \<Rightarrow> int option" where
  "raft_get_nvotes_for_me me =
     do {
       let votes = length (filter (\<lambda>n. my_node me \<noteq> Some (node_id n) \<and> raft_node_is_voting n \<and>
                                       raft_node_has_vote_for_me n) (nodes me));
       n \<leftarrow> deref_my_node me;
       Some (int votes + (if raft_node_is_voting n then 1 else 0))
     }"

definition raft_votes_is_majority :: "int \<Rightarrow> int \<Rightarrow> bool" where
  "raft_votes_is_majority num_nodes nvotes =
     (if num_nodes < nvotes then False else c_quot num_nodes 2 + 1 \<le> nvotes)"

definition raft_send_requestvote ::
  "('l, 'u) raft_ctx \<Rightarrow> ('l, 'u) raft_server \<Rightarrow> raft_node_id_t \<Rightarrow> (int \<times> ('l, 'u) raft_server) option" where
  "raft_send_requestvote c me node =
     do {
       assert_ok (my_node me \<noteq> Some node);
       n \<leftarrow> raft_get_node me node;
       last_term \<leftarrow> raft_get_last_log_term c me;
       my_id \<leftarrow> raft_get_nodeid me;
       let req = \<lparr>rv_prevote = raft_is_precandidate me,
                  rv_term = (if raft_is_precandidate me then current_term me + 1 else current_term me),
                  rv_candidate_id = my_id, rv_last_log_idx = raft_get_current_idx c me,
                  rv_last_log_term = last_term\<rparr>;
       (case cb_send_requestvote c of
          None \<Rightarrow> Some (0, me)
        | Some f \<Rightarrow>
            (let me = (if rv_prevote req then count_stat requestvote_prevote_req_sent_update me
                       else count_stat requestvote_req_sent_update me);
                 (e, u) = f me n req
             in Some (e, me\<lparr>udata := u\<rparr>)))
     }"

definition call_notify_state ::
  "('l, 'u) raft_ctx \<Rightarrow> ('l, 'u) raft_server \<Rightarrow> raft_state_e \<Rightarrow> ('l, 'u) raft_server" where
  "call_notify_state c me st =
     (case cb_notify_state_event c of None \<Rightarrow> me | Some f \<Rightarrow> me\<lparr>udata := f me st\<rparr>)"

definition raft_reset_transfer_leader ::
  "('l, 'u) raft_ctx \<Rightarrow> ('l, 'u) raft_server \<Rightarrow> bool \<Rightarrow> ('l, 'u) raft_server" where
  "raft_reset_transfer_leader c me timed_out =
     (if node_transferring_leader_to me = RAFT_NODE_ID_NONE then me
      else
        let result = (if timed_out then RAFT_LEADER_TRANSFER_TIMEOUT
                      else if node_transferring_leader_to me = leader_id me
                           then RAFT_LEADER_TRANSFER_EXPECTED_LEADER
                           else RAFT_LEADER_TRANSFER_UNEXPECTED_LEADER);
            me = (case cb_notify_transfer_event c of
                    None \<Rightarrow> me | Some f \<Rightarrow> me\<lparr>udata := f me result\<rparr>)
        in me\<lparr>node_transferring_leader_to := RAFT_NODE_ID_NONE, transfer_leader_time := 0,
              sent_timeout_now := False\<rparr>)"

definition raft_become_follower ::
  "('l, 'u) raft_ctx \<Rightarrow> ('l, 'u) raft_server \<Rightarrow> ('l, 'u) raft_server option" where
  "raft_become_follower c me =
     do {
       me \<leftarrow> raft_set_state me RAFT_STATE_FOLLOWER;
       me \<leftarrow> raft_randomize_election_timeout c me;
       (_, me) \<leftarrow> raft_clear_incoming_snapshot c me 0;
       let me = me\<lparr>timeout_elapsed := 0, leader_id := RAFT_NODE_ID_NONE\<rparr>;
       Some (call_notify_state c me RAFT_STATE_FOLLOWER)
     }"

definition clear_votes :: "('l, 'u) raft_server \<Rightarrow> ('l, 'u) raft_server" where
  "clear_votes me = me\<lparr>nodes := map (raft_node_set_voted_for_me False) (nodes me)\<rparr>"

definition request_votes ::
  "('l, 'u) raft_ctx \<Rightarrow> ('l, 'u) raft_server \<Rightarrow> ('l, 'u) raft_server option" where
  "request_votes c me =
     for_nodes (\<lambda>me i. do {
         n \<leftarrow> raft_get_node me i;
         if my_node me \<noteq> Some i \<and> raft_node_is_voting n then
           do { (_, me) \<leftarrow> raft_send_requestvote c me i; Some me }
         else Some me
       })
       (node_ids me) me"

definition raft_become_precandidate ::
  "('l, 'u) raft_ctx \<Rightarrow> ('l, 'u) raft_server \<Rightarrow> (int \<times> ('l, 'u) raft_server) option" where
  "raft_become_precandidate c me =
     do {
       let me = clear_votes me;
       me \<leftarrow> raft_set_state me RAFT_STATE_PRECANDIDATE;
       me \<leftarrow> request_votes c me;
       Some (0, call_notify_state c me RAFT_STATE_PRECANDIDATE)
     }"

definition raft_become_candidate ::
  "('l, 'u) raft_ctx \<Rightarrow> ('l, 'u) raft_server \<Rightarrow> (int \<times> ('l, 'u) raft_server) option" where
  "raft_become_candidate c me =
     (let (e, me) = raft_set_current_term c me (current_term me + 1)
      in if e \<noteq> 0 then Some (e, me)
         else do {
           let me = clear_votes me;
           n \<leftarrow> deref_my_node me;
           let (e, me) = (if raft_node_is_voting n then raft_vote c me n else (0, me));
           if e \<noteq> 0 then Some (e, me)
           else do {
             let me = me\<lparr>leader_id := RAFT_NODE_ID_NONE\<rparr>;
             me \<leftarrow> raft_set_state me RAFT_STATE_CANDIDATE;
             me \<leftarrow> request_votes c me;
             Some (0, call_notify_state c me RAFT_STATE_CANDIDATE)
           }
         })"

text \<open>\<open>raft_entry_new(0)\<close>: the identifier is drawn from \<open>rand\<close>, the other fields are zero.\<close>

definition raft_entry_new ::
  "('l, 'u) raft_ctx \<Rightarrow> ('l, 'u) raft_server \<Rightarrow> 8 word list \<Rightarrow> raft_entry \<times> ('l, 'u) raft_server" where
  "raft_entry_new c me data =
     (let (r, u) = c_rand c (udata me)
      in (\<lparr>ety_term = 0, ety_id = r, ety_session = 0, ety_type = 0, ety_data = data\<rparr>, me\<lparr>udata := u\<rparr>))"

definition raft_become_leader ::
  "('l, 'u) raft_ctx \<Rightarrow> ('l, 'u) raft_server \<Rightarrow> (int \<times> ('l, 'u) raft_server) option" where
  "raft_become_leader c me =
     do {
       let (noop, me) = raft_entry_new c me [];
       let noop = noop\<lparr>ety_term := current_term me, ety_type := RAFT_LOGTYPE_NO_OP\<rparr>;
       (e, me) \<leftarrow> raft_append_entry c me noop;
       if e \<noteq> 0 then Some (e, me)
       else do {
         (e, l) \<leftarrow> li_sync (impl c) (log_st me);
         let me = me\<lparr>log_st := l\<rparr>;
         if e \<noteq> 0 then Some (e, me)
         else do {
           let current = raft_get_current_idx c me;
           self \<leftarrow> my_node me;
           me \<leftarrow> upd_node self (raft_node_set_match_idx current) me;
           let me = me\<lparr>next_sync_index := current + 1\<rparr>;
           single \<leftarrow> raft_is_single_node_voting_cluster me;
           me \<leftarrow> (if single then raft_set_commit_idx c me current else Some me);
           me \<leftarrow> raft_set_state me RAFT_STATE_LEADER;
           let me = raft_update_quorum_meta me (msg_id me);
           (_, me) \<leftarrow> raft_clear_incoming_snapshot c me 0;
           let me = raft_reset_transfer_leader c me False;
           let me = me\<lparr>timeout_elapsed := 0\<rparr>;
           me \<leftarrow> for_nodes (\<lambda>me i.
                   if my_node me = Some i then Some me
                   else do {
                     me \<leftarrow> upd_node i (raft_node_set_snapshot_offset 0) me;
                     me \<leftarrow> upd_node i (raft_node_set_next_idx current) me;
                     me \<leftarrow> upd_node i (raft_node_set_match_idx 0) me;
                     (_, me) \<leftarrow> raft_send_appendentries c me i;
                     Some me
                   })
                 (node_ids me) me;
           Some (0, call_notify_state c me RAFT_STATE_LEADER)
         }
       }
     }"

definition raft_election_start ::
  "('l, 'u) raft_ctx \<Rightarrow> ('l, 'u) raft_server \<Rightarrow> bool \<Rightarrow> (int \<times> ('l, 'u) raft_server) option" where
  "raft_election_start c me skip_precandidate =
     do {
       let me = me\<lparr>leader_id := RAFT_NODE_ID_NONE, timeout_elapsed := 0\<rparr>;
       me \<leftarrow> raft_randomize_election_timeout c me;
       if skip_precandidate then raft_become_candidate c me else raft_become_precandidate c me
     }"

definition raft_accept_leader ::
  "('l, 'u) raft_ctx \<Rightarrow> ('l, 'u) raft_server \<Rightarrow> raft_node_id_t \<Rightarrow> ('l, 'u) raft_server option" where
  "raft_accept_leader c me leader =
     do {
       me \<leftarrow> (if \<not> raft_is_follower me then raft_become_follower c me else Some me);
       me \<leftarrow> (if leader_id me \<noteq> leader
              then do { (_, me) \<leftarrow> raft_clear_incoming_snapshot c me 0; Some me } else Some me);
       let me = me\<lparr>timeout_elapsed := 0, leader_id := leader\<rparr>;
       Some (raft_reset_transfer_leader c me False)
     }"

definition raft_timeout_now ::
  "('l, 'u) raft_ctx \<Rightarrow> ('l, 'u) raft_server \<Rightarrow> (int \<times> ('l, 'u) raft_server) option" where
  "raft_timeout_now c me = (if raft_is_leader me then Some (0, me) else raft_election_start c me True)"

section \<open>Committing, applying and reading\<close>

text \<open>\<open>qsort\<close> with the comparators \<open>msgid_cmp\<close> and \<open>index_cmp\<close>: a sort in descending order.\<close>

definition qsort_desc :: "'a :: linorder list \<Rightarrow> 'a list" where
  "qsort_desc xs = rev (sort xs)"

text \<open>With no voting node the code reads an uninitialised element: an abort here.\<close>

definition quorum_msg_id :: "('l, 'u) raft_server \<Rightarrow> raft_msg_id_t option" where
  "quorum_msg_id me =
     (let voters = filter raft_node_is_voting (nodes me);
          msg_ids = map (\<lambda>n. if my_node me = Some (node_id n) then msg_id me else match_msgid n) voters;
          num_voters = int (length voters)
      in do {
        assert_ok (num_voters = raft_get_num_voting_nodes me);
        arr_get (qsort_desc msg_ids) (num_voters div 2)
      })"

definition raft_time_millis ::
  "('l, 'u) raft_ctx \<Rightarrow> ('l, 'u) raft_server \<Rightarrow> raft_time_t \<times> ('l, 'u) raft_server" where
  "raft_time_millis c me =
     (case cb_timestamp c of
        None \<Rightarrow> (0, me)
      | Some f \<Rightarrow> (let (t, u) = f me in (c_quot t 1000, me\<lparr>udata := u\<rparr>)))"

definition raft_set_pending :: "('l, 'u) raft_server \<Rightarrow> ('l, 'u) raft_server" where
  "raft_set_pending me = (count_stat exec_throttled_update me)\<lparr>pending_operations := True\<rparr>"

definition raft_unset_pending :: "('l, 'u) raft_server \<Rightarrow> ('l, 'u) raft_server" where
  "raft_unset_pending me = me\<lparr>pending_operations := False\<rparr>"

definition raft_apply_entry ::
  "('l, 'u) raft_ctx \<Rightarrow> ('l, 'u) raft_server \<Rightarrow> (int \<times> ('l, 'u) raft_server) option" where
  "raft_apply_entry c me =
     (if \<not> raft_is_apply_allowed me then Some (- 1, me)
      else if last_applied_idx me = commit_idx me then Some (- 1, me)
      else do {
        let idx = last_applied_idx me + 1;
        p \<leftarrow> raft_get_entry_from_idx c me idx;
        (case p of
           None \<Rightarrow> Some (- 1, me)
         | Some ety \<Rightarrow>
             do {
               (e, me) \<leftarrow> (case cb_applylog c of
                   None \<Rightarrow> Some (0, me)
                 | Some f \<Rightarrow>
                     do {
                       let (e, u) = f me ety idx;
                       assert_ok (e = 0 \<or> e = RAFT_ERR_SHUTDOWN);
                       Some (e, me\<lparr>udata := u\<rparr>)
                     });
               if e = RAFT_ERR_SHUTDOWN then Some (RAFT_ERR_SHUTDOWN, me)
               else do {
                 let me = me\<lparr>last_applied_idx := idx, last_applied_term := ety_term ety\<rparr>;
                 let me = (if idx = voting_cfg_change_log_idx me
                           then me\<lparr>voting_cfg_change_log_idx := - 1\<rparr> else me);
                 me \<leftarrow> (if raft_entry_is_cfg_change ety
                        then raft_handle_apply_cfg_change c me ety idx else Some me);
                 Some (0, me)
               }
             })
      })"

partial_function (option) raft_apply_all_loop ::
  "('l, 'u) raft_ctx \<Rightarrow> ('l, 'u) raft_server \<Rightarrow> (int \<times> ('l, 'u) raft_server) option" where
  "raft_apply_all_loop c me =
     (if commit_idx me > last_applied_idx me then
        (let (t, me) = raft_time_millis c me
         in if t > exec_deadline me then Some (0, raft_set_pending me)
            else do {
              (e, me) \<leftarrow> raft_apply_entry c me;
              if e \<noteq> 0 then Some (e, me) else raft_apply_all_loop c me
            })
      else Some (0, me))"

definition raft_apply_all ::
  "('l, 'u) raft_ctx \<Rightarrow> ('l, 'u) raft_server \<Rightarrow> (int \<times> ('l, 'u) raft_server) option" where
  "raft_apply_all c me =
     (if \<not> raft_is_apply_allowed me then Some (0, me) else raft_apply_all_loop c me)"

definition pop_read_queue ::
  "('l, 'u) raft_ctx \<Rightarrow> ('l, 'u) raft_server \<Rightarrow> bool \<Rightarrow> ('l, 'u) raft_server option" where
  "pop_read_queue c me can_read =
     (case read_queue me of
        [] \<Rightarrow> None
      | p # ps \<Rightarrow> Some (me\<lparr>udata := c_call_read c (rr_cb p) can_read (udata me), read_queue := ps\<rparr>))"

partial_function (option) raft_drop_reads ::
  "('l, 'u) raft_ctx \<Rightarrow> ('l, 'u) raft_server \<Rightarrow> ('l, 'u) raft_server option" where
  "raft_drop_reads c me =
     (case read_queue me of
        [] \<Rightarrow> Some me
      | _ # _ \<Rightarrow> do { me \<leftarrow> pop_read_queue c me False; raft_drop_reads c me })"

partial_function (option) raft_serve_reads ::
  "('l, 'u) raft_ctx \<Rightarrow> raft_msg_id_t \<Rightarrow> ('l, 'u) raft_server \<Rightarrow> ('l, 'u) raft_server option" where
  "raft_serve_reads c last_acked_msgid me =
     (case read_queue me of
        [] \<Rightarrow> Some me
      | p # _ \<Rightarrow>
          (if rr_msg_id p \<le> last_acked_msgid \<and> rr_read_idx p \<le> last_applied_idx me then
             (let (t, me) = raft_time_millis c me
              in if t > exec_deadline me then Some (raft_set_pending me)
                 else do {
                   me \<leftarrow> pop_read_queue c me True;
                   raft_serve_reads c last_acked_msgid me
                 })
           else Some me))"

definition raft_process_read_queue ::
  "('l, 'u) raft_ctx \<Rightarrow> ('l, 'u) raft_server \<Rightarrow> ('l, 'u) raft_server option" where
  "raft_process_read_queue c me =
     (if read_queue me = [] then Some me
      else if \<not> raft_is_leader me then raft_drop_reads c me
      else if last_applied_term me < current_term me then Some me
      else do {
        last_acked_msgid \<leftarrow> quorum_msg_id me;
        raft_serve_reads c last_acked_msgid me
      })"

definition raft_exec_operations ::
  "('l, 'u) raft_ctx \<Rightarrow> ('l, 'u) raft_server \<Rightarrow> (int \<times> ('l, 'u) raft_server) option" where
  "raft_exec_operations c me =
     do {
       let (t, me) = raft_time_millis c me;
       let me = me\<lparr>exec_deadline := t + c_quot (request_timeout me) 2\<rparr>;
       let me = raft_unset_pending me;
       (e, me) \<leftarrow> raft_apply_all c me;
       me \<leftarrow> (if e \<noteq> 0 then Some me else raft_process_read_queue c me);
       Some (e, me\<lparr>exec_deadline := LLONG_MAX\<rparr>)
     }"

definition raft_update_commit_idx ::
  "('l, 'u) raft_ctx \<Rightarrow> ('l, 'u) raft_server \<Rightarrow> ('l, 'u) raft_server option" where
  "raft_update_commit_idx c me =
     (let voters = filter raft_node_is_voting (nodes me);
          num_voters = length voters;
          indexes = qsort_desc (map match_idx voters) @ replicate (length (nodes me) - num_voters) 0
      in do {
        commit \<leftarrow> arr_get indexes (int num_voters div 2);
        if commit > commit_idx me then
          do {
            p \<leftarrow> raft_get_entry_from_idx c me commit;
            ety \<leftarrow> p;
            if ety_term ety = current_term me then raft_set_commit_idx c me commit else Some me
          }
        else Some me
      })"

definition raft_get_index_to_sync ::
  "('l, 'u) raft_ctx \<Rightarrow> ('l, 'u) raft_server \<Rightarrow> raft_index_t \<times> ('l, 'u) raft_server" where
  "raft_get_index_to_sync c me =
     (let idx = raft_get_current_idx c me
      in if \<not> raft_is_leader me \<or> idx < next_sync_index me then (0, me)
         else (idx, me\<lparr>next_sync_index := idx + 1\<rparr>))"

definition raft_flush ::
  "('l, 'u) raft_ctx \<Rightarrow> ('l, 'u) raft_server \<Rightarrow> raft_index_t \<Rightarrow> (int \<times> ('l, 'u) raft_server) option" where
  "raft_flush c me sync_index =
     do {
       me \<leftarrow> (if \<not> raft_is_leader me then Some me
         else do {
           n \<leftarrow> deref_my_node me;
           me \<leftarrow> (if sync_index > match_idx n
                  then upd_node (node_id n) (raft_node_set_match_idx sync_index) me else Some me);
           me \<leftarrow> raft_update_commit_idx c me;
           let tail = (if read_queue me = [] then 0 else rr_msg_id (last (read_queue me)));
           for_nodes (\<lambda>me i.
               if my_node me = Some i then Some me
               else do {
                 n \<leftarrow> raft_get_node me i;
                 if next_msgid n > tail \<and> next_idx n > raft_get_current_idx c me then Some me
                 else do { (_, me) \<leftarrow> raft_send_appendentries c me i; Some me }
               })
             (node_ids me) me
         });
       raft_exec_operations c me
     }"

definition raft_recv_read_request ::
  "('l, 'u) raft_ctx \<Rightarrow> ('l, 'u) raft_server \<Rightarrow> nat \<Rightarrow> (int \<times> ('l, 'u) raft_server) option" where
  "raft_recv_read_request c me cb =
     (if \<not> raft_is_leader me then Some (RAFT_ERR_NOT_LEADER, me)
      else
        let me = me\<lparr>msg_id := msg_id me + 1\<rparr>;
            req = \<lparr>rr_read_idx = raft_get_current_idx c me, rr_msg_id = msg_id me, rr_cb = cb\<rparr>;
            me = me\<lparr>read_queue := read_queue me @ [req]\<rparr>
        in if auto_flush me then raft_flush c me 0 else Some (0, me))"

section \<open>Timers\<close>

definition raft_periodic_timestamp ::
  "('l, 'u) raft_ctx \<Rightarrow> ('l, 'u) raft_server \<Rightarrow> raft_time_t \<Rightarrow> (raft_time_t \<times> ('l, 'u) raft_server) option" where
  "raft_periodic_timestamp c me msec =
     (if msec < 0 then
        do {
          let (now, me) = raft_time_millis c me;
          assert_ok (now \<ge> timestamp me);
          let msec = (if timestamp me = 0 then 0 else now - timestamp me);
          Some (msec, me\<lparr>timestamp := now\<rparr>)
        }
      else Some (msec, me))"

definition raft_periodic_single_node ::
  "('l, 'u) raft_ctx \<Rightarrow> ('l, 'u) raft_server \<Rightarrow> (int \<times> ('l, 'u) raft_server) option" where
  "raft_periodic_single_node c me =
     do {
       single \<leftarrow> raft_is_single_node_voting_cluster me;
       if single \<and> \<not> raft_is_leader me then
         (let (e, me) = raft_set_current_term c me (current_term me + 1)
          in if e \<noteq> 0 then Some (e, me) else raft_become_leader c me)
       else Some (0, me)
     }"

definition raft_periodic_state ::
  "('l, 'u) raft_ctx \<Rightarrow> ('l, 'u) raft_server \<Rightarrow> raft_time_t \<Rightarrow> (int \<times> ('l, 'u) raft_server) option" where
  "raft_periodic_state c me msec =
     (if raft_is_leader me then
        do {
          me \<leftarrow> (if request_timeout me \<le> timeout_elapsed me then
                  do {
                    let me = me\<lparr>msg_id := msg_id me + 1, timeout_elapsed := 0\<rparr>;
                    (_, me) \<leftarrow> raft_send_appendentries_all c me;
                    Some me
                  }
                else Some me);
          let me = me\<lparr>quorum_timeout := quorum_timeout me - msec\<rparr>;
          me \<leftarrow> (if quorum_timeout me < 0 then
                  do {
                    quorum_id \<leftarrow> quorum_msg_id me;
                    me \<leftarrow> (if last_acked_msg_id me = quorum_id then raft_become_follower c me
                           else Some me);
                    Some (raft_update_quorum_meta me quorum_id)
                  }
                else Some me);
          Some (0, me)
        }
      else if election_timeout_rand me \<le> timeout_elapsed me then raft_election_start c me False
      else Some (0, me))"

definition raft_periodic_internal ::
  "('l, 'u) raft_ctx \<Rightarrow> ('l, 'u) raft_server \<Rightarrow> raft_time_t \<Rightarrow> (int \<times> ('l, 'u) raft_server) option" where
  "raft_periodic_internal c me msec =
     do {
       (msec, me) \<leftarrow> raft_periodic_timestamp c me msec;
       let me = me\<lparr>timeout_elapsed := timeout_elapsed me + msec\<rparr>;
       (e, me) \<leftarrow> raft_periodic_single_node c me;
       if e \<noteq> 0 then Some (e, me)
       else do {
         let me = (if node_transferring_leader_to me \<noteq> RAFT_NODE_ID_NONE then
                     let me = me\<lparr>transfer_leader_time := transfer_leader_time me - msec\<rparr>
                     in if transfer_leader_time me < 0 then raft_reset_transfer_leader c me True else me
                   else me);
         (e, me) \<leftarrow> raft_periodic_state c me msec;
         if e \<noteq> 0 then Some (e, me)
         else if auto_flush me then raft_exec_operations c me
         else Some (0, me)
       }
     }"

definition raft_periodic ::
  "('l, 'u) raft_ctx \<Rightarrow> ('l, 'u) raft_server \<Rightarrow> (int \<times> ('l, 'u) raft_server) option" where
  "raft_periodic c me = raft_periodic_internal c me (- 1)"

section \<open>Vote messages\<close>

text \<open>Lines 1019 to 1027: a newer term is adopted, unless the request is a pre-vote.\<close>

definition raft_recv_requestvote_term ::
  "('l, 'u) raft_ctx \<Rightarrow> ('l, 'u) raft_server \<Rightarrow> raft_requestvote_req \<Rightarrow>
   (int \<times> ('l, 'u) raft_server) option" where
  "raft_recv_requestvote_term c me req =
     (if \<not> rv_prevote req \<and> current_term me < rv_term req then
        (let (e, me) = raft_set_current_term c me (rv_term req)
         in if e \<noteq> 0 then Some (e, me)
            else do { me \<leftarrow> raft_become_follower c me; Some (0, me) })
      else Some (0, me))"

text \<open>Lines 1029 to 1065: the decision, as the error code, the answer and the server.\<close>

definition raft_recv_requestvote_grant ::
  "('l, 'u) raft_ctx \<Rightarrow> ('l, 'u) raft_server \<Rightarrow> raft_requestvote_req \<Rightarrow>
   (int \<times> bool \<times> ('l, 'u) raft_server) option" where
  "raft_recv_requestvote_grant c me req =
     (if current_term me > rv_term req then Some (0, False, me)
      else if current_term me = rv_term req \<and> voted_for me \<noteq> RAFT_NODE_ID_NONE \<and>
              voted_for me \<noteq> rv_candidate_id req
      then Some (0, False, me)
      else do {
        let current = raft_get_current_idx c me;
        last_term \<leftarrow> raft_get_last_log_term c me;
        if rv_last_log_term req < last_term \<or>
           rv_last_log_term req = last_term \<and> rv_last_log_idx req < current
        then Some (0, False, me)
        else if rv_prevote req then Some (0, True, me)
        else do {
          assert_ok (\<not> (raft_is_leader me \<or> raft_is_candidate me));
          let (e, me) = raft_vote_for_nodeid c me (rv_candidate_id req);
          Some (e, e = 0, me\<lparr>leader_id := RAFT_NODE_ID_NONE, timeout_elapsed := 0\<rparr>)
        }
      })"

definition raft_recv_requestvote_decide ::
  "('l, 'u) raft_ctx \<Rightarrow> ('l, 'u) raft_server \<Rightarrow> raft_requestvote_req \<Rightarrow>
   (int \<times> bool \<times> ('l, 'u) raft_server) option" where
  "raft_recv_requestvote_decide c me req =
     (if rv_prevote req \<and> leader_id me \<noteq> RAFT_NODE_ID_NONE \<and> leader_id me \<noteq> rv_candidate_id req \<and>
         timeout_elapsed me < election_timeout me
      then Some (0, False, me)
      else do {
        (e, me) \<leftarrow> raft_recv_requestvote_term c me req;
        if e \<noteq> 0 then Some (e, False, me) else raft_recv_requestvote_grant c me req
      })"

definition raft_recv_requestvote ::
  "('l, 'u) raft_ctx \<Rightarrow> ('l, 'u) raft_server \<Rightarrow> raft_requestvote_req \<Rightarrow>
   (int \<times> raft_requestvote_resp \<times> ('l, 'u) raft_server) option" where
  "raft_recv_requestvote c me req =
     do {
       let me = (if rv_prevote req then count_stat requestvote_prevote_req_received_update me
                 else count_stat requestvote_req_received_update me);
       (e, granted, me) \<leftarrow> raft_recv_requestvote_decide c me req;
       let me = (if granted then
                   (if rv_prevote req then count_stat requestvote_prevote_req_granted_update me
                    else count_stat requestvote_req_granted_update me)
                 else me);
       Some (e, \<lparr>rvr_prevote = rv_prevote req, rvr_request_term = rv_term req,
                 rvr_term = current_term me, rvr_vote_granted = granted\<rparr>, me)
     }"

definition raft_recv_requestvote_response ::
  "('l, 'u) raft_ctx \<Rightarrow> ('l, 'u) raft_server \<Rightarrow> raft_node_id_t option \<Rightarrow> raft_requestvote_resp \<Rightarrow>
   (int \<times> ('l, 'u) raft_server) option" where
  "raft_recv_requestvote_response c me node resp =
     (let me = (if rvr_prevote resp then count_stat requestvote_prevote_resp_received_update me
                else count_stat requestvote_resp_received_update me);
          me = (if \<not> rvr_vote_granted resp then
                  (if rvr_prevote resp then count_stat requestvote_prevote_req_failed_update me
                   else count_stat requestvote_req_failed_update me)
                else me)
      in if rvr_term resp > current_term me then
           (let (e, me) = raft_set_current_term c me (rvr_term resp)
            in if e \<noteq> 0 then Some (e, me)
               else do { me \<leftarrow> raft_become_follower c me; Some (0, me) })
         else if rvr_prevote resp \<and>
                 (\<not> raft_is_precandidate me \<or> rvr_request_term resp \<noteq> current_term me + 1)
         then Some (0, me)
         else if \<not> rvr_prevote resp \<and>
                 (\<not> raft_is_candidate me \<or> rvr_request_term resp \<noteq> current_term me)
         then Some (0, me)
         else if rvr_vote_granted resp then
           do {
             me \<leftarrow> (case node of
                      None \<Rightarrow> Some me
                    | Some i \<Rightarrow> upd_node i (raft_node_set_voted_for_me True) me);
             votes \<leftarrow> raft_get_nvotes_for_me me;
             if raft_votes_is_majority (raft_get_num_voting_nodes me) votes then
               (if raft_is_precandidate me then raft_become_candidate c me
                else raft_become_leader c me)
             else Some (0, me)
           }
         else Some (0, me))"

section \<open>Append-entries messages\<close>

text \<open>Lines 761 to 776: the follower's log does not match, so send from an earlier index.\<close>

definition raft_recv_ae_resp_fail ::
  "('l, 'u) raft_ctx \<Rightarrow> ('l, 'u) raft_server \<Rightarrow> raft_node \<Rightarrow> raft_appendentries_resp \<Rightarrow>
   (int \<times> ('l, 'u) raft_server) option" where
  "raft_recv_ae_resp_fail c me n resp =
     (if aer_current_idx resp < match_idx n then Some (0, me)
      else do {
        let next = min (aer_current_idx resp + 1) (raft_get_current_idx c me);
        assert_ok (0 < next);
        me \<leftarrow> upd_node (node_id n) (raft_node_set_next_idx next) me;
        (_, me) \<leftarrow> raft_send_appendentries c me (node_id n);
        Some (0, me)
      })"

text \<open>Lines 778 to 787: the target of a leadership transfer has caught up.\<close>

definition raft_recv_ae_resp_transfer ::
  "('l, 'u) raft_ctx \<Rightarrow> ('l, 'u) raft_server \<Rightarrow> raft_node \<Rightarrow> raft_appendentries_resp \<Rightarrow>
   ('l, 'u) raft_server option" where
  "raft_recv_ae_resp_transfer c me n resp =
     (if \<not> sent_timeout_now me \<and> node_transferring_leader_to me = node_id n \<and>
         raft_get_current_idx c me = aer_current_idx resp then
        do {
          f \<leftarrow> cb_send_timeoutnow c;
          let (_, u) = f me n;
          Some (me\<lparr>udata := u, sent_timeout_now := True\<rparr>)
        }
      else Some me)"

text \<open>Lines 789 to 802: a new non-voting node has caught up.\<close>

definition raft_recv_ae_resp_sufficient ::
  "('l, 'u) raft_ctx \<Rightarrow> ('l, 'u) raft_server \<Rightarrow> raft_node \<Rightarrow> raft_appendentries_resp \<Rightarrow>
   ('l, 'u) raft_server option" where
  "raft_recv_ae_resp_sufficient c me n resp =
     (if \<not> raft_node_is_voting n \<and> \<not> voting_cfg_change_log_idx me \<noteq> - 1 \<and>
         raft_get_current_idx c me \<le> aer_current_idx resp + 1 \<and>
         \<not> raft_node_is_voting_committed n \<and> raft_node_is_addition_committed n \<and>
         \<not> raft_node_has_sufficient_logs n then
        (case cb_node_has_sufficient_logs c of
           None \<Rightarrow> Some me
         | Some f \<Rightarrow>
             (let (e, u) = f me n;
                  me = me\<lparr>udata := u\<rparr>
              in if e = 0 then upd_node (node_id n) (raft_node_set_has_sufficient_logs True) me
                 else Some me))
      else Some me)"

text \<open>Lines 778 to 820: a successful response.\<close>

definition raft_recv_ae_resp_success ::
  "('l, 'u) raft_ctx \<Rightarrow> ('l, 'u) raft_server \<Rightarrow> raft_node \<Rightarrow> raft_appendentries_resp \<Rightarrow>
   (int \<times> ('l, 'u) raft_server) option" where
  "raft_recv_ae_resp_success c me n resp =
     do {
       me \<leftarrow> raft_recv_ae_resp_transfer c me n resp;
       me \<leftarrow> raft_recv_ae_resp_sufficient c me n resp;
       me \<leftarrow> (if aer_current_idx resp > match_idx n
              then upd_node (node_id n) (raft_node_set_match_idx (aer_current_idx resp)) me
              else Some me);
       assert_ok (aer_current_idx resp \<le> raft_get_current_idx c me);
       me \<leftarrow> (if aer_msg_id resp > match_msgid n
              then upd_node (node_id n) (raft_node_set_match_msgid (aer_msg_id resp)) me
              else Some me);
       assert_ok (aer_msg_id resp \<le> msg_id me);
       if auto_flush me then raft_flush c me 0 else Some (0, me)
     }"

definition raft_recv_appendentries_response ::
  "('l, 'u) raft_ctx \<Rightarrow> ('l, 'u) raft_server \<Rightarrow> raft_node_id_t option \<Rightarrow> raft_appendentries_resp \<Rightarrow>
   (int \<times> ('l, 'u) raft_server) option" where
  "raft_recv_appendentries_response c me node resp =
     (let me = count_stat appendentries_resp_received_update me;
          me = (if \<not> aer_success resp then count_stat appendentries_req_failed_update me else me)
      in case node of None \<Rightarrow> Some (0, me) | Some nid \<Rightarrow>
        if \<not> raft_is_leader me then Some (0, me)
        else do {
          n \<leftarrow> raft_get_node me nid;
          if aer_msg_id resp < match_msgid n \<or> aer_term resp < current_term me then Some (0, me)
          else if aer_term resp > current_term me then
            (let (e, me) = raft_set_current_term c me (aer_term resp)
             in if e \<noteq> 0 then Some (e, me)
                else do { me \<leftarrow> raft_become_follower c me; Some (0, me) })
          else if \<not> aer_success resp then raft_recv_ae_resp_fail c me n resp
          else raft_recv_ae_resp_success c me n resp
        })"

text \<open>
  The two loops over the entries of a request. The first skips the entries that the log already
  has and deletes from the first conflict on; \<open>idx\<close> is \<open>ety_index\<close> and \<open>cur\<close> is \<open>resp->current_idx\<close>.
  It returns the entries that are left for the second loop.
\<close>

fun raft_recv_ae_match ::
  "('l, 'u) raft_ctx \<Rightarrow> ('l, 'u) raft_server \<Rightarrow> raft_index_t \<Rightarrow> raft_index_t \<Rightarrow> raft_entry list \<Rightarrow>
   (int \<times> raft_index_t \<times> raft_entry list \<times> ('l, 'u) raft_server) option" where
  "raft_recv_ae_match c me idx cur [] = Some (0, cur, [], me)"
| "raft_recv_ae_match c me idx cur (ety # rest) =
     do {
       existing \<leftarrow> raft_get_entry_from_idx c me idx;
       (case existing of
          None \<Rightarrow> Some (0, cur, ety # rest, me)
        | Some ex \<Rightarrow>
            (if ety_term ety \<noteq> ety_term ex then
               (if idx \<le> commit_idx me then Some (RAFT_ERR_SHUTDOWN, cur, ety # rest, me)
                else do {
                  (e, me) \<leftarrow> raft_delete_entry_from_idx c me idx;
                  Some (e, cur, ety # rest, me)
                })
             else raft_recv_ae_match c me (idx + 1) idx rest))
     }"

fun raft_recv_ae_append ::
  "('l, 'u) raft_ctx \<Rightarrow> ('l, 'u) raft_server \<Rightarrow> raft_index_t \<Rightarrow> raft_index_t \<Rightarrow> raft_entry list \<Rightarrow>
   (int \<times> raft_index_t \<times> ('l, 'u) raft_server) option" where
  "raft_recv_ae_append c me idx cur [] = Some (0, cur, me)"
| "raft_recv_ae_append c me idx cur (ety # rest) =
     do {
       (e, me) \<leftarrow> raft_append_entry c me ety;
       if e \<noteq> 0 then Some (e, cur, me)
       else raft_recv_ae_append c me (idx + 1) idx rest
     }"

text \<open>Lines 858 to 900: whether the log has the entry before the new ones.\<close>

definition raft_recv_ae_prev ::
  "('l, 'u) raft_ctx \<Rightarrow> ('l, 'u) raft_server \<Rightarrow> raft_appendentries_req \<Rightarrow>
   (int \<times> bool \<times> ('l, 'u) raft_server) option" where
  "raft_recv_ae_prev c me req =
     (if ae_prev_log_idx req = snapshot_last_idx me then
        (if ae_prev_log_term req \<noteq> snapshot_last_term me then Some (RAFT_ERR_SHUTDOWN, False, me)
         else Some (0, True, me))
      else do {
        p \<leftarrow> raft_get_entry_from_idx c me (ae_prev_log_idx req);
        (case p of
           None \<Rightarrow> Some (0, False, me)
         | Some ety \<Rightarrow>
             (if ety_term ety \<noteq> ae_prev_log_term req then
                (if ae_prev_log_idx req \<le> commit_idx me then Some (RAFT_ERR_SHUTDOWN, False, me)
                 else do {
                   (e, me) \<leftarrow> raft_delete_entry_from_idx c me (ae_prev_log_idx req);
                   Some (e, False, me)
                 })
              else Some (0, True, me)))
      })"

text \<open>Lines 902 to 969: the accepted request.\<close>

definition raft_recv_ae_store ::
  "('l, 'u) raft_ctx \<Rightarrow> ('l, 'u) raft_server \<Rightarrow> raft_appendentries_req \<Rightarrow>
   (int \<times> raft_index_t \<times> ('l, 'u) raft_server) option" where
  "raft_recv_ae_store c me req =
     do {
       let me = (if msg_id me < ae_msg_id req then me\<lparr>msg_id := ae_msg_id req\<rparr> else me);
       (e, cur, rest, me) \<leftarrow>
         raft_recv_ae_match c me (ae_prev_log_idx req + 1) (ae_prev_log_idx req) (ae_entries req);
       if e \<noteq> 0 then Some (e, cur, me)
       else do {
         (e, cur, me) \<leftarrow>
           raft_recv_ae_append c me
             (ae_prev_log_idx req + 1 + (int (length (ae_entries req)) - int (length rest))) cur rest;
         if e \<noteq> 0 then Some (e, cur, me)
         else do {
           (e, me) \<leftarrow> (if ae_entries req \<noteq> [] then
                         do {
                           (e, l) \<leftarrow> li_sync (impl c) (log_st me);
                           Some (e, me\<lparr>log_st := l\<rparr>)
                         }
                       else Some (0, me));
           if e \<noteq> 0 then Some (e, cur, me)
           else if commit_idx me < ae_leader_commit req then
             do {
               let last_log_idx = max (raft_get_current_idx c me) 1;
               me \<leftarrow> raft_set_commit_idx c me (min last_log_idx (ae_leader_commit req));
               Some (0, cur, me)
             }
           else Some (0, cur, me)
         }
       }
     }"

definition raft_recv_appendentries_body ::
  "('l, 'u) raft_ctx \<Rightarrow> ('l, 'u) raft_server \<Rightarrow> raft_appendentries_req \<Rightarrow>
   (int \<times> raft_index_t option \<times> ('l, 'u) raft_server) option" where
  "raft_recv_appendentries_body c me req =
     (if ae_term req < current_term me then Some (0, None, me)
      else
        let (e, me) = (if ae_term req > current_term me
                       then raft_set_current_term c me (ae_term req) else (0, me))
        in if e \<noteq> 0 then Some (e, None, me)
           else do {
             me \<leftarrow> raft_accept_leader c me (ae_leader_id req);
             (e, ok, me) \<leftarrow> raft_recv_ae_prev c me req;
             if \<not> ok then Some (e, None, me)
             else do {
               (e, cur, me) \<leftarrow> raft_recv_ae_store c me req;
               Some (e, Some cur, me)
             }
           })"

text \<open>Shared by the two handlers that end with it: the leader is looked up again.\<close>

definition update_leader_msg_id ::
  "raft_node_id_t \<Rightarrow> raft_msg_id_t \<Rightarrow> ('l, 'u) raft_server \<Rightarrow> ('l, 'u) raft_server option" where
  "update_leader_msg_id leader mid me =
     (case raft_get_node me leader of
        None \<Rightarrow> Some me
      | Some _ \<Rightarrow> upd_node leader (raft_node_update_max_seen_msg_id mid) me)"

definition raft_recv_appendentries ::
  "('l, 'u) raft_ctx \<Rightarrow> ('l, 'u) raft_server \<Rightarrow> raft_appendentries_req \<Rightarrow>
   (int \<times> raft_appendentries_resp \<times> ('l, 'u) raft_server) option" where
  "raft_recv_appendentries c me req =
     do {
       let me = count_stat appendentries_req_received_update me;
       let me = (if ae_entries req \<noteq> [] then count_stat appendentries_req_with_entry_update me else me);
       (e, cur, me) \<leftarrow> raft_recv_appendentries_body c me req;
       me \<leftarrow> update_leader_msg_id (ae_leader_id req) (ae_msg_id req) me;
       Some (e, \<lparr>aer_msg_id = ae_msg_id req, aer_term = current_term me,
                 aer_success = (cur \<noteq> None),
                 aer_current_idx = (case cur of Some i \<Rightarrow> i | None \<Rightarrow> raft_get_current_idx c me)\<rparr>, me)
     }"

section \<open>Client requests\<close>

text \<open>The response is filled in unless the caller passes NULL; \<open>None\<close> when it is not.\<close>

definition raft_recv_entry ::
  "('l, 'u) raft_ctx \<Rightarrow> ('l, 'u) raft_server \<Rightarrow> raft_entry \<Rightarrow>
   (int \<times> raft_entry_resp option \<times> ('l, 'u) raft_server) option" where
  "raft_recv_entry c me ety =
     (if \<not> raft_is_leader me then Some (RAFT_ERR_NOT_LEADER, None, me)
      else if raft_entry_is_voting_cfg_change ety \<and> voting_cfg_change_log_idx me \<noteq> - 1 then
        Some (if current_term me = last_applied_term me then RAFT_ERR_ONE_VOTING_CHANGE_ONLY
              else RAFT_ERR_TRYAGAIN, None, me)
      else if raft_entry_is_voting_cfg_change ety \<and> \<not> raft_is_apply_allowed me then
        Some (RAFT_ERR_SNAPSHOT_IN_PROGRESS, None, me)
      else if node_transferring_leader_to me \<noteq> RAFT_NODE_ID_NONE then
        Some (RAFT_ERR_LEADER_TRANSFER_IN_PROGRESS, None, me)
      else do {
        let ety = ety\<lparr>ety_term := current_term me\<rparr>;
        (e, me) \<leftarrow> raft_append_entry c me ety;
        if e \<noteq> 0 then Some (e, None, me)
        else do {
          let r = Some \<lparr>er_id = ety_id ety, er_term = current_term me,
                        er_idx = raft_get_current_idx c me\<rparr>;
          if auto_flush me then
            do {
              (e, l) \<leftarrow> li_sync (impl c) (log_st me);
              let me = me\<lparr>log_st := l\<rparr>;
              if e \<noteq> 0 then Some (e, r, me)
              else do {
                (e, me) \<leftarrow> raft_flush c me (raft_get_current_idx c me);
                Some (e, r, me)
              }
            }
          else Some (0, r, me)
        }
      })"

definition raft_msg_entry_response_committed ::
  "('l, 'u) raft_ctx \<Rightarrow> ('l, 'u) raft_server \<Rightarrow> raft_entry_resp \<Rightarrow> int option" where
  "raft_msg_entry_response_committed c me r =
     do {
       p \<leftarrow> raft_get_entry_from_idx c me (er_idx r);
       Some (case p of
          None \<Rightarrow> 0
        | Some ety \<Rightarrow> (if er_term r \<noteq> ety_term ety then - 1
                      else if er_idx r \<le> commit_idx me then 1 else 0))
     }"

section \<open>Snapshots\<close>

text \<open>
  The part of \<open>raft_recv_snapshot\<close> up to the label \<open>out\<close>: the error code, the three fields of the
  response that depend on it (\<open>last_chunk\<close>, \<open>offset\<close>, \<open>success\<close>) and the server.
\<close>

definition raft_recv_snapshot_body ::
  "('l, 'u) raft_ctx \<Rightarrow> ('l, 'u) raft_server \<Rightarrow> raft_snapshot_req \<Rightarrow>
   (int \<times> bool \<times> raft_size_t \<times> bool \<times> ('l, 'u) raft_server) option" where
  "raft_recv_snapshot_body c me req =
     (let chunk = sn_chunk req; lc = ch_last_chunk chunk; end_offset = ch_len chunk + ch_offset chunk
      in if sn_term req < current_term me then Some (0, lc, 0, False, me)
         else
           let (e, me) = (if sn_term req > current_term me
                          then raft_set_current_term c me (sn_term req) else (0, me))
           in if e \<noteq> 0 then Some (e, lc, 0, False, me)
              else do {
                me \<leftarrow> raft_accept_leader c me (sn_leader_id req);
                if sn_snapshot_index req \<le> raft_get_current_idx c me
                then Some (0, True, end_offset, True, me)
                else do {
                  (e, me) \<leftarrow> (if snapshot_recv_idx me \<noteq> sn_snapshot_index req
                              then raft_clear_incoming_snapshot c me (sn_snapshot_index req)
                              else Some (0, me));
                  if e \<noteq> 0 then Some (e, lc, 0, False, me)
                  else if snapshot_recv_offset me \<noteq> ch_offset chunk
                  then Some (0, lc, snapshot_recv_offset me, False, me)
                  else do {
                    let offset = snapshot_recv_offset me;
                    store \<leftarrow> cb_store_snapshot_chunk c;
                    let (e, u) = store me (sn_snapshot_index req) (ch_offset chunk) chunk;
                    let me = me\<lparr>udata := u\<rparr>;
                    if e \<noteq> 0 then Some (e, lc, offset, False, me)
                    else do {
                      (e, me) \<leftarrow> (if lc then
                                    do {
                                      load \<leftarrow> cb_load_snapshot c;
                                      Some (load me (sn_snapshot_term req) (sn_snapshot_index req))
                                    }
                                  else Some (0, me));
                      if e \<noteq> 0 then Some (e, lc, offset, False, me)
                      else Some (0, lc, end_offset, True,
                                 me\<lparr>snapshot_recv_offset := ch_offset chunk + ch_len chunk\<rparr>)
                    }
                  }
                }
              })"

definition raft_recv_snapshot ::
  "('l, 'u) raft_ctx \<Rightarrow> ('l, 'u) raft_server \<Rightarrow> raft_snapshot_req \<Rightarrow>
   (int \<times> raft_snapshot_resp \<times> ('l, 'u) raft_server) option" where
  "raft_recv_snapshot c me req =
     do {
       let me = count_stat snapshot_req_received_update me;
       (e, lc, offset, success, me) \<leftarrow> raft_recv_snapshot_body c me req;
       let t = current_term me;
       me \<leftarrow> update_leader_msg_id (sn_leader_id req) (sn_msg_id req) me;
       Some (e, \<lparr>snr_msg_id = sn_msg_id req, snr_snapshot_index = sn_snapshot_index req, snr_term = t,
                 snr_offset = offset, snr_success = success, snr_last_chunk = lc\<rparr>, me)
     }"

definition raft_recv_snapshot_response ::
  "('l, 'u) raft_ctx \<Rightarrow> ('l, 'u) raft_server \<Rightarrow> raft_node_id_t option \<Rightarrow> raft_snapshot_resp \<Rightarrow>
   (int \<times> ('l, 'u) raft_server) option" where
  "raft_recv_snapshot_response c me node resp =
     (let me = count_stat snapshot_resp_received_update me;
          me = (if \<not> snr_success resp then count_stat snapshot_req_failed_update me else me)
      in case node of None \<Rightarrow> Some (0, me) | Some nid \<Rightarrow>
        if \<not> raft_is_leader me then Some (0, me)
        else do {
          n \<leftarrow> raft_get_node me nid;
          if snr_term resp < current_term me \<or> snr_msg_id resp < match_msgid n then Some (0, me)
          else if snr_term resp > current_term me then
            (let (e, me) = raft_set_current_term c me (snr_term resp)
             in if e \<noteq> 0 then Some (e, me)
                else do { me \<leftarrow> raft_become_follower c me; Some (0, me) })
          else do {
            me \<leftarrow> upd_node nid (raft_node_set_match_msgid (snr_msg_id resp)) me;
            me \<leftarrow> (if snr_snapshot_index resp \<noteq> snapshot_last_idx me then Some me
                   else do {
                     me \<leftarrow> (if \<not> snr_success resp
                            then upd_node nid (raft_node_set_snapshot_offset (snr_offset resp)) me
                            else Some me);
                     if snr_success resp \<and> snr_last_chunk resp then
                       do {
                         me \<leftarrow> upd_node nid (raft_node_set_snapshot_offset 0) me;
                         upd_node nid
                           (raft_node_set_next_idx (max (snapshot_last_idx me + 1) (next_idx n))) me
                       }
                     else Some me
                   });
            if auto_flush me then raft_flush c me 0 else Some (0, me)
          }
        })"

definition raft_get_first_entry_idx ::
  "('l, 'u) raft_ctx \<Rightarrow> ('l, 'u) raft_server \<Rightarrow> raft_index_t option" where
  "raft_get_first_entry_idx c me =
     do {
       assert_ok (0 < raft_get_current_idx c me);
       Some (li_first_idx (impl c) (log_st me))
     }"

definition raft_get_num_snapshottable_logs ::
  "('l, 'u) raft_ctx \<Rightarrow> ('l, 'u) raft_server \<Rightarrow> raft_index_t" where
  "raft_get_num_snapshottable_logs c me =
     (if raft_get_log_count c me \<le> 1 then 0
      else commit_idx me - li_first_idx (impl c) (log_st me) + 1)"

text \<open>The loop that both ways of installing a snapshot end with.\<close>

definition adjust_node_flags :: "raft_node \<Rightarrow> raft_node" where
  "adjust_node_flags n =
     (let voting = raft_node_is_voting n
      in raft_node_set_addition_committed True
           (raft_node_set_voting_committed voting
             (raft_node_set_has_sufficient_logs voting n)))"

definition raft_restore_snapshot ::
  "('l, 'u) raft_server \<Rightarrow> raft_term_t \<Rightarrow> raft_index_t \<Rightarrow> int \<times> ('l, 'u) raft_server" where
  "raft_restore_snapshot me last_included_term last_included_index =
     (if last_included_term < 0 \<or> last_included_index < 0 \<or> current_term me \<noteq> 0 \<or> commit_idx me \<noteq> 0 \<or>
         snapshot_last_term me \<noteq> 0 \<or> snapshot_last_idx me \<noteq> 0 \<or> last_applied_term me \<noteq> 0 \<or>
         last_applied_idx me \<noteq> 0
      then (RAFT_ERR_MISUSE, me)
      else (0, me\<lparr>current_term := last_included_term, commit_idx := last_included_index,
                  last_applied_term := last_included_term, last_applied_idx := last_included_index,
                  snapshot_last_term := last_included_term, snapshot_last_idx := last_included_index,
                  nodes := map adjust_node_flags (nodes me)\<rparr>))"

definition raft_begin_snapshot ::
  "('l, 'u) raft_ctx \<Rightarrow> ('l, 'u) raft_server \<Rightarrow> (int \<times> ('l, 'u) raft_server) option" where
  "raft_begin_snapshot c me =
     (if raft_get_num_snapshottable_logs c me = 0 then Some (- 1, me)
      else do {
        (e, me) \<leftarrow> raft_apply_all c me;
        if e \<noteq> 0 then Some (e, me)
        else do {
          assert_ok (commit_idx me = last_applied_idx me);
          Some (0, me\<lparr>snapshot_in_progress := True, next_snapshot_last_idx := last_applied_idx me,
                      next_snapshot_last_term := last_applied_term me\<rparr>)
        }
      })"

definition raft_cancel_snapshot :: "('l, 'u) raft_server \<Rightarrow> int \<times> ('l, 'u) raft_server" where
  "raft_cancel_snapshot me = (0, me\<lparr>snapshot_in_progress := False\<rparr>)"

definition raft_end_snapshot ::
  "('l, 'u) raft_ctx \<Rightarrow> ('l, 'u) raft_server \<Rightarrow> (int \<times> ('l, 'u) raft_server) option" where
  "raft_end_snapshot c me =
     (if \<not> snapshot_in_progress me then Some (- 1, me)
      else do {
        let me = me\<lparr>snapshot_last_idx := next_snapshot_last_idx me,
                    snapshot_last_term := next_snapshot_last_term me\<rparr>;
        (e, l) \<leftarrow> li_poll (impl c) (log_st me) (snapshot_last_idx me + 1);
        let me = me\<lparr>log_st := l\<rparr>;
        if e \<noteq> 0 then Some (e, me)
        else do {
          (e, l) \<leftarrow> li_sync (impl c) (log_st me);
          let me = me\<lparr>log_st := l\<rparr>;
          if e \<noteq> 0 then Some (e, me)
          else do {
            let me = count_stat snapshots_created_update (me\<lparr>snapshot_in_progress := False\<rparr>);
            if \<not> raft_is_leader me then Some (0, me)
            else do {
              me \<leftarrow> for_nodes (\<lambda>me i. do {
                  n \<leftarrow> raft_get_node me i;
                  if my_node me = Some i \<or> \<not> raft_node_is_active n then Some me
                  else do {
                    me \<leftarrow> upd_node i (raft_node_set_snapshot_offset 0) me;
                    if snapshot_last_idx me > 0 \<and> next_idx n \<le> snapshot_last_idx me
                    then do { (_, me) \<leftarrow> raft_send_snapshot c me i; Some me }
                    else Some me
                  }
                }) (node_ids me) me;
              Some (0, me)
            }
          }
        }
      })"

text \<open>Lines 1926 to 1950: the log, the indexes and the node list are replaced.\<close>

definition raft_load_install ::
  "('l, 'u) raft_ctx \<Rightarrow> ('l, 'u) raft_server \<Rightarrow> raft_term_t \<Rightarrow> raft_index_t \<Rightarrow>
   ('l, 'u) raft_server option" where
  "raft_load_install c me last_included_term last_included_index =
     do {
       l \<leftarrow> li_reset (impl c) (log_st me) (last_included_index + 1) last_included_term;
       let me = me\<lparr>log_st := l\<rparr>;
       me \<leftarrow> (if last_included_index > commit_idx me
              then raft_set_commit_idx c me last_included_index else Some me);
       let me = me\<lparr>last_applied_term := last_included_term,
                   last_applied_idx := last_included_index,
                   next_snapshot_last_term := last_included_term,
                   next_snapshot_last_idx := last_included_index\<rparr>;
       self \<leftarrow> deref_my_node me;
       assert_ok (c_realloc c 8);
       Some (me\<lparr>nodes := [raft_node_clear_flags self]\<rparr>)
     }"

definition raft_begin_load_snapshot ::
  "('l, 'u) raft_ctx \<Rightarrow> ('l, 'u) raft_server \<Rightarrow> raft_term_t \<Rightarrow> raft_index_t \<Rightarrow>
   (int \<times> ('l, 'u) raft_server) option" where
  "raft_begin_load_snapshot c me last_included_term last_included_index =
     (if last_included_term \<le> 0 \<or> last_included_index \<le> 0 \<or>
         last_included_index < last_applied_idx me \<or>
         last_included_index < raft_get_current_idx c me
      then Some (RAFT_ERR_MISUSE, me)
      else if last_included_index \<le> snapshot_last_idx me
      then Some (RAFT_ERR_SNAPSHOT_ALREADY_LOADED, me)
      else
        let (e, me) = (if last_included_term > current_term me
                       then raft_set_current_term c me last_included_term else (0, me))
        in if e \<noteq> 0 then Some (e, me)
           else do {
             me \<leftarrow> raft_load_install c me last_included_term last_included_index;
             Some (0, me)
           })"

definition raft_end_load_snapshot :: "('l, 'u) raft_server \<Rightarrow> int \<times> ('l, 'u) raft_server" where
  "raft_end_load_snapshot me =
     (0, count_stat snapshots_received_update
           (me\<lparr>snapshot_last_idx := next_snapshot_last_idx me,
               snapshot_last_term := next_snapshot_last_term me,
               nodes := map adjust_node_flags (nodes me)\<rparr>))"

section \<open>Leadership transfer, configuration and restart\<close>

text \<open>The search for the most up-to-date node: the target so far and its match index.\<close>

fun raft_transfer_target ::
  "raft_node_id_t option \<Rightarrow> raft_node option \<Rightarrow> raft_index_t \<Rightarrow> raft_node list \<Rightarrow> raft_node option" where
  "raft_transfer_target self target max_idx [] = target"
| "raft_transfer_target self target max_idx (n # ns) =
     (if self \<noteq> Some (node_id n) \<and> match_idx n > max_idx
      then raft_transfer_target self (Some n) (match_idx n) ns
      else raft_transfer_target self target max_idx ns)"

definition raft_transfer_leader ::
  "('l, 'u) raft_ctx \<Rightarrow> ('l, 'u) raft_server \<Rightarrow> raft_node_id_t \<Rightarrow> int \<Rightarrow> (int \<times> ('l, 'u) raft_server) option" where
  "raft_transfer_leader c me nid timeout =
     (if \<not> raft_is_leader me then Some (RAFT_ERR_NOT_LEADER, me)
      else if node_transferring_leader_to me \<noteq> RAFT_NODE_ID_NONE
      then Some (RAFT_ERR_LEADER_TRANSFER_IN_PROGRESS, me)
      else
        case (if nid \<noteq> RAFT_NODE_ID_NONE then raft_get_node me nid
              else raft_transfer_target (my_node me) None 0 (nodes me)) of
          None \<Rightarrow> Some (RAFT_ERR_INVALID_NODEID, me)
        | Some target \<Rightarrow>
            (if my_node me = Some (node_id target) then Some (RAFT_ERR_INVALID_NODEID, me)
             else do {
               me \<leftarrow> (if raft_get_current_idx c me = match_idx target then
                       do {
                         f \<leftarrow> cb_send_timeoutnow c;
                         let (_, u) = f me target;
                         Some (me\<lparr>udata := u, sent_timeout_now := True\<rparr>)
                       }
                     else Some me);
               Some (0, me\<lparr>node_transferring_leader_to := node_id target,
                           transfer_leader_time := (if timeout \<noteq> 0 then timeout else election_timeout me)\<rparr>)
             }))"

text \<open>
  \<open>raft_config\<close> with its variable argument: the value to set, or the value read (\<open>None\<close> when
  nothing is read). A cast to \<open>int\<close> keeps the low 32 bits.
\<close>

definition cast_int32 :: "int \<Rightarrow> int" where
  "cast_int32 i = sint (word_of_int i :: 32 word)"

definition raft_config ::
  "('l, 'u) raft_ctx \<Rightarrow> ('l, 'u) raft_server \<Rightarrow> bool \<Rightarrow> raft_config_e \<Rightarrow> int \<Rightarrow>
   (int \<times> int option \<times> ('l, 'u) raft_server) option" where
  "raft_config c me do_set cfg v =
     (case cfg of
        RAFT_CONFIG_ELECTION_TIMEOUT \<Rightarrow>
          (if do_set then
             do {
               let me = me\<lparr>election_timeout := v\<rparr>;
               let me = raft_update_quorum_meta me (last_acked_msg_id me);
               me \<leftarrow> raft_randomize_election_timeout c me;
               Some (0, None, me)
             }
           else Some (0, Some (cast_int32 (election_timeout me)), me))
      | RAFT_CONFIG_REQUEST_TIMEOUT \<Rightarrow>
          (if do_set then Some (0, None, me\<lparr>request_timeout := v\<rparr>)
           else Some (0, Some (cast_int32 (request_timeout me)), me))
      | RAFT_CONFIG_AUTO_FLUSH \<Rightarrow>
          (if do_set then Some (0, None, me\<lparr>auto_flush := (v \<noteq> 0)\<rparr>)
           else Some (0, Some (of_bool (auto_flush me)), me))
      | RAFT_CONFIG_LOG_ENABLED \<Rightarrow>
          (if do_set then Some (0, None, me\<lparr>log_enabled := (v \<noteq> 0)\<rparr>)
           else Some (0, Some (of_bool (log_enabled me)), me))
      | RAFT_CONFIG_NONBLOCKING_APPLY \<Rightarrow>
          (if do_set then Some (0, None, me\<lparr>nonblocking_apply := (v \<noteq> 0)\<rparr>)
           else Some (0, Some (of_bool (nonblocking_apply me)), me))
      | RAFT_CONFIG_DISABLE_APPLY \<Rightarrow>
          (if do_set then Some (0, None, me\<lparr>disable_apply := (v \<noteq> 0)\<rparr>)
           else Some (0, Some (of_bool (disable_apply me)), me))
      | RAFT_CONFIG_UNKNOWN _ \<Rightarrow> Some (RAFT_ERR_NOTFOUND, None, me))"

partial_function (option) raft_restore_log_loop ::
  "('l, 'u) raft_ctx \<Rightarrow> ('l, 'u) raft_server \<Rightarrow> raft_index_t \<Rightarrow> (int \<times> ('l, 'u) raft_server) option" where
  "raft_restore_log_loop c me i =
     do {
       p \<leftarrow> li_get (impl c) (log_st me) i;
       (case p of
          None \<Rightarrow> Some (0, me)
        | Some ety \<Rightarrow>
            do {
              let me = (if raft_entry_is_voting_cfg_change ety
                        then me\<lparr>voting_cfg_change_log_idx := i\<rparr> else me);
              me \<leftarrow> (if raft_entry_is_cfg_change ety
                     then raft_handle_append_cfg_change c me ety i else Some me);
              raft_restore_log_loop c me (i + 1)
            })
     }"

definition raft_restore_log ::
  "('l, 'u) raft_ctx \<Rightarrow> ('l, 'u) raft_server \<Rightarrow> (int \<times> ('l, 'u) raft_server) option" where
  "raft_restore_log c me =
     (if snapshot_last_idx me \<noteq> last_applied_idx me then Some (RAFT_ERR_MISUSE, me)
      else raft_restore_log_loop c me (snapshot_last_idx me + 1))"

text \<open>The equations of the loops, for evaluation.\<close>

declare raft_send_snapshot_loop.simps [code]
declare raft_send_appendentries_loop.simps [code]
declare raft_apply_all_loop.simps [code]
declare raft_drop_reads.simps [code]
declare raft_serve_reads.simps [code]
declare raft_restore_log_loop.simps [code]

end
