(* ===== verification/Raft_Quorum.thy ===== *)
theory Raft_Quorum
  imports Raft_Server_Model
begin

text \<open>
  Majorities. The commit index and the read index are elements in the middle of a descending sort;
  \<open>more_than_half\<close> says what such an element means. Votes are counted in another way
  (\<open>raft_get_nvotes_for_me\<close> and \<open>raft_votes_is_majority\<close>), shown here to be the same notion.
\<close>

section \<open>The median of a descending sort\<close>

lemma length_filter_mono:
  "(\<And>x. x \<in> set xs \<Longrightarrow> P x \<Longrightarrow> Q x) \<Longrightarrow> length (filter P xs) \<le> length (filter Q xs)"
  by (induction xs) auto

lemma length_qsort_desc [simp]: "length (qsort_desc xs) = length xs"
  by (simp add: qsort_desc_def)

lemma qsort_desc_Nil [simp]: "qsort_desc xs = [] \<longleftrightarrow> xs = []"
  by (metis length_0_conv length_qsort_desc)

lemma qsort_desc_nth_mono:
  "i \<le> j \<Longrightarrow> j < length xs \<Longrightarrow> qsort_desc xs ! j \<le> qsort_desc xs ! i"
  by (simp add: qsort_desc_def rev_nth sorted_nth_mono)

lemma length_filter_qsort_desc: "length (filter P (qsort_desc xs)) = length (filter P xs)"
proof -
  have "mset (filter P (qsort_desc xs)) = mset (filter P xs)"
    by (simp add: qsort_desc_def)
  then show ?thesis by (rule mset_eq_length)
qed

lemma qsort_desc_count_ge:
  assumes "k < length xs"
  shows "k < length (filter (\<lambda>x. qsort_desc xs ! k \<le> x) xs)"
proof -
  let ?ys = "qsort_desc xs" and ?P = "\<lambda>x. qsort_desc xs ! k \<le> x"
  have "filter ?P (take (Suc k) ?ys) = take (Suc k) ?ys"
    using assms qsort_desc_nth_mono[of _ k xs] by (auto simp: in_set_conv_nth intro!: filter_True)
  then have "Suc k = length (filter ?P (take (Suc k) ?ys))"
    using assms by simp
  also have "\<dots> \<le> length (filter ?P (take (Suc k) ?ys @ drop (Suc k) ?ys))"
    by (simp del: append_take_drop_id)
  finally show ?thesis
    by (simp add: length_filter_qsort_desc)
qed

lemma qsort_desc_count_gt:
  assumes "k < length xs"
  shows "length (filter (\<lambda>x. qsort_desc xs ! k < x) xs) \<le> k"
proof -
  let ?ys = "qsort_desc xs" and ?P = "\<lambda>x. qsort_desc xs ! k < x"
  have "filter ?P (drop k ?ys) = []"
    using qsort_desc_nth_mono[of k _ xs] by (auto simp: in_set_conv_nth filter_empty_conv not_less)
  then have "length (filter ?P (take k ?ys @ drop k ?ys)) = length (filter ?P (take k ?ys))"
    by (simp del: append_take_drop_id)
  also have "\<dots> \<le> k"
    by (rule order.trans[OF length_filter_le]) simp
  finally show ?thesis
    by (simp add: length_filter_qsort_desc)
qed

text \<open>\<open>more_than_half p xs\<close>: strictly more than half of the elements satisfy \<open>p\<close>.\<close>

definition more_than_half :: "('a \<Rightarrow> bool) \<Rightarrow> 'a list \<Rightarrow> bool" where
  "more_than_half p xs \<longleftrightarrow> length xs < 2 * length (filter p xs)"

lemma median_more_than_half:
  fixes xs :: "'a :: linorder list"
  assumes "xs \<noteq> []" and "v = qsort_desc xs ! (length xs div 2)"
  shows "more_than_half (\<lambda>x. w \<le> x) xs \<longleftrightarrow> w \<le> v"
proof
  have k: "length xs div 2 < length xs" using assms(1) by (simp add: length_greater_0_conv)
  show "more_than_half (\<lambda>x. w \<le> x) xs" if "w \<le> v"
  proof -
    have "length (filter (\<lambda>x. v \<le> x) xs) \<le> length (filter (\<lambda>x. w \<le> x) xs)"
      using that by (intro length_filter_mono) (auto intro: order.trans)
    with qsort_desc_count_ge[OF k] assms(2) show ?thesis by (simp add: more_than_half_def)
  qed
  show "w \<le> v" if "more_than_half (\<lambda>x. w \<le> x) xs"
  proof (rule ccontr)
    assume "\<not> w \<le> v"
    then have "length (filter (\<lambda>x. w \<le> x) xs) \<le> length (filter (\<lambda>x. v < x) xs)"
      by (intro length_filter_mono) auto
    with qsort_desc_count_gt[OF k] assms(2) that show False by (simp add: more_than_half_def)
  qed
qed

lemma more_than_half_map: "more_than_half p (map f xs) = more_than_half (p \<circ> f) xs"
  by (simp add: more_than_half_def filter_map)

lemma more_than_half_intersect:
  assumes "more_than_half p xs" "more_than_half q xs"
  shows "\<exists>x \<in> set xs. p x \<and> q x"
proof (rule ccontr)
  assume "\<not> ?thesis"
  then have "length (filter p xs) \<le> length (filter (\<lambda>x. \<not> q x) xs)"
    by (induction xs) auto
  moreover have "length (filter q xs) + length (filter (\<lambda>x. \<not> q x) xs) = length xs"
    by (rule sum_length_filter_compl)
  ultimately show False using assms by (simp add: more_than_half_def)
qed

section \<open>Committing\<close>

abbreviation voters :: "('l, 'u) raft_server \<Rightarrow> raft_node list" where
  "voters me \<equiv> filter raft_node_is_voting (nodes me)"

lemma arr_get_median:
  assumes "xs \<noteq> []"
  shows "arr_get (xs @ ys) (int (length xs) div 2) = Some (xs ! (length xs div 2))"
proof -
  have "int (length xs) div 2 = int (length xs div 2)" by (simp add: zdiv_int)
  moreover have "length xs div 2 < length xs" using assms by (cases xs) auto
  ultimately show ?thesis by (simp add: arr_get_def nth_append)
qed

text \<open>
  C6. Commit rule. When a leader with at least one voting node updates its commit index it changes
  nothing else, never moves it back, and if it moves it forward then to the largest index that is
  stored on more than half of the voting nodes, which must hold an entry of the current term.
\<close>

theorem update_commit_idx_quorum:
  assumes run: "raft_update_commit_idx c me = Some me'" and "voters me \<noteq> []"
  shows "me' = me\<lparr>commit_idx := commit_idx me'\<rparr> \<and> commit_idx me \<le> commit_idx me' \<and>
    (commit_idx me < commit_idx me' \<longrightarrow>
       (\<forall>k. more_than_half (\<lambda>n. k \<le> match_idx n) (voters me) \<longleftrightarrow> k \<le> commit_idx me') \<and>
       (\<exists>ety. raft_get_entry_from_idx c me (commit_idx me') = Some (Some ety) \<and>
              ety_term ety = current_term me))"
proof -
  let ?ms = "map match_idx (voters me)"
  define v where "v = qsort_desc ?ms ! (length ?ms div 2)"
  have ne: "?ms \<noteq> []" using assms(2) by simp
  have half: "more_than_half (\<lambda>n. k \<le> match_idx n) (voters me) \<longleftrightarrow> k \<le> v" for k
    using median_more_than_half[OF ne v_def, of k] by (simp add: more_than_half_map o_def)
  have "arr_get (qsort_desc ?ms @ replicate (length (nodes me) - length (voters me)) 0)
      (int (length (voters me)) div 2) = Some v"
    using arr_get_median[of "qsort_desc ?ms"] ne by (simp add: v_def)
  with run have "me' = me \<or> commit_idx me < v \<and> me' = me\<lparr>commit_idx := v\<rparr> \<and>
      (\<exists>ety. raft_get_entry_from_idx c me v = Some (Some ety) \<and> ety_term ety = current_term me)"
    unfolding raft_update_commit_idx_def raft_set_commit_idx_def Let_def by (elim do_elims) auto
  then show ?thesis using half by (elim disjE conjE) simp_all
qed

text \<open>
  C9. Read index. The message identifier that serves reads and the quorum check is the largest one
  that more than half of the voting nodes have acknowledged, counting this server's own latest.
\<close>

theorem quorum_msg_id_majority:
  assumes "quorum_msg_id me = Some v"
  shows "more_than_half
      (\<lambda>n. k \<le> (if my_node me = Some (node_id n) then msg_id me else match_msgid n)) (voters me) \<longleftrightarrow> k \<le> v"
proof -
  let ?f = "\<lambda>n. if my_node me = Some (node_id n) then msg_id me else match_msgid n"
  have ne: "map ?f (voters me) \<noteq> []"
    using assms by (auto simp: quorum_msg_id_def raft_get_num_voting_nodes_def arr_get_def qsort_desc_def split: if_splits)
  have "v = qsort_desc (map ?f (voters me)) ! (length (map ?f (voters me)) div 2)"
    using assms arr_get_median[of "qsort_desc (map ?f (voters me))" "[]"] ne
    by (auto simp: quorum_msg_id_def raft_get_num_voting_nodes_def Let_def)
  from median_more_than_half[OF ne this, of k] show ?thesis
    by (simp add: more_than_half_map o_def)
qed

section \<open>Elections\<close>

definition nodes_ok :: "raft_node list \<Rightarrow> bool" where
  "nodes_ok ns \<longleftrightarrow> distinct (map node_id ns) \<and> RAFT_NODE_ID_NONE \<notin> set (map node_id ns) \<and>
     (\<forall>n \<in> set ns. 1 \<le> next_idx n)"

lemma upd_node_frame:
  "upd_node i f me = Some me' \<Longrightarrow> commit_idx me' = commit_idx me \<and> log_st me' = log_st me \<and>
   state me' = state me \<and> my_node me' = my_node me"
  by (auto simp: upd_node_def split: option.splits)

lemma for_nodes_inv:
  "for_nodes f is x = Some y \<Longrightarrow> P x \<Longrightarrow> (\<And>i x y. f x i = Some y \<Longrightarrow> P x \<Longrightarrow> P y) \<Longrightarrow> P y"
  by (induction "is" arbitrary: x) (auto simp: option_do)

lemma raft_become_follower_frame:
  "raft_become_follower c me = Some me' \<Longrightarrow>
   current_term me' = current_term me \<and> voted_for me' = voted_for me \<and> log_st me' = log_st me \<and>
   commit_idx me' = commit_idx me \<and> nodes me' = nodes me \<and> state me' = RAFT_STATE_FOLLOWER"
  by (auto simp: raft_become_follower_def raft_set_state_def raft_randomize_election_timeout_def
      raft_clear_incoming_snapshot_def call_notify_state_def Let_def split: option.splits elim!: do_elims)

lemma raft_set_current_term_frame:
  "raft_set_current_term c me t = (e, me') \<Longrightarrow>
   log_st me' = log_st me \<and> commit_idx me' = commit_idx me \<and> last_applied_idx me' = last_applied_idx me \<and>
   nodes me' = nodes me \<and> my_node me' = my_node me \<and> state me' = state me \<and>
   snapshot_last_idx me' = snapshot_last_idx me \<and> (e = 0 \<longrightarrow> t \<le> current_term me')"
  by (auto simp: raft_set_current_term_def call_persist_metadata_def split: option.splits
      elim!: do_elims)

lemma raft_send_requestvote_frame:
  "raft_send_requestvote c me i = Some (e, me') \<Longrightarrow>
   state me' = state me \<and> current_term me' = current_term me \<and> voted_for me' = voted_for me \<and>
   nodes me' = nodes me \<and> my_node me' = my_node me \<and> leader_id me' = leader_id me"
  by (auto simp: raft_send_requestvote_def count_stat_def Let_def elim!: do_elims split: if_splits)

lemma request_votes_frame:
  assumes "request_votes c me = Some me'"
  shows "state me' = state me \<and> current_term me' = current_term me \<and> voted_for me' = voted_for me \<and>
   nodes me' = nodes me \<and> my_node me' = my_node me \<and> leader_id me' = leader_id me"
  using assms unfolding request_votes_def
  by (rule for_nodes_inv) (auto elim!: do_elims dest!: raft_send_requestvote_frame)

lemma call_notify_state_frame [simp]:
  "state (call_notify_state c me st) = state me" "current_term (call_notify_state c me st) = current_term me"
  "voted_for (call_notify_state c me st) = voted_for me" "nodes (call_notify_state c me st) = nodes me"
  by (simp_all add: call_notify_state_def split: option.split)

lemma raft_become_candidate_state:
  "raft_become_candidate c me = Some (e, me') \<Longrightarrow> state me' = state me \<or> raft_is_candidate me'"
  by (auto simp: raft_become_candidate_def raft_set_state_def raft_vote_def raft_vote_for_nodeid_def call_persist_metadata_def
      clear_votes_def Let_def elim!: do_elims
      dest!: request_votes_frame raft_set_current_term_frame)

lemma raft_get_node_filter:
  "distinct (map node_id ns) \<Longrightarrow> find (\<lambda>n. i = node_id n) ns = Some n \<Longrightarrow>
   filter (\<lambda>m. node_id m = i \<and> P m) ns = (if P n then [n] else [])"
proof (induction ns)
  case (Cons a ns)
  then show ?case
    by (auto simp: filter_empty_conv find_None_iff split: if_splits) (auto simp: image_iff)
qed simp

lemma length_filter_disj:
  "length (filter (\<lambda>x. P x \<or> Q x) xs) = length (filter P xs) + length (filter (\<lambda>x. \<not> P x \<and> Q x) xs)"
  by (induction xs) auto

abbreviation votes_for_me :: "('l, 'u) raft_server \<Rightarrow> raft_node \<Rightarrow> bool" where
  "votes_for_me me n \<equiv> my_node me = Some (node_id n) \<or> raft_node_has_vote_for_me n"

lemma raft_get_nvotes_for_me_eq:
  assumes "raft_get_nvotes_for_me me = Some v" and "nodes_ok (nodes me)"
  shows "v = int (length (filter (votes_for_me me) (voters me)))"
proof -
  obtain i n where n: "my_node me = Some i" "find (\<lambda>n. i = node_id n) (nodes me) = Some n"
    and v: "v = int (length (filter (\<lambda>n. my_node me \<noteq> Some (node_id n) \<and> raft_node_is_voting n \<and>
        raft_node_has_vote_for_me n) (nodes me))) + (if raft_node_is_voting n then 1 else 0)"
    using assms(1) by (auto simp: raft_get_nvotes_for_me_def deref_my_node_def raft_get_node_def Let_def elim!: do_elims)
  have "length (filter (\<lambda>m. node_id m = i \<and> raft_node_is_voting m) (nodes me)) =
      (if raft_node_is_voting n then 1 else 0)"
    using raft_get_node_filter[OF _ n(2), of raft_node_is_voting] assms(2) by (simp add: nodes_ok_def)
  moreover have "filter (votes_for_me me) (voters me) =
      filter (\<lambda>m. node_id m = i \<and> raft_node_is_voting m \<or>
        my_node me \<noteq> Some (node_id m) \<and> raft_node_is_voting m \<and> raft_node_has_vote_for_me m) (nodes me)"
    using n(1) by (auto intro!: filter_cong)
  moreover have "(\<lambda>m. \<not> (node_id m = i \<and> raft_node_is_voting m) \<and>
        my_node me \<noteq> Some (node_id m) \<and> raft_node_is_voting m \<and> raft_node_has_vote_for_me m) =
      (\<lambda>m. my_node me \<noteq> Some (node_id m) \<and> raft_node_is_voting m \<and> raft_node_has_vote_for_me m)"
    using n(1) by auto
  ultimately show ?thesis using v by (simp only: length_filter_disj) simp
qed

lemma raft_votes_is_majority_iff:
  "raft_votes_is_majority (int (length xs)) (int (length (filter p xs))) \<longleftrightarrow> more_than_half p xs"
proof -
  have "c_quot (int (length xs)) 2 = int (length xs) div 2"
    by (cases "length xs = 0") (auto simp: c_quot_def sgn_if)
  moreover have "\<not> length xs < length (filter p xs)" by (simp add: not_less)
  ultimately show ?thesis unfolding raft_votes_is_majority_def more_than_half_def by (simp, linarith)
qed

lemma mark_vote:
  "(case node of None \<Rightarrow> Some me0 | Some i \<Rightarrow> upd_node i f me0) = Some me1 \<Longrightarrow>
   nodes me1 = map (\<lambda>n. if node = Some (node_id n) then f n else n) (nodes me0) \<and>
   my_node me1 = my_node me0 \<and> state me1 = state me0"
  by (auto simp: upd_node_def eq_commute split: option.splits)

lemma raft_recv_requestvote_response_leader:
  fixes me :: "('l, 'u) raft_server"
  assumes "raft_recv_requestvote_response c me node resp = Some (e, me')"
    and "\<not> raft_is_leader me" "raft_is_leader me'"
  shows "\<exists>(me1 :: ('l, 'u) raft_server) votes. rvr_term resp \<le> current_term me \<and> \<not> rvr_prevote resp \<and>
      raft_is_candidate me \<and> rvr_request_term resp = current_term me \<and> rvr_vote_granted resp \<and>
      nodes me1 = map (\<lambda>n. if node = Some (node_id n) then raft_node_set_voted_for_me True n else n) (nodes me) \<and>
      my_node me1 = my_node me \<and>
      raft_get_nvotes_for_me me1 = Some votes \<and> raft_votes_is_majority (raft_get_num_voting_nodes me1) votes"
proof -
  define me0 where "me0 =
    (let me = (if rvr_prevote resp then count_stat requestvote_prevote_resp_received_update me
               else count_stat requestvote_resp_received_update me)
     in if \<not> rvr_vote_granted resp then
          (if rvr_prevote resp then count_stat requestvote_prevote_req_failed_update me
           else count_stat requestvote_req_failed_update me)
        else me)"
  have me0: "nodes me0 = nodes me" "my_node me0 = my_node me" "state me0 = state me"
      "current_term me0 = current_term me"
    by (simp_all add: me0_def Let_def count_stat_def)
  have "\<exists>me1 votes. rvr_term resp \<le> current_term me0 \<and> \<not> rvr_prevote resp \<and>
      raft_is_candidate me0 \<and> rvr_request_term resp = current_term me0 \<and> rvr_vote_granted resp \<and>
      (case node of None \<Rightarrow> Some me0 | Some i \<Rightarrow> upd_node i (raft_node_set_voted_for_me True) me0) = Some me1 \<and>
      raft_get_nvotes_for_me me1 = Some votes \<and> raft_votes_is_majority (raft_get_num_voting_nodes me1) votes"
    using assms me0(3)
    unfolding raft_recv_requestvote_response_def Let_def me0_def[unfolded Let_def, symmetric]
    by (elim do_elims)
      (auto dest!: raft_become_follower_frame raft_set_current_term_frame raft_become_candidate_state upd_node_frame)
  then obtain me1 votes where r: "rvr_term resp \<le> current_term me0" "\<not> rvr_prevote resp"
      "raft_is_candidate me0" "rvr_request_term resp = current_term me0" "rvr_vote_granted resp"
    and m: "(case node of None \<Rightarrow> Some me0 | Some i \<Rightarrow> upd_node i (raft_node_set_voted_for_me True) me0) = Some me1"
    and v: "raft_get_nvotes_for_me me1 = Some votes" "raft_votes_is_majority (raft_get_num_voting_nodes me1) votes"
    by blast
  show ?thesis
    by (rule exI[of _ me1], rule exI[of _ votes]) (use r v mark_vote[OF m] me0 in simp)
qed

text \<open>What the count of the votes depends on.\<close>

definition vote_view :: "raft_node list \<Rightarrow> (raft_node_id_t \<times> bool \<times> bool) list" where
  "vote_view ns = map (\<lambda>n. (node_id n, raft_node_is_voting n, raft_node_has_vote_for_me n)) ns"

lemma vote_view_map:
  "(\<And>n. node_id (f n) = node_id n) \<Longrightarrow> (\<And>n. raft_node_is_voting (f n) = raft_node_is_voting n) \<Longrightarrow>
   (\<And>n. raft_node_has_vote_for_me (f n) = raft_node_has_vote_for_me n) \<Longrightarrow> vote_view (map f ns) = vote_view ns"
  by (simp add: vote_view_def)

lemma length_filter_view:
  assumes "vote_view ns = vote_view ns'"
  shows "length (filter (\<lambda>n. P (node_id n) (raft_node_is_voting n) (raft_node_has_vote_for_me n)) ns) =
    length (filter (\<lambda>n. P (node_id n) (raft_node_is_voting n) (raft_node_has_vote_for_me n)) ns')"
proof -
  have "length (filter (\<lambda>n. P (node_id n) (raft_node_is_voting n) (raft_node_has_vote_for_me n)) xs) =
      length (filter (\<lambda>(i, v, h). P i v h) (vote_view xs))" for xs
    by (simp add: vote_view_def filter_map o_def)
  with assms show ?thesis by simp
qed

lemma find_view:
  "vote_view ns = vote_view ns' \<Longrightarrow>
   map_option raft_node_is_voting (find (\<lambda>n. i = node_id n) ns) =
   map_option raft_node_is_voting (find (\<lambda>n. i = node_id n) ns')"
proof (induction ns arbitrary: ns')
  case (Cons n ns)
  then show ?case by (cases ns') (auto simp: vote_view_def)
qed (simp add: vote_view_def)

definition won_vote :: "('l, 'u) raft_server \<Rightarrow> bool" where
  "won_vote me \<longleftrightarrow>
     (case raft_get_nvotes_for_me me of
        None \<Rightarrow> False | Some v \<Rightarrow> raft_votes_is_majority (raft_get_num_voting_nodes me) v)"

lemma view_cong:
  assumes "vote_view (nodes me) = vote_view (nodes me')" "my_node me = my_node me'"
  shows "raft_get_num_voting_nodes me = raft_get_num_voting_nodes me'"
    "raft_get_nvotes_for_me me = raft_get_nvotes_for_me me'"
    "raft_is_single_node_voting_cluster me = raft_is_single_node_voting_cluster me'"
    "won_vote me = won_vote me'"
proof -
  have mine: "map_option raft_node_is_voting (deref_my_node me) = map_option raft_node_is_voting (deref_my_node me')"
    by (cases "my_node me'") (simp_all add: deref_my_node_def raft_get_node_def assms(2) find_view[OF assms(1)])
  show num: "raft_get_num_voting_nodes me = raft_get_num_voting_nodes me'"
    using length_filter_view[OF assms(1), of "\<lambda>i v h. v"] by (simp add: raft_get_num_voting_nodes_def)
  show votes: "raft_get_nvotes_for_me me = raft_get_nvotes_for_me me'"
    using length_filter_view[OF assms(1), of "\<lambda>i v h. my_node me \<noteq> Some i \<and> v \<and> h"] mine assms(2)
    by (cases "deref_my_node me"; cases "deref_my_node me'") (auto simp: raft_get_nvotes_for_me_def Let_def)
  show "raft_is_single_node_voting_cluster me = raft_is_single_node_voting_cluster me'"
    using num mine
    by (cases "deref_my_node me"; cases "deref_my_node me'") (auto simp: raft_is_single_node_voting_cluster_def)
  show "won_vote me = won_vote me'" by (simp add: won_vote_def num votes cong: option.case_cong)
qed

lemma won_vote_iff:
  assumes "nodes_ok (nodes me)" "won_vote me"
  shows "more_than_half (votes_for_me me) (voters me)"
  using assms raft_get_nvotes_for_me_eq[of me]
  by (auto simp: won_vote_def raft_get_num_voting_nodes_def simp del: filter_filter simp flip: raft_votes_is_majority_iff split: option.splits)

text \<open>
  C7. Leaders are elected. A server that becomes leader on a vote response was a candidate of its
  current term, the response is a granted vote of that term, and more than half of its voting nodes
  voted for it: itself, the nodes marked before, or the one that sent the response.
\<close>

theorem leader_has_majority:
  fixes me :: "('l, 'u) raft_server"
  assumes run: "raft_recv_requestvote_response c me node resp = Some (e, me')"
    and "\<not> raft_is_leader me" "raft_is_leader me'" and ok: "nodes_ok (nodes me)"
  shows "raft_is_candidate me \<and> \<not> rvr_prevote resp \<and> rvr_vote_granted resp \<and>
    rvr_term resp \<le> current_term me \<and> rvr_request_term resp = current_term me \<and>
    more_than_half (\<lambda>n. votes_for_me me n \<or> node = Some (node_id n)) (voters me)"
proof -
  obtain me1 :: "('l, 'u) raft_server" and votes where r: "rvr_term resp \<le> current_term me" "\<not> rvr_prevote resp" "raft_is_candidate me"
      "rvr_request_term resp = current_term me" "rvr_vote_granted resp"
    and me1: "nodes me1 = map (\<lambda>n. if node = Some (node_id n)
        then raft_node_set_voted_for_me True n else n) (nodes me)" "my_node me1 = my_node me"
    and v: "raft_get_nvotes_for_me me1 = Some votes"
      "raft_votes_is_majority (raft_get_num_voting_nodes me1) votes"
    using raft_recv_requestvote_response_leader[OF run assms(2,3)] by blast
  have "nodes_ok (nodes me1)" using ok by (auto simp: nodes_ok_def me1 o_def if_distrib raft_node_set_voted_for_me_def cong: if_cong)
  from raft_get_nvotes_for_me_eq[OF v(1) this] v(2)
  have "more_than_half (votes_for_me me1) (voters me1)"
    by (simp only: raft_get_num_voting_nodes_def raft_votes_is_majority_iff)
  moreover have "more_than_half (votes_for_me me1) (voters me1) \<longleftrightarrow>
      more_than_half (\<lambda>n. votes_for_me me n \<or> node = Some (node_id n)) (voters me)"
    by (simp add: me1 filter_map o_def more_than_half_map if_distrib[of raft_node_is_voting]
        if_distrib[of node_id] if_distrib[of raft_node_has_vote_for_me] cong: if_cong) (rule arg_cong[of _ _ "\<lambda>p. more_than_half p (voters me)"], auto)
  ultimately show ?thesis using r by simp
qed

end
