(* ===== verification/Raft_Server_Steps.thy ===== *)
theory Raft_Server_Steps
  imports Raft_Quorum
begin

text \<open>
  Every operation of the server is a sequence of small steps.
\<close>

section \<open>Small steps\<close>

inductive env_call :: "('l, 'u) raft_ctx \<Rightarrow> ('l, 'u) raft_server \<Rightarrow> 'u \<Rightarrow> bool" for c where
  env_rand: "c_rand c (udata me) = (r, u) \<Longrightarrow> env_call c me u"
| env_send_requestvote: "cb_send_requestvote c = Some f \<Longrightarrow> f me n req = (e, u) \<Longrightarrow> env_call c me u"
| env_send_appendentries: "cb_send_appendentries c = Some f \<Longrightarrow> f me n req' = (e, u) \<Longrightarrow> env_call c me u"
| env_send_snapshot: "cb_send_snapshot c = Some f \<Longrightarrow> f me n sreq = (e, u) \<Longrightarrow> env_call c me u"
| env_send_timeoutnow: "cb_send_timeoutnow c = Some f \<Longrightarrow> f me n = (e, u) \<Longrightarrow> env_call c me u"
| env_get_snapshot_chunk: "cb_get_snapshot_chunk c = Some f \<Longrightarrow> f me n off ch = (e, ch', u) \<Longrightarrow> env_call c me u"
| env_store_snapshot_chunk: "cb_store_snapshot_chunk c = Some f \<Longrightarrow> f me i off ch = (e, u) \<Longrightarrow> env_call c me u"
| env_clear_snapshot: "cb_clear_snapshot c = Some f \<Longrightarrow> f me = (e, u) \<Longrightarrow> env_call c me u"
| env_get_node_id: "cb_get_node_id c = Some f \<Longrightarrow> f me ety i = (nid, u) \<Longrightarrow> env_call c me u"
| env_sufficient_logs: "cb_node_has_sufficient_logs c = Some f \<Longrightarrow> f me n = (e, u) \<Longrightarrow> env_call c me u"
| env_timestamp: "cb_timestamp c = Some f \<Longrightarrow> f me = (e, u) \<Longrightarrow> env_call c me u"
| env_membership: "cb_notify_membership_event c = Some f \<Longrightarrow> env_call c me (f me no eo ev)"
| env_state_event: "cb_notify_state_event c = Some f \<Longrightarrow> env_call c me (f me st)"
| env_transfer: "cb_notify_transfer_event c = Some f \<Longrightarrow> env_call c me (f me tr)"
| env_backpressure: "cb_backpressure c = Some f \<Longrightarrow> f me n = (e, u) \<Longrightarrow> env_call c me u"
| env_get_entries: "cb_get_entries_to_send c = Some f \<Longrightarrow> f me n i sz = (k, es, u) \<Longrightarrow> env_call c me u"
| env_read: "env_call c me (c_call_read c p b (udata me))"

definition same_core :: "('l, 'u) raft_server \<Rightarrow> ('l, 'u) raft_server \<Rightarrow> bool" where
  "same_core me me' \<longleftrightarrow>
     current_term me' = current_term me \<and> voted_for me' = voted_for me \<and> log_st me' = log_st me \<and>
     commit_idx me' = commit_idx me \<and> last_applied_idx me' = last_applied_idx me \<and>
     last_applied_term me' = last_applied_term me \<and> nodes me' = nodes me \<and> udata me' = udata me \<and>
     snapshot_last_idx me' = snapshot_last_idx me \<and> snapshot_last_term me' = snapshot_last_term me \<and>
     next_snapshot_last_idx me' = next_snapshot_last_idx me \<and>
     next_snapshot_last_term me' = next_snapshot_last_term me \<and>
     state me' = state me \<and> my_node me' = my_node me"

text \<open>
  The nodes whose votes may be counted: \<open>None\<close> puts no bound on the marks nor on the membership;
  with \<open>Some A\<close> a node is marked as voting for this server in a term only if \<open>A\<close> has the pair, and the
  node list changes only through the configuration entries of the log.
\<close>

type_synonym marks = "(raft_node_id_t \<times> raft_term_t) set option"

definition may_change :: "('l, 'u) raft_ctx \<Rightarrow> marks \<Rightarrow> bool" where
  "may_change c M \<longleftrightarrow> M = None \<or> cb_get_node_id c \<noteq> None"

definition may_mark :: "marks \<Rightarrow> raft_node_id_t \<Rightarrow> raft_term_t \<Rightarrow> bool" where
  "may_mark M i t \<longleftrightarrow> (case M of None \<Rightarrow> True | Some A \<Rightarrow> (i, t) \<in> A)"

text \<open>Whether the callback that persists term and vote can report an error.\<close>

definition may_fail :: "('l, 'u) raft_ctx \<Rightarrow> bool" where
  "may_fail c \<longleftrightarrow> (\<exists>f me t v. cb_persist_metadata c = Some f \<and> fst (f me t v) \<noteq> 0)"

text \<open>
  The role after the term has grown: the server gives up candidacy and leadership. The exceptions
  are an error while it stands for election, the only voting node, and a snapshot being loaded.
\<close>

definition term_state :: "('l, 'u) raft_ctx \<Rightarrow> marks \<Rightarrow> ('l, 'u) raft_server \<Rightarrow> raft_state_e \<Rightarrow> bool" where
  "term_state c M me st \<longleftrightarrow> st = RAFT_STATE_FOLLOWER \<or> st = RAFT_STATE_PRECANDIDATE \<or>
     st = state me \<and> (M = None \<or> may_fail c \<or> raft_is_single_node_voting_cluster me = Some True)"

definition no_new_votes :: "raft_node list \<Rightarrow> raft_node list \<Rightarrow> bool" where
  "no_new_votes ns ns' \<longleftrightarrow>
     list_all2 (\<lambda>n n'. node_id n' = node_id n \<and> raft_node_is_voting n' = raft_node_is_voting n \<and>
       (raft_node_has_vote_for_me n' \<longrightarrow> raft_node_has_vote_for_me n)) ns ns'"

definition may_stand :: "('l, 'u) raft_server \<Rightarrow> bool" where
  "may_stand me \<longleftrightarrow> (\<forall>n \<in> set (nodes me). \<not> raft_node_has_vote_for_me n) \<and>
     (case deref_my_node me of
        None \<Rightarrow> False | Some n \<Rightarrow> raft_node_is_voting n \<longrightarrow> voted_for me = node_id n)"

definition may_lead :: "('l, 'u) raft_server \<Rightarrow> bool" where
  "may_lead me \<longleftrightarrow>
     raft_is_candidate me \<and> won_vote me \<or> raft_is_single_node_voting_cluster me = Some True"

inductive srv_step ::
  "('l, 'u) raft_ctx \<Rightarrow> ('u \<Rightarrow> 'u \<Rightarrow> bool) \<Rightarrow> marks \<Rightarrow>
   ('l, 'u) raft_server \<Rightarrow> ('l, 'u) raft_server \<Rightarrow> bool"
  for c Q M where
  step_env: "env_call c me u \<or> Q (udata me) u \<Longrightarrow> srv_step c Q M me (me\<lparr>udata := u\<rparr>)"
| step_vol: "same_core me me' \<Longrightarrow> srv_step c Q M me me'"
| step_persist_fail: "cb_persist_metadata c = Some f \<Longrightarrow> f me t v = (e, u) \<Longrightarrow> e \<noteq> 0 \<Longrightarrow>
    current_term me < t \<or> t = current_term me \<and> (voted_for me = RAFT_NODE_ID_NONE \<or> voted_for me = v) \<Longrightarrow>
    srv_step c Q M me (me\<lparr>udata := u\<rparr>)"
| step_term: "call_persist_metadata c me t RAFT_NODE_ID_NONE = (0, me') \<Longrightarrow> current_term me < t \<Longrightarrow>
    term_state c M me st \<Longrightarrow>
    srv_step c Q M me (me'\<lparr>current_term := t, voted_for := RAFT_NODE_ID_NONE, state := st\<rparr>)"
| step_vote: "call_persist_metadata c (me\<lparr>state := st\<rparr>) (current_term me) v = (0, me') \<Longrightarrow>
    voted_for me = RAFT_NODE_ID_NONE \<or> voted_for me = v \<Longrightarrow>
    srv_step c Q M me (me'\<lparr>voted_for := v, state := state me\<rparr>)"
| step_append: "ety_term ety \<le> current_term me \<Longrightarrow> li_append (impl c) (log_st me) ety = Some (e, l) \<Longrightarrow>
    srv_step c Q M me (me\<lparr>log_st := l\<rparr>)"
| step_pop: "commit_idx me < i \<Longrightarrow>
    li_pop (impl c) (log_st me) i = Some (e, l) \<Longrightarrow> srv_step c Q M me (me\<lparr>log_st := l\<rparr>)"
| step_sync: "li_sync (impl c) (log_st me) = Some (e, l) \<Longrightarrow> srv_step c Q M me (me\<lparr>log_st := l\<rparr>)"
| step_compact: "li_poll (impl c) (log_st me) (snapshot_last_idx me + 1) = Some (e, l) \<Longrightarrow>
    srv_step c Q M me (me\<lparr>log_st := l\<rparr>)"
| step_commit: "commit_idx me \<le> i \<Longrightarrow> i \<le> raft_get_current_idx c me \<Longrightarrow> srv_step c Q M me (me\<lparr>commit_idx := i\<rparr>)"
| step_apply: "last_applied_idx me \<noteq> commit_idx me \<Longrightarrow>
    raft_get_entry_from_idx c me (last_applied_idx me + 1) = Some (Some ety) \<Longrightarrow>
    (case cb_applylog c of None \<Rightarrow> u = udata me | Some f \<Rightarrow> f me ety (last_applied_idx me + 1) = (0, u)) \<Longrightarrow>
    srv_step c Q M me (me\<lparr>udata := u, last_applied_idx := last_applied_idx me + 1, last_applied_term := ety_term ety\<rparr>)"
| step_apply_fail: "cb_applylog c = Some f \<Longrightarrow>
    raft_get_entry_from_idx c me (last_applied_idx me + 1) = Some (Some ety) \<Longrightarrow>
    f me ety (last_applied_idx me + 1) = (e, u) \<Longrightarrow> e \<noteq> 0 \<Longrightarrow>
    srv_step c Q M me (me\<lparr>udata := u\<rparr>)"
| step_nodes: "(nodes_ok (nodes me) \<Longrightarrow> nodes_ok ns) \<Longrightarrow> no_new_votes (nodes me) ns \<Longrightarrow>
    srv_step c Q M me (me\<lparr>nodes := ns\<rparr>)"
| step_member: "(nodes_ok (nodes me) \<Longrightarrow> nodes_ok ns) \<Longrightarrow> may_change c M \<Longrightarrow>
    srv_step c Q M me (me\<lparr>nodes := ns, my_node := x\<rparr>)"
| step_mark: "raft_is_precandidate me \<or> may_mark M i (current_term me) \<Longrightarrow>
    ns = map (\<lambda>n. if node_id n = i then raft_node_set_voted_for_me True n else n) (nodes me) \<Longrightarrow>
    (nodes_ok (nodes me) \<Longrightarrow> nodes_ok ns) \<Longrightarrow> srv_step c Q M me (me\<lparr>nodes := ns\<rparr>)"
| step_yield: "st = RAFT_STATE_FOLLOWER \<or> st = RAFT_STATE_PRECANDIDATE \<Longrightarrow> srv_step c Q M me (me\<lparr>state := st\<rparr>)"
| step_stand: "may_stand me \<Longrightarrow> srv_step c Q M me (me\<lparr>state := RAFT_STATE_CANDIDATE\<rparr>)"
| step_lead: "may_lead me \<Longrightarrow> srv_step c Q M me (me\<lparr>state := RAFT_STATE_LEADER\<rparr>)"
| step_begin_snapshot: "srv_step c Q M me (me\<lparr>next_snapshot_last_idx := last_applied_idx me,
    next_snapshot_last_term := last_applied_term me\<rparr>)"
| step_end_snapshot: "srv_step c Q M me (me\<lparr>snapshot_last_idx := next_snapshot_last_idx me,
    snapshot_last_term := next_snapshot_last_term me\<rparr>)"
| step_load: "0 < i \<Longrightarrow> t \<le> current_term me \<Longrightarrow> last_applied_idx me \<le> i \<Longrightarrow> raft_get_current_idx c me \<le> i \<Longrightarrow>
    li_reset (impl c) (log_st me) (i + 1) t = Some l \<Longrightarrow>
    srv_step c Q M me (me\<lparr>log_st := l, commit_idx := max (commit_idx me) i, last_applied_term := t, last_applied_idx := i,
      next_snapshot_last_term := t, next_snapshot_last_idx := i\<rparr>)"

abbreviation srv_steps ::
  "('l, 'u) raft_ctx \<Rightarrow> ('u \<Rightarrow> 'u \<Rightarrow> bool) \<Rightarrow> marks \<Rightarrow> ('l, 'u) raft_server \<Rightarrow> ('l, 'u) raft_server \<Rightarrow> bool" where
  "srv_steps c Q M \<equiv> (srv_step c Q M)\<^sup>*\<^sup>*"

named_theorems steps \<open>updates that are small steps\<close>
named_theorems op_steps \<open>operations that are sequences of small steps\<close>
named_theorems call_steps \<open>calls into the environment\<close>

lemma steps_refl: "srv_steps c Q M me me"
  by simp

lemma steps_one: "srv_steps c Q M s me \<Longrightarrow> srv_step c Q M me me' \<Longrightarrow> srv_steps c Q M s me'"
  by (rule rtranclp.rtrancl_into_rtrancl)

lemma steps_vol [steps]:
  assumes "srv_steps c Q M s me"
  shows "srv_steps c Q M s (me\<lparr>timeout_elapsed := x2\<rparr>)"
    "srv_steps c Q M s (me\<lparr>timestamp := x3\<rparr>)" "srv_steps c Q M s (me\<lparr>exec_deadline := x3\<rparr>)"
    "srv_steps c Q M s (me\<lparr>pending_operations := x4\<rparr>)" "srv_steps c Q M s (me\<lparr>quorum_timeout := x3\<rparr>)"
    "srv_steps c Q M s (me\<lparr>last_acked_msg_id := x5\<rparr>)" "srv_steps c Q M s (me\<lparr>leader_id := x3\<rparr>)"
    "srv_steps c Q M s (me\<lparr>voting_cfg_change_log_idx := x3\<rparr>)"
    "srv_steps c Q M s (me\<lparr>snapshot_in_progress := x4\<rparr>)" "srv_steps c Q M s (me\<lparr>snapshot_recv_idx := x3\<rparr>)"
    "srv_steps c Q M s (me\<lparr>snapshot_recv_offset := x5\<rparr>)" "srv_steps c Q M s (me\<lparr>msg_id := x5\<rparr>)"
    "srv_steps c Q M s (me\<lparr>read_queue := x7\<rparr>)" "srv_steps c Q M s (me\<lparr>node_transferring_leader_to := x3\<rparr>)"
    "srv_steps c Q M s (me\<lparr>transfer_leader_time := x3\<rparr>)" "srv_steps c Q M s (me\<lparr>sent_timeout_now := x4\<rparr>)"
    "srv_steps c Q M s (me\<lparr>next_sync_index := x3\<rparr>)" "srv_steps c Q M s (me\<lparr>election_timeout_rand := x3\<rparr>)"
    "srv_steps c Q M s (me\<lparr>election_timeout := x3\<rparr>)" "srv_steps c Q M s (me\<lparr>request_timeout := x3\<rparr>)"
    "srv_steps c Q M s (me\<lparr>nonblocking_apply := x4\<rparr>)" "srv_steps c Q M s (me\<lparr>auto_flush := x4\<rparr>)"
    "srv_steps c Q M s (me\<lparr>log_enabled := x4\<rparr>)" "srv_steps c Q M s (me\<lparr>disable_apply := x4\<rparr>)"
    "srv_steps c Q M s (me\<lparr>stats := x8\<rparr>)"
  by (rule steps_one[OF assms], rule step_vol, simp add: same_core_def)+

lemma steps_if [steps]:
  "srv_steps c Q M s me \<Longrightarrow> srv_steps c Q M s me' \<Longrightarrow> srv_steps c Q M s (if b then me else me')"
  by simp

lemma steps_count_stat [steps]: "srv_steps c Q M s me \<Longrightarrow> srv_steps c Q M s (count_stat f me)"
  by (simp add: count_stat_def steps_vol)

lemma steps_env: "env_call c me u \<Longrightarrow> srv_steps c Q M s me \<Longrightarrow> srv_steps c Q M s (me\<lparr>udata := u\<rparr>)"
  by (blast intro: steps_one step_env)

lemmas env_rand_steps [op_steps] = env_rand[THEN steps_env]

lemmas env_call_steps [call_steps] =
  env_send_requestvote[THEN steps_env] env_send_appendentries[THEN steps_env]
  env_send_snapshot[THEN steps_env] env_send_timeoutnow[THEN steps_env]
  env_get_snapshot_chunk[THEN steps_env] env_store_snapshot_chunk[THEN steps_env]
  env_clear_snapshot[THEN steps_env] env_get_node_id[THEN steps_env]
  env_sufficient_logs[THEN steps_env] env_timestamp[THEN steps_env]
  env_backpressure[THEN steps_env] env_get_entries[THEN steps_env]

lemmas event_steps =
  env_membership[THEN steps_env] env_state_event[THEN steps_env]
  env_transfer[THEN steps_env] env_read[THEN steps_env]

section \<open>The operations are sequences of small steps\<close>

lemma steps_persist:
  "call_persist_metadata c me t v = (e, me') \<Longrightarrow> e \<noteq> 0 \<Longrightarrow> srv_steps c Q M s me \<Longrightarrow>
   current_term me < t \<or> t = current_term me \<and> (voted_for me = RAFT_NODE_ID_NONE \<or> voted_for me = v) \<Longrightarrow>
   srv_steps c Q M s me'"
  by (auto simp: call_persist_metadata_def elim!: do_elims intro: steps_one[OF _ step_persist_fail])

lemma call_persist_frame:
  "call_persist_metadata c me t v = (e, me') \<Longrightarrow> \<exists>u. me' = me\<lparr>udata := u\<rparr>"
  by (auto simp: call_persist_metadata_def elim!: do_elims intro: exI[of _ "udata me"])

lemma raft_set_current_term_cases:
  assumes "raft_set_current_term c me t = (e, me')"
  obtains "t \<le> current_term me" "e = 0" "me' = me"
  | "current_term me < t" "e \<noteq> 0" "call_persist_metadata c me t RAFT_NODE_ID_NONE = (e, me')"
  | me1 where "current_term me < t" "e = 0" "call_persist_metadata c me t RAFT_NODE_ID_NONE = (0, me1)"
      "me' = me1\<lparr>current_term := t, voted_for := RAFT_NODE_ID_NONE\<rparr>"
  using assms by (auto simp: raft_set_current_term_def split: if_splits prod.splits)

lemma raft_set_current_term_steps:
  assumes "raft_set_current_term c me t = (e, me')" "term_state c M me (state me)" "srv_steps c Q M s me"
  shows "srv_steps c Q M s me'"
  using assms(1)
proof (cases rule: raft_set_current_term_cases)
  case (3 me1)
  have "me1\<lparr>current_term := t, voted_for := RAFT_NODE_ID_NONE, state := state me\<rparr> = me'"
    using call_persist_frame[OF 3(3)] 3(4) by auto
  with steps_one[OF assms(3) step_term[OF 3(3,1) assms(2)]] show ?thesis by simp
qed (use assms(3) in \<open>auto intro: steps_persist\<close>)

lemma set_term_fail_steps:
  "raft_set_current_term c me t = (e, me') \<Longrightarrow> e \<noteq> 0 \<Longrightarrow> srv_steps c Q M s me \<Longrightarrow> srv_steps c Q M s me'"
  by (erule raft_set_current_term_cases) (auto intro: steps_persist)

lemma set_term_yield_steps:
  assumes "raft_set_current_term c me t = (0, me')" "current_term me < t" "srv_steps c Q M s me"
  shows "srv_steps c Q M s (me'\<lparr>state := RAFT_STATE_FOLLOWER\<rparr>)"
    "srv_steps c Q M s (me'\<lparr>state := RAFT_STATE_PRECANDIDATE\<rparr>)"
  using assms(1,2)
  by (auto elim!: raft_set_current_term_cases simp: term_state_def intro!: steps_one[OF assms(3) step_term])

lemma raft_vote_for_nodeid_steps:
  assumes "raft_vote_for_nodeid c me v = (e, me')" "voted_for me = RAFT_NODE_ID_NONE \<or> voted_for me = v"
    "srv_steps c Q M s me"
  shows "srv_steps c Q M s me'"
proof (cases "e = 0")
  case True
  then obtain me1 where me1: "call_persist_metadata c (me\<lparr>state := state me\<rparr>) (current_term me) v = (0, me1)"
    and "me' = me1\<lparr>voted_for := v\<rparr>"
    using assms(1) by (auto simp: raft_vote_for_nodeid_def split: prod.splits if_splits)
  moreover have "me1\<lparr>voted_for := v, state := state me\<rparr> = me1\<lparr>voted_for := v\<rparr>"
    using call_persist_frame[OF me1] by auto
  ultimately show ?thesis using steps_one[OF assms(3) step_vote[OF me1 assms(2)]] by simp
qed (use assms in \<open>auto simp: raft_vote_for_nodeid_def elim!: do_elims intro: steps_persist\<close>)

lemma raft_set_commit_idx_steps [op_steps]:
  "raft_set_commit_idx c me i = Some me' \<Longrightarrow> srv_steps c Q M s me \<Longrightarrow> srv_steps c Q M s me'"
  by (auto simp: raft_set_commit_idx_def split: if_splits intro: steps_one step_commit)

lemma raft_set_state_yield_steps [op_steps]:
  "raft_set_state me RAFT_STATE_FOLLOWER = Some me' \<Longrightarrow> srv_steps c Q M s me \<Longrightarrow> srv_steps c Q M s me'"
  "raft_set_state me RAFT_STATE_PRECANDIDATE = Some me' \<Longrightarrow> srv_steps c Q M s me \<Longrightarrow> srv_steps c Q M s me'"
  by (auto simp: raft_set_state_def intro: steps_one[OF _ step_yield])

lemma raft_set_state_stand_steps:
  "raft_set_state me RAFT_STATE_CANDIDATE = Some me' \<Longrightarrow> may_stand me \<Longrightarrow> srv_steps c Q M s me \<Longrightarrow>
   srv_steps c Q M s me'"
  by (auto simp: raft_set_state_def intro: steps_one[OF _ step_stand])

lemma may_lead_cong:
  "vote_view (nodes me') = vote_view (nodes me) \<Longrightarrow> my_node me' = my_node me \<Longrightarrow> state me' = state me \<Longrightarrow>
   may_lead me' \<longleftrightarrow> may_lead me"
  using view_cong[of me' me] by (simp add: may_lead_def)

lemma raft_set_state_lead_steps:
  assumes "raft_set_state me RAFT_STATE_LEADER = Some me'" "may_lead me" "srv_steps c Q M s me"
  shows "srv_steps c Q M s me'"
proof -
  obtain i where "me' = me\<lparr>leader_id := i, state := RAFT_STATE_LEADER\<rparr>"
    using assms(1) by (auto simp: raft_set_state_def elim!: do_elims)
  moreover have "srv_steps c Q M s (me\<lparr>leader_id := i\<rparr>)" by (intro steps_vol assms(3))
  ultimately show ?thesis
    using steps_one[OF _ step_lead] may_lead_cong[of "me\<lparr>leader_id := i\<rparr>" me] assms(2) by fastforce
qed

lemma raft_randomize_election_timeout_steps [op_steps]:
  "raft_randomize_election_timeout c me = Some me' \<Longrightarrow> srv_steps c Q M s me \<Longrightarrow> srv_steps c Q M s me'"
  by (auto simp: raft_randomize_election_timeout_def Let_def elim!: do_elims)
    (assumption | rule steps | (rule call_steps, assumption, assumption) | (rule op_steps, assumption))+

lemma raft_update_quorum_meta_steps [steps]:
  "srv_steps c Q M s me \<Longrightarrow> srv_steps c Q M s (raft_update_quorum_meta me i)"
  by (auto simp: raft_update_quorum_meta_def intro: steps)

lemma raft_clear_incoming_snapshot_steps [op_steps]:
  "raft_clear_incoming_snapshot c me i = Some (e, me') \<Longrightarrow> srv_steps c Q M s me \<Longrightarrow> srv_steps c Q M s me'"
  by (auto simp: raft_clear_incoming_snapshot_def Let_def elim!: do_elims)
    (assumption | rule steps | (rule call_steps, assumption, assumption) | (rule op_steps, assumption))+

lemma call_notify_membership_steps [steps]:
  "srv_steps c Q M s me \<Longrightarrow> srv_steps c Q M s (call_notify_membership c me n ety ev)"
  by (auto simp: call_notify_membership_def split: option.splits intro: event_steps)

lemma nodes_ok_map:
  "nodes_ok ns \<Longrightarrow> (\<And>n. node_id (f n) = node_id n) \<Longrightarrow> (\<And>n. 1 \<le> next_idx n \<Longrightarrow> 1 \<le> next_idx (f n)) \<Longrightarrow>
   nodes_ok (map f ns)"
  by (auto simp: nodes_ok_def o_def)

lemma step_node_map:
  assumes "srv_steps c Q M s me" "\<And>n. node_id (f n) = node_id n" "\<And>n. 1 \<le> next_idx n \<Longrightarrow> 1 \<le> next_idx (f n)"
    and "\<And>n. raft_node_is_voting (f n) = raft_node_is_voting n"
      "\<And>n. raft_node_has_vote_for_me (f n) \<Longrightarrow> raft_node_has_vote_for_me n"
  shows "srv_steps c Q M s (me\<lparr>nodes := map f (nodes me)\<rparr>)"
  using assms(2-)
  by (intro steps_one[OF assms(1) step_nodes] nodes_ok_map)
    (auto simp: no_new_votes_def list_all2_conv_all_nth)

lemma step_member_map:
  assumes "srv_steps c Q M s me" "may_change c M"
    and "\<And>n. node_id (f n) = node_id n" "\<And>n. 1 \<le> next_idx n \<Longrightarrow> 1 \<le> next_idx (f n)"
  shows "srv_steps c Q M s (me\<lparr>nodes := map f (nodes me)\<rparr>)"
  using steps_one[OF assms(1) step_member[OF _ assms(2), where me = me and ns = "map f (nodes me)" and x = "my_node me"]] assms(3,4)
  by (simp add: nodes_ok_map)

lemma upd_node_SomeD:
  "upd_node i f me = Some me' \<Longrightarrow> me' = me\<lparr>nodes := map (\<lambda>n. if node_id n = i then f n else n) (nodes me)\<rparr>"
  by (auto simp: upd_node_def split: option.splits)

lemma next_idx_set:
  "1 \<le> next_idx (raft_node_set_next_idx i n)"
  "next_idx (raft_node_set_match_idx i n) = next_idx n"
  "next_idx (raft_node_set_match_msgid m n) = next_idx n"
  "next_idx (raft_node_set_next_msgid m n) = next_idx n"
  "next_idx (raft_node_update_max_seen_msg_id m n) = next_idx n"
  "next_idx (raft_node_clear_flags n) = next_idx n"
  "next_idx (raft_node_set_voted_for_me b n) = next_idx n"
  "next_idx (raft_node_set_voting b n) = next_idx n"
  "next_idx (raft_node_set_has_sufficient_logs b n) = next_idx n"
  "next_idx (raft_node_set_active b n) = next_idx n"
  "next_idx (raft_node_set_voting_committed b n) = next_idx n"
  "next_idx (raft_node_set_addition_committed b n) = next_idx n"
  "next_idx (raft_node_set_snapshot_offset x n) = next_idx n"
  by (auto simp: node_set_defs)

lemma upd_node_steps [op_steps]:
  "upd_node i (raft_node_set_next_idx k) me = Some me' \<Longrightarrow> srv_steps c Q M s me \<Longrightarrow> srv_steps c Q M s me'"
  "upd_node i (raft_node_set_match_idx k) me = Some me' \<Longrightarrow> srv_steps c Q M s me \<Longrightarrow> srv_steps c Q M s me'"
  "upd_node i (raft_node_set_match_msgid m) me = Some me' \<Longrightarrow> srv_steps c Q M s me \<Longrightarrow> srv_steps c Q M s me'"
  "upd_node i (raft_node_set_next_msgid m) me = Some me' \<Longrightarrow> srv_steps c Q M s me \<Longrightarrow> srv_steps c Q M s me'"
  "upd_node i (raft_node_update_max_seen_msg_id m) me = Some me' \<Longrightarrow> srv_steps c Q M s me \<Longrightarrow> srv_steps c Q M s me'"
  "upd_node i (raft_node_set_has_sufficient_logs b) me = Some me' \<Longrightarrow> srv_steps c Q M s me \<Longrightarrow> srv_steps c Q M s me'"
  "upd_node i (raft_node_set_voting_committed b) me = Some me' \<Longrightarrow> srv_steps c Q M s me \<Longrightarrow> srv_steps c Q M s me'"
  "upd_node i (raft_node_set_addition_committed b) me = Some me' \<Longrightarrow> srv_steps c Q M s me \<Longrightarrow> srv_steps c Q M s me'"
  "upd_node i (raft_node_set_snapshot_offset x) me = Some me' \<Longrightarrow> srv_steps c Q M s me \<Longrightarrow> srv_steps c Q M s me'"
  by (drule upd_node_SomeD, hypsubst, erule step_node_map; simp add: next_idx_set split: if_split_asm)+

lemma upd_node_member_steps [op_steps]:
  "upd_node i (raft_node_set_voting b) me = Some me' \<Longrightarrow> may_change c M \<Longrightarrow> srv_steps c Q M s me \<Longrightarrow> srv_steps c Q M s me'"
  "upd_node i (raft_node_set_active b) me = Some me' \<Longrightarrow> may_change c M \<Longrightarrow> srv_steps c Q M s me \<Longrightarrow> srv_steps c Q M s me'"
  by (drule upd_node_SomeD, hypsubst, erule step_member_map; simp add: next_idx_set)+

lemma upd_node_mark_steps:
  "upd_node i (raft_node_set_voted_for_me True) me = Some me' \<Longrightarrow> raft_is_precandidate me \<or> may_mark M i (current_term me) \<Longrightarrow>
   srv_steps c Q M s me \<Longrightarrow> srv_steps c Q M s me'"
  by (drule upd_node_SomeD, hypsubst, erule steps_one, erule step_mark)
    (auto simp: next_idx_set intro: nodes_ok_map)

lemma adjust_nodes_steps:
  "srv_steps c Q M s me \<Longrightarrow> srv_steps c Q M s (me\<lparr>nodes := map adjust_node_flags (nodes me)\<rparr>)"
  by (erule step_node_map) (simp_all add: adjust_node_flags_def Let_def next_idx_set)

lemma may_change_None [simp]: "may_change c None" and may_mark_None [simp]: "may_mark None i t"
  by (simp_all add: may_change_def may_mark_def)

lemma may_change_cb [steps]: "cb_get_node_id c = Some f \<Longrightarrow> may_change c M"
  by (simp add: may_change_def)

lemma raft_get_node_SomeD: "raft_get_node me i = Some n \<Longrightarrow> n \<in> set (nodes me) \<and> node_id n = i"
  by (auto simp: raft_get_node_def find_Some_iff)

lemma raft_get_node_NoneD: "raft_get_node me i = None \<Longrightarrow> i \<notin> set (node_ids me)"
  by (auto simp: raft_get_node_def find_None_iff)

lemma raft_node_new_SomeD:
  "raft_node_new k ud i v = Some n \<Longrightarrow> node_id n = i \<and> next_idx n = 1"
  by (auto simp: raft_node_new_def node_set_defs split: if_splits)

lemma raft_add_node_internal_steps [op_steps]:
  assumes "raft_add_node_internal c me ety ud i is_self v = Some (p, me')" "may_change c M" "srv_steps c Q M s me"
  shows "srv_steps c Q M s me'"
proof -
  have new: "srv_steps c Q M s (me\<lparr>nodes := nodes me @ [n], my_node := x\<rparr>)"
    if "raft_get_node me i = None" "raft_node_new k ud i v = Some n" "i \<noteq> RAFT_NODE_ID_NONE" for k n x
    using raft_get_node_NoneD[OF that(1)] raft_node_new_SomeD[OF that(2)] that(3)
    by (auto simp: nodes_ok_def intro!: steps_one[OF assms(3) step_member] assms(2))
  from new[where x = "my_node me"] have "srv_steps c Q M s (me\<lparr>nodes := nodes me @ [n]\<rparr>)"
    if "raft_get_node me i = None" "raft_node_new k ud i v = Some n" "i \<noteq> RAFT_NODE_ID_NONE" for k n
    using that by simp
  with assms new show ?thesis
    by (auto simp: raft_add_node_internal_def option_do Let_def
        split: if_splits option.splits intro: steps op_steps)
qed

lemma set_remove_node_id: "set (remove_node_id i ns) \<subseteq> set ns"
  by (induction ns) auto

lemma nodes_ok_remove: "nodes_ok ns \<Longrightarrow> nodes_ok (remove_node_id i ns)"
  by (induction ns) (use set_remove_node_id in \<open>fastforce simp: nodes_ok_def\<close>)+

lemma raft_remove_node_steps [op_steps]:
  assumes "raft_remove_node c me node = Some me'" "may_change c M" "srv_steps c Q M s me"
  shows "srv_steps c Q M s me'"
proof -
  have rm: "srv_steps c Q M s (me1\<lparr>nodes := remove_node_id i (nodes me1)\<rparr>)" if "srv_steps c Q M s me1" for me1 i
    using steps_one[OF that step_member[OF nodes_ok_remove assms(2), where me = me1 and x = "my_node me1"]] by simp
  from assms(1,3) show ?thesis
    by (auto simp: raft_remove_node_def option_do Let_def split: if_splits
        intro!: steps_vol rm call_notify_membership_steps)
qed

lemma raft_handle_append_cfg_change_steps [op_steps]:
  "raft_handle_append_cfg_change c me ety i = Some me' \<Longrightarrow> srv_steps c Q M s me \<Longrightarrow> srv_steps c Q M s me'"
  by (auto simp: raft_handle_append_cfg_change_def Let_def elim!: do_elims)
    (assumption | rule steps | (rule call_steps, assumption, assumption) | (rule op_steps, assumption))+

lemma raft_handle_remove_cfg_change_steps [op_steps]:
  "raft_handle_remove_cfg_change c me ety i = Some me' \<Longrightarrow> srv_steps c Q M s me \<Longrightarrow> srv_steps c Q M s me'"
  by (auto simp: raft_handle_remove_cfg_change_def Let_def elim!: do_elims)
    (assumption | rule steps | (rule call_steps, assumption, assumption) | (rule op_steps, assumption))+

lemma raft_handle_apply_cfg_change_steps [op_steps]:
  "raft_handle_apply_cfg_change c me ety i = Some me' \<Longrightarrow> srv_steps c Q M s me \<Longrightarrow> srv_steps c Q M s me'"
  by (auto simp: raft_handle_apply_cfg_change_def Let_def elim!: do_elims)
    (assumption | rule steps | (rule call_steps, assumption, assumption) | (rule op_steps, assumption))+

lemma raft_append_entry_steps [op_steps]:
  "raft_append_entry c me ety = Some (e, me') \<Longrightarrow> srv_steps c Q M s me \<Longrightarrow> srv_steps c Q M s me'"
  by (auto simp: raft_append_entry_def Let_def elim!: do_elims)
    (assumption | rule steps | (rule steps_one[OF _ step_append], assumption, assumption, assumption) |
     (rule op_steps, assumption))+

lemma raft_get_entries_steps [op_steps]:
  "raft_get_entries c me n i = Some (es, me') \<Longrightarrow> srv_steps c Q M s me \<Longrightarrow> srv_steps c Q M s me'"
  by (auto simp: raft_get_entries_def Let_def elim!: do_elims)
    (assumption | rule steps | (rule call_steps, assumption, assumption) | (rule op_steps, assumption))+

lemma call_backpressure_steps [op_steps]:
  "call_backpressure c me n = (r, me') \<Longrightarrow> srv_steps c Q M s me \<Longrightarrow> srv_steps c Q M s me'"
  by (auto simp: call_backpressure_def Let_def elim!: do_elims)
    (assumption | rule steps | (rule call_steps, assumption, assumption) | (rule op_steps, assumption))+

lemma raft_send_snapshot_loop_steps:
  "raft_send_snapshot_loop c f me node = Some r \<Longrightarrow> cb_send_snapshot c = Some f \<Longrightarrow> srv_steps c Q M s me \<Longrightarrow>
   srv_steps c Q M s (snd r)"
proof (induction rule: raft_send_snapshot_loop.raw_induct[rotated, consumes 1, case_names loop])
  case (loop rec c f me node r)
  from loop.hyps loop.prems show ?case
    by (auto simp: Let_def elim!: do_elims)
      (assumption | rule steps | (rule call_steps, assumption, assumption) | (rule op_steps, assumption) |
       (rule loop.IH, assumption))+
qed

lemma raft_send_snapshot_steps [op_steps]:
  "raft_send_snapshot c me node = Some (e, me') \<Longrightarrow> srv_steps c Q M s me \<Longrightarrow> srv_steps c Q M s me'"
  using raft_send_snapshot_loop_steps
  by (fastforce simp: raft_send_snapshot_def split: option.splits)

lemma raft_send_appendentries_loop_steps:
  "raft_send_appendentries_loop c f me node = Some r \<Longrightarrow> cb_send_appendentries c = Some f \<Longrightarrow>
   srv_steps c Q M s me \<Longrightarrow> srv_steps c Q M s (snd r)"
proof (induction rule: raft_send_appendentries_loop.raw_induct[rotated, consumes 1, case_names loop])
  case (loop rec c f me node r)
  from loop.hyps loop.prems show ?case
    by (auto simp: Let_def elim!: do_elims)
      (assumption | rule steps | (rule call_steps, assumption, assumption) | (rule op_steps, assumption) |
       (rule loop.IH, assumption))+
qed

lemma raft_send_appendentries_steps [op_steps]:
  "raft_send_appendentries c me node = Some (e, me') \<Longrightarrow> srv_steps c Q M s me \<Longrightarrow> srv_steps c Q M s me'"
  using raft_send_appendentries_loop_steps
  by (fastforce simp: raft_send_appendentries_def option_do split: if_split_asm option.split_asm
      intro: op_steps)

lemma for_nodes_steps:
  "for_nodes f is x = Some y \<Longrightarrow> srv_steps c Q M s x \<Longrightarrow>
   (\<And>i x y. f x i = Some y \<Longrightarrow> srv_steps c Q M s x \<Longrightarrow> srv_steps c Q M s y) \<Longrightarrow> srv_steps c Q M s y"
  by (rule for_nodes_inv)

lemma raft_send_appendentries_all_steps [op_steps]:
  "raft_send_appendentries_all c me = Some (e, me') \<Longrightarrow> srv_steps c Q M s me \<Longrightarrow> srv_steps c Q M s me'"
  unfolding raft_send_appendentries_all_def
  by (drule for_nodes_inv[where P = "\<lambda>(r, me). srv_steps c Q M s me"])
    (auto elim!: do_elims intro: op_steps)

lemma raft_send_requestvote_steps [op_steps]:
  "raft_send_requestvote c me node = Some (e, me') \<Longrightarrow> srv_steps c Q M s me \<Longrightarrow> srv_steps c Q M s me'"
  by (auto simp: raft_send_requestvote_def Let_def elim!: do_elims)
    (assumption | rule steps | (rule call_steps, assumption, assumption) | (rule op_steps, assumption))+

lemma call_notify_state_steps [steps]:
  "srv_steps c Q M s me \<Longrightarrow> srv_steps c Q M s (call_notify_state c me st)"
  by (auto simp: call_notify_state_def split: option.splits intro: event_steps)

lemma raft_reset_transfer_leader_steps [steps]:
  "srv_steps c Q M s me \<Longrightarrow> srv_steps c Q M s (raft_reset_transfer_leader c me b)"
  by (auto simp: raft_reset_transfer_leader_def Let_def split: option.splits
      intro!: steps intro: event_steps)

lemma raft_become_follower_after:
  "raft_become_follower c me = Some me' \<Longrightarrow> srv_steps c Q M s (me\<lparr>state := RAFT_STATE_FOLLOWER\<rparr>) \<Longrightarrow>
   srv_steps c Q M s me'"
  by (auto simp: raft_become_follower_def raft_set_state_def Let_def elim!: do_elims)
    (assumption | rule steps | (rule op_steps, assumption))+

lemma steps_yield: "srv_steps c Q M s me \<Longrightarrow> srv_steps c Q M s (me\<lparr>state := RAFT_STATE_FOLLOWER\<rparr>)"
  by (auto intro: steps_one[OF _ step_yield])

lemma raft_become_follower_steps [op_steps]:
  "raft_become_follower c me = Some me' \<Longrightarrow> srv_steps c Q M s me \<Longrightarrow> srv_steps c Q M s me'"
  by (auto intro: raft_become_follower_after steps_yield)

text \<open>The same in the form in which the elimination rules leave the paths through a handler.\<close>

lemma new_term_steps:
  "raft_set_current_term c me t = (e, me1) \<Longrightarrow> branch (e \<noteq> 0) False \<Longrightarrow> branch (current_term me < t) True \<Longrightarrow>
   srv_steps c Q M s me \<Longrightarrow> srv_steps c Q M s (me1\<lparr>state := RAFT_STATE_FOLLOWER\<rparr>)"
  by (auto intro: set_term_yield_steps)

lemma new_term_failed_steps:
  "raft_set_current_term c me t = (e, me1) \<Longrightarrow> branch (e \<noteq> 0) True \<Longrightarrow> srv_steps c Q M s me \<Longrightarrow>
   srv_steps c Q M s me1"
  by (auto intro: set_term_fail_steps)

lemma clear_votes_steps [steps]: "srv_steps c Q M s me \<Longrightarrow> srv_steps c Q M s (clear_votes me)"
  unfolding clear_votes_def by (erule step_node_map) (simp_all add: next_idx_set)

lemma request_votes_steps [op_steps]:
  "request_votes c me = Some me' \<Longrightarrow> srv_steps c Q M s me \<Longrightarrow> srv_steps c Q M s me'"
  unfolding request_votes_def
  by (erule for_nodes_steps) (auto elim!: do_elims intro: op_steps)

lemma raft_become_precandidate_steps [op_steps]:
  "raft_become_precandidate c me = Some (e, me') \<Longrightarrow> srv_steps c Q M s me \<Longrightarrow> srv_steps c Q M s me'"
  by (auto simp: raft_become_precandidate_def Let_def elim!: do_elims)
    (assumption | rule steps | (rule call_steps, assumption, assumption) | (rule op_steps, assumption))+

lemma voted_for_after_new_term:
  "raft_set_current_term c me t = (0, me') \<Longrightarrow> current_term me < t \<Longrightarrow>
   current_term me' = t \<and> voted_for me' = RAFT_NODE_ID_NONE"
  by (auto simp: raft_set_current_term_def split: if_splits prod.splits)

lemma raft_vote_frame:
  assumes "raft_vote c me n = (0, me')"
  shows "\<exists>u. me' = me\<lparr>udata := u, voted_for := node_id n\<rparr>"
proof -
  obtain me1 where "call_persist_metadata c me (current_term me) (node_id n) = (0, me1)"
    and "me' = me1\<lparr>voted_for := node_id n\<rparr>"
    using assms by (auto simp: raft_vote_def raft_vote_for_nodeid_def split: prod.splits if_splits)
  then show ?thesis by (auto dest!: call_persist_frame)
qed

lemma may_stand_clear_votes:
  assumes "deref_my_node (clear_votes me) = Some n"
  shows "\<not> raft_node_is_voting n \<Longrightarrow> may_stand (clear_votes me\<lparr>leader_id := k\<rparr>)"
    "raft_vote c (clear_votes me) n = (0, me') \<Longrightarrow> may_stand (me'\<lparr>leader_id := k\<rparr>)"
  using assms
  by (auto simp: may_stand_def deref_my_node_def raft_get_node_def clear_votes_def dest!: raft_vote_frame)

lemma may_stand_state [simp]: "may_stand (me\<lparr>state := st\<rparr>) = may_stand me"
  by (simp add: may_stand_def deref_my_node_def raft_get_node_def cong: option.case_cong)

lemma clear_votes_state: "clear_votes (me\<lparr>state := st\<rparr>) = (clear_votes me)\<lparr>state := st\<rparr>"
  by (simp add: clear_votes_def)

lemma raft_vote_failed: "raft_vote c me n = (e, me') \<Longrightarrow> e \<noteq> 0 \<Longrightarrow> may_fail c"
  by (auto simp: raft_vote_def raft_vote_for_nodeid_def call_persist_metadata_def may_fail_def elim!: do_elims)
    (metis fst_conv)

text \<open>The server stands for election as if it had left its old role first.\<close>

lemma raft_vote_self_steps:
  assumes "raft_set_current_term c me (current_term me + 1) = (0, me1)" "raft_vote c (clear_votes me1) n = (e, me2)"
    and "srv_steps c Q M s me"
  shows "e \<noteq> 0 \<Longrightarrow> srv_steps c Q M s me2"
    "e = 0 \<Longrightarrow> srv_steps c Q M s (me2\<lparr>state := RAFT_STATE_PRECANDIDATE\<rparr>)"
proof -
  have none: "voted_for (clear_votes me1) = RAFT_NODE_ID_NONE"
    using voted_for_after_new_term[OF assms(1)] by (simp add: clear_votes_def)
  show "srv_steps c Q M s me2" if "e \<noteq> 0"
    using raft_set_current_term_steps[OF assms(1) _ assms(3)] raft_vote_failed[OF assms(2) that] none assms(2)
    by (auto simp: term_state_def raft_vote_def intro!: clear_votes_steps intro: raft_vote_for_nodeid_steps)
  assume "e = 0"
  then obtain me3 where me3: "call_persist_metadata c (clear_votes me1) (current_term me1) (node_id n) = (0, me3)"
    and me2: "me2 = me3\<lparr>voted_for := node_id n\<rparr>"
    using assms(2) by (auto simp: raft_vote_def raft_vote_for_nodeid_def clear_votes_def split: prod.splits if_splits)
  let ?P = "(clear_votes me1)\<lparr>state := RAFT_STATE_PRECANDIDATE\<rparr>"
  have "srv_steps c Q M s (clear_votes (me1\<lparr>state := RAFT_STATE_PRECANDIDATE\<rparr>))"
    by (rule clear_votes_steps, rule set_term_yield_steps[OF assms(1) _ assms(3)]) simp
  then have "srv_steps c Q M s ?P" by (simp only: clear_votes_state)
  moreover have "?P\<lparr>state := state me1\<rparr> = clear_votes me1" by (simp add: clear_votes_def)
  moreover have "state ?P = RAFT_STATE_PRECANDIDATE" "current_term ?P = current_term me1" "voted_for ?P = RAFT_NODE_ID_NONE"
    using none by (simp_all add: clear_votes_def)
  ultimately show "srv_steps c Q M s (me2\<lparr>state := RAFT_STATE_PRECANDIDATE\<rparr>)"
    using steps_one[OF _ step_vote[where me = ?P and st = "state me1" and v = "node_id n" and me' = me3]] me3 me2 by simp
qed

lemma raft_become_candidate_steps [op_steps]:
  assumes "raft_become_candidate c me = Some (e, me')" "srv_steps c Q M s me"
  shows "srv_steps c Q M s me'"
proof -
  have stand: "srv_steps c Q M s (me2\<lparr>leader_id := k, state := RAFT_STATE_CANDIDATE\<rparr>)"
    if "srv_steps c Q M s (me2\<lparr>state := RAFT_STATE_PRECANDIDATE\<rparr>)" "may_stand (me2\<lparr>leader_id := k\<rparr>)" for me2 k
  proof -
    have "srv_steps c Q M s (me2\<lparr>state := RAFT_STATE_PRECANDIDATE, leader_id := k\<rparr>)"
      using that(1) by (rule steps_vol)
    moreover have "may_stand (me2\<lparr>state := RAFT_STATE_PRECANDIDATE, leader_id := k\<rparr>)"
      using that(2) by (simp add: may_stand_def deref_my_node_def raft_get_node_def cong: option.case_cong)
    ultimately show ?thesis using steps_one[OF _ step_stand] by fastforce
  qed
  have clear: "srv_steps c Q M s ((clear_votes me1)\<lparr>state := RAFT_STATE_PRECANDIDATE\<rparr>)"
    if "raft_set_current_term c me (current_term me + 1) = (0, me1)" for me1
    using clear_votes_steps[OF set_term_yield_steps(2)[OF that _ assms(2)]] by (simp add: clear_votes_state)
  from assms show ?thesis
    by (auto simp: raft_become_candidate_def raft_set_state_def Let_def elim!: do_elims)
      (assumption | (rule set_term_fail_steps, assumption, assumption) |
       (rule raft_vote_self_steps, assumption, assumption) | (rule stand) | (rule clear, assumption) |
       (rule may_stand_clear_votes, assumption, assumption) | rule steps | (rule op_steps, assumption) | rule refl)+
qed

lemma raft_entry_new_steps [op_steps]:
  "raft_entry_new c me d = (ety, me') \<Longrightarrow> srv_steps c Q M s me \<Longrightarrow> srv_steps c Q M s me'"
  by (auto simp: raft_entry_new_def split: prod.splits intro: op_steps)

lemma li_sync_steps [op_steps]:
  "li_sync (impl c) (log_st me) = Some (e, l) \<Longrightarrow> srv_steps c Q M s me \<Longrightarrow> srv_steps c Q M s (me\<lparr>log_st := l\<rparr>)"
  by (blast intro: steps_one step_sync)

lemma raft_append_entry_frame:
  "raft_append_entry c me ety = Some (e, me') \<Longrightarrow> \<not> raft_entry_is_cfg_change ety \<Longrightarrow>
   nodes me' = nodes me \<and> my_node me' = my_node me \<and> state me' = state me \<and>
   current_term me' = current_term me \<and> voted_for me' = voted_for me"
  by (auto simp: raft_append_entry_def Let_def elim!: do_elims dest: voting_cfg_change_is_cfg_change)

lemma no_op_not_cfg_change [simp]:
  "\<not> raft_entry_is_cfg_change (ety\<lparr>ety_term := t, ety_type := RAFT_LOGTYPE_NO_OP\<rparr>)"
  by (simp add: raft_entry_is_cfg_change_def)

lemma may_lead_before_set_state:
  assumes "may_lead me" "raft_entry_new c me d = (noop, me1)"
    "raft_append_entry c me1 (noop\<lparr>ety_term := t, ety_type := RAFT_LOGTYPE_NO_OP\<rparr>) = Some (e, me2)"
    "upd_node i (raft_node_set_match_idx k) (me2\<lparr>log_st := l\<rparr>) = Some me3"
  shows "may_lead (me3\<lparr>next_sync_index := j\<rparr>)"
    "raft_set_commit_idx c (me3\<lparr>next_sync_index := j\<rparr>) m = Some me4 \<Longrightarrow> may_lead me4"
proof -
  have me1: "nodes me1 = nodes me \<and> my_node me1 = my_node me \<and> state me1 = state me"
    using assms(2) by (auto simp: raft_entry_new_def split: prod.splits)
  have me2: "nodes me2 = nodes me1 \<and> my_node me2 = my_node me1 \<and> state me2 = state me1"
    using raft_append_entry_frame[OF assms(3)] by simp
  have me3: "vote_view (nodes me3) = vote_view (nodes me2)" "my_node me3 = my_node me2" "state me3 = state me2"
    using upd_node_SomeD[OF assms(4)] by (auto intro!: vote_view_map split: if_splits)
  show "may_lead (me3\<lparr>next_sync_index := j\<rparr>)"
    using may_lead_cong[of "me3\<lparr>next_sync_index := j\<rparr>" me] assms(1) me1 me2 me3 by simp
  then show "raft_set_commit_idx c (me3\<lparr>next_sync_index := j\<rparr>) m = Some me4 \<Longrightarrow> may_lead me4"
    using may_lead_cong[of me4 "me3\<lparr>next_sync_index := j\<rparr>"]
    by (auto simp: raft_set_commit_idx_def elim!: do_elims)
qed

lemma raft_become_leader_steps [op_steps]:
  assumes "raft_become_leader c me = Some (e, me')" "may_lead me" "srv_steps c Q M s me"
  shows "srv_steps c Q M s me'"
proof -
  have loop: "srv_steps c Q M s y"
    if "for_nodes (\<lambda>me i. if my_node me = Some i then Some me
          else do {
            me \<leftarrow> upd_node i (raft_node_set_snapshot_offset 0) me;
            me \<leftarrow> upd_node i (raft_node_set_next_idx k) me;
            me \<leftarrow> upd_node i (raft_node_set_match_idx 0) me;
            (_, me) \<leftarrow> raft_send_appendentries c me i;
            Some me
          }) is x = Some y" "srv_steps c Q M s x" for k "is" x y
    using that(1)
    by (rule for_nodes_steps[OF _ that(2)])
      (auto elim!: do_elims,
       (assumption | rule steps | (rule op_steps, assumption))+)
  from assms(1,3) show ?thesis
    by (auto simp: raft_become_leader_def Let_def elim!: do_elims)
      (assumption | rule steps | (rule loop, assumption) |
       (rule raft_set_state_lead_steps, assumption) |
       (rule may_lead_before_set_state[OF assms(2)], assumption, assumption, assumption) |
       (rule op_steps, assumption))+
qed

lemma raft_election_start_steps [op_steps]:
  "raft_election_start c me b = Some (e, me') \<Longrightarrow> srv_steps c Q M s me \<Longrightarrow> srv_steps c Q M s me'"
  by (auto simp: raft_election_start_def Let_def elim!: do_elims)
    (assumption | rule steps | (rule call_steps, assumption, assumption) | (rule op_steps, assumption))+

lemma raft_accept_leader_after:
  assumes "raft_accept_leader c me i = Some me'" "srv_steps c Q M s (me\<lparr>state := RAFT_STATE_FOLLOWER\<rparr>)"
  shows "srv_steps c Q M s me'"
proof -
  obtain me1 where me1: "(if \<not> raft_is_follower me then raft_become_follower c me else Some me) = Some me1"
    and run: "(do { me \<leftarrow> (if leader_id me1 \<noteq> i
                then do { (_, me) \<leftarrow> raft_clear_incoming_snapshot c me1 0; Some me } else Some me1);
         let me = me\<lparr>timeout_elapsed := 0, leader_id := i\<rparr>;
         Some (raft_reset_transfer_leader c me False) }) = Some me'"
    using assms(1) unfolding raft_accept_leader_def by (auto elim!: bind_SomeE[of "if _ then _ else _"])
  have "srv_steps c Q M s me1"
  proof (cases "raft_is_follower me")
    case True
    then have "me\<lparr>state := RAFT_STATE_FOLLOWER\<rparr> = me" by simp
    with True me1 assms(2) show ?thesis by simp
  qed (use me1 assms(2) in \<open>auto intro: raft_become_follower_after\<close>)
  with run show ?thesis
    by (auto simp: Let_def elim!: do_elims) (assumption | rule steps | (rule op_steps, assumption))+
qed

lemma raft_timeout_now_steps [op_steps]:
  "raft_timeout_now c me = Some (e, me') \<Longrightarrow> srv_steps c Q M s me \<Longrightarrow> srv_steps c Q M s me'"
  by (auto simp: raft_timeout_now_def split: if_split_asm intro: op_steps)

lemma raft_time_millis_steps [op_steps]:
  "raft_time_millis c me = (t, me') \<Longrightarrow> srv_steps c Q M s me \<Longrightarrow> srv_steps c Q M s me'"
  by (auto simp: raft_time_millis_def elim!: do_elims)
    (assumption | rule steps | (rule call_steps, assumption, assumption) | (rule op_steps, assumption))+

lemma raft_set_pending_steps [steps]:
  "srv_steps c Q M s me \<Longrightarrow> srv_steps c Q M s (raft_set_pending me)"
  "srv_steps c Q M s me \<Longrightarrow> srv_steps c Q M s (raft_unset_pending me)"
  by (auto simp: raft_set_pending_def raft_unset_pending_def intro!: steps)

lemma raft_handle_remove_cfg_change_frame:
  assumes "raft_handle_remove_cfg_change c me ety i = Some me'"
  shows "commit_idx me' = commit_idx me \<and> log_st me' = log_st me"
proof -
  have rm: "commit_idx y = commit_idx x \<and> log_st y = log_st x" if "raft_remove_node c x n = Some y" for x y n
    using that by (auto simp: raft_remove_node_def call_notify_membership_def Let_def
        split: option.splits elim!: do_elims)
  from assms show ?thesis
    by (auto simp: raft_handle_remove_cfg_change_def Let_def elim!: do_elims dest!: upd_node_frame rm)
qed

lemma li_pop_steps:
  "li_pop (impl c) (log_st me) i = Some (e, l) \<Longrightarrow> commit_idx me < i \<Longrightarrow> srv_steps c Q M s me \<Longrightarrow>
   srv_steps c Q M s (me\<lparr>log_st := l\<rparr>)"
  by (blast intro: steps_one step_pop)

lemma li_pop_sync_steps:
  "li_pop (impl c) (log_st me) i = Some (e, l) \<Longrightarrow> li_sync (impl c) l = Some (e', l') \<Longrightarrow>
   commit_idx me < i \<Longrightarrow> srv_steps c Q M s me \<Longrightarrow> srv_steps c Q M s (me\<lparr>log_st := l'\<rparr>)"
  using li_sync_steps[of c "me\<lparr>log_st := l\<rparr>" e' l' Q M s] li_pop_steps[of c me i e l Q M s] by simp

lemma raft_delete_entry_loop_steps:
  "raft_delete_entry_loop c me idx k = Some (e, me') \<Longrightarrow> commit_idx me < idx \<Longrightarrow> srv_steps c Q M s me \<Longrightarrow>
   srv_steps c Q M s me'"
proof (induction c me idx k rule: raft_delete_entry_loop.induct)
  case (1 c me idx k)
  note run = "1.prems"(1)[unfolded raft_delete_entry_loop.simps[of c me]]
  show ?case
  proof (cases "idx \<le> k")
    case False
    with run "1.prems" show ?thesis by (auto elim!: do_elims intro: op_steps)
  next
    case True
    have rec: "srv_steps c Q M s me'"
      if "raft_get_entry_from_idx c me k = Some (Some ety)" "li_pop (impl c) (log_st me) k = Some (0, l)"
        "raft_handle_remove_cfg_change c (me\<lparr>log_st := l\<rparr>) ety k = Some me1"
        "raft_delete_entry_loop c (if voting_cfg_change_log_idx me1 = k
           then me1\<lparr>voting_cfg_change_log_idx := - 1\<rparr> else me1) idx (k - 1) = Some (e, me')" for ety l me1
    proof (rule "1.IH")
      have "srv_steps c Q M s me1"
        by (rule raft_handle_remove_cfg_change_steps[OF that(3) li_pop_steps[OF that(2)]])
          (use "1.prems" True in auto)
      then show "srv_steps c Q M s (if voting_cfg_change_log_idx me1 = k
          then me1\<lparr>voting_cfg_change_log_idx := - 1\<rparr> else me1)"
        by (intro steps)
    qed (use that True "1.prems"(2) raft_handle_remove_cfg_change_frame[OF that(3)] in auto)
    from True run "1.prems"(2,3) show ?thesis
      by (auto simp: Let_def elim!: do_elims intro: rec li_pop_sync_steps[OF _ _ order.strict_trans2])
  qed
qed

lemma raft_delete_entry_from_idx_steps [op_steps]:
  "raft_delete_entry_from_idx c me idx = Some (e, me') \<Longrightarrow> srv_steps c Q M s me \<Longrightarrow> srv_steps c Q M s me'"
  by (auto simp: raft_delete_entry_from_idx_def Let_def elim!: do_elims
      intro: raft_delete_entry_loop_steps)

lemma raft_apply_entry_steps [op_steps]:
  assumes "raft_apply_entry c me = Some (e, me')" "srv_steps c Q M s me"
  shows "srv_steps c Q M s me'"
proof -
  let ?i = "last_applied_idx me + 1"
  have fail: "srv_steps c Q M s (me\<lparr>udata := u\<rparr>)"
    if "cb_applylog c = Some f" "raft_get_entry_from_idx c me ?i = Some (Some ety)"
       "f me ety ?i = (- 4, u)" for f ety u
    using steps_one[OF assms(2) step_apply_fail[OF that]] by simp
  have ok: "srv_steps c Q M s (me\<lparr>udata := u, last_applied_idx := ?i, last_applied_term := ety_term ety\<rparr>)"
    if "cb_applylog c = Some f" "raft_get_entry_from_idx c me ?i = Some (Some ety)"
       "f me ety ?i = (0, u)" "last_applied_idx me \<noteq> commit_idx me" for f ety u
    using that by (auto intro!: steps_one[OF assms(2) step_apply])
  have none: "srv_steps c Q M s (me\<lparr>last_applied_idx := ?i, last_applied_term := ety_term ety\<rparr>)"
    if "cb_applylog c = None" "raft_get_entry_from_idx c me ?i = Some (Some ety)"
       "last_applied_idx me \<noteq> commit_idx me" for ety
    using steps_one[OF assms(2) step_apply[OF that(3,2), of "udata me"]] that(1) by simp
  from assms show ?thesis
    by (auto simp: raft_apply_entry_def Let_def elim!: do_elims split del: if_split)
      (assumption | rule steps | (rule fail, assumption, assumption, assumption) |
       (rule ok, assumption, assumption, assumption, assumption) |
       (rule none, assumption, assumption, assumption) | (rule op_steps, assumption))+
qed

lemma raft_apply_all_loop_steps:
  "raft_apply_all_loop c me = Some r \<Longrightarrow> srv_steps c Q M s me \<Longrightarrow> srv_steps c Q M s (snd r)"
proof (induction rule: raft_apply_all_loop.raw_induct[rotated, consumes 1, case_names loop])
  case (loop rec c me r)
  from loop.hyps loop.prems show ?case
    by (auto simp: Let_def elim!: do_elims)
      (assumption | rule steps | (rule op_steps, assumption) | (rule loop.IH, assumption))+
qed

lemma raft_apply_all_steps [op_steps]:
  "raft_apply_all c me = Some (e, me') \<Longrightarrow> srv_steps c Q M s me \<Longrightarrow> srv_steps c Q M s me'"
  using raft_apply_all_loop_steps[of c me "(e, me')" Q M s]
  by (auto simp: raft_apply_all_def elim!: do_elims)

lemma pop_read_queue_steps [op_steps]:
  "pop_read_queue c me b = Some me' \<Longrightarrow> srv_steps c Q M s me \<Longrightarrow> srv_steps c Q M s me'"
  by (auto simp: pop_read_queue_def elim!: do_elims intro!: steps event_steps)

lemma raft_drop_reads_steps [op_steps]:
  "raft_drop_reads c me = Some me' \<Longrightarrow> srv_steps c Q M s me \<Longrightarrow> srv_steps c Q M s me'"
proof (induction rule: raft_drop_reads.raw_induct[rotated, consumes 1, case_names loop])
  case (loop rec c me r)
  from loop.hyps loop.prems show ?case
    by (auto elim!: do_elims) (rule loop.IH, assumption, rule op_steps, assumption, assumption)
qed

lemma raft_serve_reads_steps [op_steps]:
  "raft_serve_reads c k me = Some me' \<Longrightarrow> srv_steps c Q M s me \<Longrightarrow> srv_steps c Q M s me'"
proof (induction rule: raft_serve_reads.raw_induct[rotated, consumes 1, case_names loop])
  case (loop rec c k me r)
  from loop.hyps loop.prems show ?case
    by (auto simp: Let_def elim!: do_elims)
      (assumption | rule steps | (rule op_steps, assumption) | (rule loop.IH, assumption))+
qed

lemma raft_process_read_queue_steps [op_steps]:
  "raft_process_read_queue c me = Some me' \<Longrightarrow> srv_steps c Q M s me \<Longrightarrow> srv_steps c Q M s me'"
  by (auto simp: raft_process_read_queue_def elim!: do_elims intro: op_steps)

lemma raft_exec_operations_steps [op_steps]:
  "raft_exec_operations c me = Some (e, me') \<Longrightarrow> srv_steps c Q M s me \<Longrightarrow> srv_steps c Q M s me'"
  by (auto simp: raft_exec_operations_def Let_def elim!: do_elims)
    (assumption | rule steps | (rule call_steps, assumption, assumption) | (rule op_steps, assumption))+

lemma raft_update_commit_idx_steps [op_steps]:
  "raft_update_commit_idx c me = Some me' \<Longrightarrow> srv_steps c Q M s me \<Longrightarrow> srv_steps c Q M s me'"
  by (auto simp: raft_update_commit_idx_def Let_def elim!: do_elims intro: op_steps)

lemma raft_get_index_to_sync_steps [op_steps]:
  "raft_get_index_to_sync c me = (i, me') \<Longrightarrow> srv_steps c Q M s me \<Longrightarrow> srv_steps c Q M s me'"
  by (auto simp: raft_get_index_to_sync_def Let_def split: if_splits intro: steps)

lemma raft_flush_steps [op_steps]:
  assumes "raft_flush c me i = Some (e, me')" "srv_steps c Q M s me"
  shows "srv_steps c Q M s me'"
proof -
  have loop: "srv_steps c Q M s y"
    if "for_nodes (\<lambda>me i. if my_node me = Some i then Some me
          else do {
            n \<leftarrow> raft_get_node me i;
            if next_msgid n > k \<and> next_idx n > raft_get_current_idx c me then Some me
            else do { (_, me) \<leftarrow> raft_send_appendentries c me i; Some me }
          }) is x = Some y" "srv_steps c Q M s x" for k "is" x y
    using that(1)
    by (rule for_nodes_steps[OF _ that(2)]) (auto elim!: do_elims intro: op_steps)
  from assms show ?thesis
    by (auto simp: raft_flush_def Let_def elim!: do_elims split del: if_split)
      (assumption | rule steps | (rule op_steps, assumption) | (rule loop, assumption))+
qed

lemma raft_recv_read_request_steps [op_steps]:
  "raft_recv_read_request c me f = Some (e, me') \<Longrightarrow> srv_steps c Q M s me \<Longrightarrow> srv_steps c Q M s me'"
  by (auto simp: raft_recv_read_request_def Let_def elim!: do_elims)
    (assumption | rule steps | (rule call_steps, assumption, assumption) | (rule op_steps, assumption))+

lemma raft_periodic_timestamp_steps [op_steps]:
  "raft_periodic_timestamp c me ms = Some (ms', me') \<Longrightarrow> srv_steps c Q M s me \<Longrightarrow> srv_steps c Q M s me'"
  by (auto simp: raft_periodic_timestamp_def Let_def elim!: do_elims)
    (assumption | rule steps | (rule call_steps, assumption, assumption) | (rule op_steps, assumption))+

lemma may_lead_single:
  "raft_is_single_node_voting_cluster me = Some True \<Longrightarrow> raft_set_current_term c me t = (e, me') \<Longrightarrow> may_lead me'"
  using view_cong(3)[of me' me] by (auto simp: may_lead_def dest!: raft_set_current_term_frame)

lemma term_state_single: "raft_is_single_node_voting_cluster me = Some True \<Longrightarrow> term_state c M me (state me)"
  by (simp add: term_state_def)

lemma raft_periodic_single_node_steps [op_steps]:
  "raft_periodic_single_node c me = Some (e, me') \<Longrightarrow> srv_steps c Q M s me \<Longrightarrow> srv_steps c Q M s me'"
  by (auto simp: raft_periodic_single_node_def Let_def elim!: do_elims)
    (assumption | rule steps | (rule may_lead_single, assumption, assumption) |
     (rule raft_set_current_term_steps, assumption) | (rule term_state_single, assumption) | (rule op_steps, assumption))+

lemma raft_periodic_state_steps [op_steps]:
  "raft_periodic_state c me ms = Some (e, me') \<Longrightarrow> srv_steps c Q M s me \<Longrightarrow> srv_steps c Q M s me'"
  by (auto simp: raft_periodic_state_def Let_def elim!: do_elims)
    (assumption | rule steps | (rule call_steps, assumption, assumption) | (rule op_steps, assumption))+

lemma raft_periodic_internal_steps [op_steps]:
  "raft_periodic_internal c me ms = Some (e, me') \<Longrightarrow> srv_steps c Q M s me \<Longrightarrow> srv_steps c Q M s me'"
  unfolding raft_periodic_internal_def Let_def
  by (auto elim!: do_elims split del: if_split)
    (assumption | rule steps | (rule call_steps, assumption, assumption) | (rule op_steps, assumption))+

lemma raft_periodic_steps [op_steps]:
  "raft_periodic c me = Some (e, me') \<Longrightarrow> srv_steps c Q M s me \<Longrightarrow> srv_steps c Q M s me'"
  by (auto simp: raft_periodic_def intro: op_steps)

lemma raft_recv_requestvote_term_steps [op_steps]:
  "raft_recv_requestvote_term c me req = Some (e, me') \<Longrightarrow> srv_steps c Q M s me \<Longrightarrow> srv_steps c Q M s me'"
  by (auto simp: raft_recv_requestvote_term_def Let_def elim!: do_elims)
    (assumption | (rule set_term_fail_steps, assumption, assumption) | (rule raft_become_follower_after, assumption) |
     (rule set_term_yield_steps, assumption, assumption))+

lemma raft_recv_requestvote_term_ge:
  "raft_recv_requestvote_term c me req = Some (0, me') \<Longrightarrow> \<not> rv_prevote req \<Longrightarrow>
   rv_term req \<le> current_term me'"
  by (auto simp: raft_recv_requestvote_term_def Let_def elim!: do_elims
      dest!: voted_for_after_new_term raft_become_follower_frame)

lemma raft_recv_requestvote_grant_steps:
  assumes "raft_recv_requestvote_grant c me req = Some (e, g, me')"
    and "\<not> rv_prevote req \<Longrightarrow> rv_term req \<le> current_term me" and "srv_steps c Q M s me"
  shows "srv_steps c Q M s me'"
proof -
  have vote: "srv_steps c Q M s me1"
    if "raft_vote_for_nodeid c me (rv_candidate_id req) = (e', me1)"
      "\<not> rv_prevote req" "\<not> rv_term req < current_term me"
      "\<not> (current_term me = rv_term req \<and> voted_for me \<noteq> - 1 \<and> voted_for me \<noteq> rv_candidate_id req)" for e' me1
    using that(2-4) assms(2) by (intro raft_vote_for_nodeid_steps[OF that(1) _ assms(3)]) auto
  from assms(1,3) show ?thesis
    unfolding raft_recv_requestvote_grant_def Let_def
    by (elim do_elims) (simp_all add: branch_def split: prod.splits, auto intro!: steps intro: vote)
qed

lemma raft_recv_requestvote_decide_steps [op_steps]:
  "raft_recv_requestvote_decide c me req = Some (e, g, me') \<Longrightarrow> srv_steps c Q M s me \<Longrightarrow> srv_steps c Q M s me'"
  by (auto simp: raft_recv_requestvote_decide_def elim!: do_elims
      intro: raft_recv_requestvote_grant_steps[OF _ raft_recv_requestvote_term_ge]
        raft_recv_requestvote_term_steps)

lemma raft_recv_requestvote_steps [op_steps]:
  "raft_recv_requestvote c me req = Some (e, resp, me') \<Longrightarrow> srv_steps c Q M s me \<Longrightarrow> srv_steps c Q M s me'"
  by (auto simp: raft_recv_requestvote_def Let_def elim!: do_elims split del: if_split)
    (assumption | rule steps | (rule call_steps, assumption, assumption) | (rule op_steps, assumption))+

lemma raft_recv_requestvote_response_steps:
  assumes "raft_recv_requestvote_response c me node resp = Some (e, me')" "srv_steps c Q M s me"
    and mark: "\<And>i. node = Some i \<Longrightarrow> \<not> rvr_prevote resp \<Longrightarrow> rvr_vote_granted resp \<Longrightarrow>
      rvr_request_term resp = current_term me \<Longrightarrow> may_mark M i (current_term me)"
  shows "srv_steps c Q M s me'"
proof -
  define me0 where "me0 =
    (let me = (if rvr_prevote resp then count_stat requestvote_prevote_resp_received_update me
               else count_stat requestvote_resp_received_update me)
     in if \<not> rvr_vote_granted resp then
          (if rvr_prevote resp then count_stat requestvote_prevote_req_failed_update me
           else count_stat requestvote_req_failed_update me)
        else me)"
  have me0: "srv_steps c Q M s me0"
    unfolding me0_def Let_def by (intro steps assms(2))
  have cur: "current_term me0 = current_term me" by (simp add: me0_def Let_def count_stat_def)
  let ?stale_prevote = "rvr_prevote resp \<and>
    (\<not> raft_is_precandidate me0 \<or> rvr_request_term resp \<noteq> current_term me0 + 1)"
  let ?stale_vote = "\<not> rvr_prevote resp \<and>
    (\<not> raft_is_candidate me0 \<or> rvr_request_term resp \<noteq> current_term me0)"
  let ?count = "\<lambda>me1. (case node of None \<Rightarrow> Some me0
    | Some i \<Rightarrow> upd_node i (raft_node_set_voted_for_me True) me0) = Some me1"
  have marked: "srv_steps c Q M s me1"
    if "?count me1" "branch ?stale_prevote False" "branch ?stale_vote False" "branch (rvr_vote_granted resp) True" for me1
    using that upd_node_mark_steps[OF _ _ me0] me0 mark cur by (cases node) auto
  have lead: "may_lead me1"
    if "?count me1" "branch ?stale_prevote False" "branch ?stale_vote False" "raft_get_nvotes_for_me me1 = Some v"
      "branch (raft_votes_is_majority (raft_get_num_voting_nodes me1) v) True" "branch (raft_is_precandidate me1) False"
    for me1 v
    using mark_vote[OF that(1)] that(2-) by (auto simp: may_lead_def won_vote_def)
  from assms(1) me0 show ?thesis
    unfolding raft_recv_requestvote_response_def Let_def me0_def[unfolded Let_def, symmetric]
    by (elim if_SomeE case_prod_SomeE bind_SomeE, simp_all only: option.inject prod.inject, elim conjE)
      (hypsubst | assumption | (rule marked, assumption, assumption, assumption, assumption) |
       (rule lead, assumption, assumption, assumption, assumption, assumption, assumption) |
       (rule new_term_steps, assumption, assumption, assumption) | (rule new_term_failed_steps, assumption, assumption) |
       (rule raft_become_follower_after, assumption) | (rule op_steps, assumption))+
qed

lemma raft_recv_ae_resp_fail_steps [op_steps]:
  "raft_recv_ae_resp_fail c me n resp = Some (e, me') \<Longrightarrow> srv_steps c Q M s me \<Longrightarrow> srv_steps c Q M s me'"
  by (auto simp: raft_recv_ae_resp_fail_def Let_def elim!: do_elims)
    (assumption | rule steps | (rule call_steps, assumption, assumption) | (rule op_steps, assumption))+

lemma raft_recv_ae_resp_transfer_steps [op_steps]:
  "raft_recv_ae_resp_transfer c me n resp = Some me' \<Longrightarrow> srv_steps c Q M s me \<Longrightarrow> srv_steps c Q M s me'"
  by (auto simp: raft_recv_ae_resp_transfer_def Let_def elim!: do_elims)
    (assumption | rule steps | (rule call_steps, assumption, assumption) | (rule op_steps, assumption))+

lemma raft_recv_ae_resp_sufficient_steps [op_steps]:
  "raft_recv_ae_resp_sufficient c me n resp = Some me' \<Longrightarrow> srv_steps c Q M s me \<Longrightarrow> srv_steps c Q M s me'"
  unfolding raft_recv_ae_resp_sufficient_def Let_def
  by (auto elim!: do_elims simp del: branch_def)
    (assumption | rule steps | (rule call_steps, assumption, assumption) | (rule op_steps, assumption))+

lemma raft_recv_ae_resp_success_steps [op_steps]:
  "raft_recv_ae_resp_success c me n resp = Some (e, me') \<Longrightarrow> srv_steps c Q M s me \<Longrightarrow> srv_steps c Q M s me'"
  by (auto simp: raft_recv_ae_resp_success_def Let_def elim!: do_elims)
    (assumption | rule steps | (rule call_steps, assumption, assumption) | (rule op_steps, assumption))+

lemma raft_recv_appendentries_response_steps [op_steps]:
  "raft_recv_appendentries_response c me node resp = Some (e, me') \<Longrightarrow> srv_steps c Q M s me \<Longrightarrow> srv_steps c Q M s me'"
  unfolding raft_recv_appendentries_response_def Let_def
  by (auto elim!: do_elims simp del: branch_def split del: if_split)
    (assumption | (rule new_term_steps, assumption, assumption, assumption) |
     (rule new_term_failed_steps, assumption, assumption) | rule steps | (rule call_steps, assumption, assumption) |
     (rule raft_become_follower_after, assumption) | (rule raft_accept_leader_after, assumption) |
     (rule op_steps, assumption) | rule steps_yield)+

lemma raft_recv_ae_match_steps [op_steps]:
  "raft_recv_ae_match c me idx cur es = Some (e, cur', rest, me') \<Longrightarrow> srv_steps c Q M s me \<Longrightarrow> srv_steps c Q M s me'"
  by (induction c me idx cur es rule: raft_recv_ae_match.induct)
    (auto elim!: do_elims split del: if_split intro: op_steps)

lemma raft_recv_ae_append_steps [op_steps]:
  "raft_recv_ae_append c me idx cur es = Some (e, cur', me') \<Longrightarrow> srv_steps c Q M s me \<Longrightarrow> srv_steps c Q M s me'"
  by (induction es arbitrary: me idx cur)
    (auto elim!: do_elims dest: raft_append_entry_steps[where Q = Q and s = s])

lemma raft_recv_ae_prev_steps [op_steps]:
  "raft_recv_ae_prev c me req = Some (e, ok, me') \<Longrightarrow> srv_steps c Q M s me \<Longrightarrow> srv_steps c Q M s me'"
  by (auto simp: raft_recv_ae_prev_def elim!: do_elims intro: op_steps)

lemma raft_recv_ae_store_steps [op_steps]:
  "raft_recv_ae_store c me req = Some (e, cur, me') \<Longrightarrow> srv_steps c Q M s me \<Longrightarrow> srv_steps c Q M s me'"
  unfolding raft_recv_ae_store_def Let_def
  by (auto elim!: do_elims simp del: branch_def split del: if_split)
    (assumption | rule steps | (rule call_steps, assumption, assumption) | (rule op_steps, assumption))+

lemma raft_recv_appendentries_body_steps [op_steps]:
  "raft_recv_appendentries_body c me req = Some (e, cur, me') \<Longrightarrow> srv_steps c Q M s me \<Longrightarrow> srv_steps c Q M s me'"
  unfolding raft_recv_appendentries_body_def Let_def
  by (auto elim!: do_elims simp del: branch_def split del: if_split)
    (assumption | (rule new_term_steps, assumption, assumption, assumption) |
     (rule new_term_failed_steps, assumption, assumption) | rule steps | (rule call_steps, assumption, assumption) |
     (rule raft_become_follower_after, assumption) | (rule raft_accept_leader_after, assumption) |
     (rule op_steps, assumption) | rule steps_yield)+

lemma update_leader_msg_id_steps [op_steps]:
  "update_leader_msg_id i m me = Some me' \<Longrightarrow> srv_steps c Q M s me \<Longrightarrow> srv_steps c Q M s me'"
  by (auto simp: update_leader_msg_id_def elim!: do_elims) (assumption | rule steps | (rule call_steps, assumption, assumption) | (rule op_steps, assumption))+

lemma raft_recv_appendentries_steps [op_steps]:
  "raft_recv_appendentries c me req = Some (e, resp, me') \<Longrightarrow> srv_steps c Q M s me \<Longrightarrow> srv_steps c Q M s me'"
  by (auto simp: raft_recv_appendentries_def Let_def elim!: do_elims split del: if_split)
    (assumption | rule steps | (rule call_steps, assumption, assumption) | (rule op_steps, assumption))+

lemma raft_recv_entry_steps [op_steps]:
  "raft_recv_entry c me ety = Some (e, r, me') \<Longrightarrow> srv_steps c Q M s me \<Longrightarrow> srv_steps c Q M s me'"
  unfolding raft_recv_entry_def Let_def
  by (auto elim!: do_elims simp del: branch_def split del: if_split)
    (assumption | rule steps | (rule call_steps, assumption, assumption) | (rule op_steps, assumption))+

lemma raft_recv_snapshot_response_steps [op_steps]:
  "raft_recv_snapshot_response c me node resp = Some (e, me') \<Longrightarrow> srv_steps c Q M s me \<Longrightarrow> srv_steps c Q M s me'"
  unfolding raft_recv_snapshot_response_def Let_def
  by (auto elim!: do_elims simp del: branch_def split del: if_split)
    (assumption | (rule new_term_steps, assumption, assumption, assumption) |
     (rule new_term_failed_steps, assumption, assumption) | rule steps | (rule call_steps, assumption, assumption) |
     (rule raft_become_follower_after, assumption) | (rule raft_accept_leader_after, assumption) |
     (rule op_steps, assumption) | rule steps_yield)+

section \<open>Snapshots\<close>

lemma begin_snapshot_steps [steps]:
  assumes "srv_steps c Q M s me"
  shows "srv_steps c Q M s (me\<lparr>snapshot_in_progress := b, next_snapshot_last_idx := last_applied_idx me,
    next_snapshot_last_term := last_applied_term me\<rparr>)"
  using steps_one[OF steps_vol(9)[OF assms, of b] step_begin_snapshot] by simp

lemma raft_begin_snapshot_steps [op_steps]:
  "raft_begin_snapshot c me = Some (e, me') \<Longrightarrow> srv_steps c Q M s me \<Longrightarrow> srv_steps c Q M s me'"
  by (auto simp: raft_begin_snapshot_def elim!: do_elims)
    (assumption | rule begin_snapshot_steps | (rule op_steps, assumption))+

lemma raft_end_snapshot_steps [op_steps]:
  assumes "raft_end_snapshot c me = Some (e, me')" "srv_steps c Q M s me"
  shows "srv_steps c Q M s me'"
proof -
  let ?me = "me\<lparr>snapshot_last_idx := next_snapshot_last_idx me, snapshot_last_term := next_snapshot_last_term me\<rparr>"
  have poll: "srv_steps c Q M s (?me\<lparr>log_st := l\<rparr>)"
    if "li_poll (impl c) (log_st me) (next_snapshot_last_idx me + 1) = Some (x, l)" for x l
    using that by (intro steps_one[OF steps_one[OF assms(2) step_end_snapshot] step_compact]) auto
  have sync: "srv_steps c Q M s (?me\<lparr>log_st := l'\<rparr>)"
    if "li_poll (impl c) (log_st me) (next_snapshot_last_idx me + 1) = Some (x, l)"
      "li_sync (impl c) l = Some (y, l')" for x l y l'
    using that(2) li_sync_steps[OF _ poll[OF that(1)], of y l'] by simp
  have loop: "srv_steps c Q M s z"
    if "for_nodes (\<lambda>me i. do {
            n \<leftarrow> raft_get_node me i;
            if my_node me = Some i \<or> \<not> raft_node_is_active n then Some me
            else do {
              me \<leftarrow> upd_node i (raft_node_set_snapshot_offset 0) me;
              if snapshot_last_idx me > 0 \<and> next_idx n \<le> snapshot_last_idx me
              then do { (_, me) \<leftarrow> raft_send_snapshot c me i; Some me }
              else Some me
            }
          }) is x = Some z" "srv_steps c Q M s x" for "is" x z
    using that(1)
    by (rule for_nodes_steps[OF _ that(2)])
      (auto elim!: do_elims, (assumption | rule steps | (rule op_steps, assumption))+)
  from assms show ?thesis
    by (auto simp: raft_end_snapshot_def Let_def elim!: do_elims)
      (assumption | (rule loop, assumption) | rule steps | (rule poll, assumption) |
       (rule sync, assumption, assumption))+
qed

lemma nodes_ok_singleton: "nodes_ok ns \<Longrightarrow> n \<in> set ns \<Longrightarrow> nodes_ok [raft_node_clear_flags n]"
  by (auto simp: nodes_ok_def raft_node_clear_flags_def)

lemma raft_load_install_steps:
  assumes "raft_load_install c me t i = Some me'" "srv_steps c Q M s me" "0 < i" "t \<le> current_term me"
    "last_applied_idx me \<le> i" "raft_get_current_idx c me \<le> i" "may_change c M"
  shows "srv_steps c Q M s me'"
proof -
  obtain l n where l: "li_reset (impl c) (log_st me) (i + 1) t = Some l" and n: "n \<in> set (nodes me)"
    and me': "me' = me\<lparr>log_st := l, commit_idx := max (commit_idx me) i, last_applied_term := t,
        last_applied_idx := i, next_snapshot_last_term := t, next_snapshot_last_idx := i,
        nodes := [raft_node_clear_flags n]\<rparr>"
    using assms(1) by (fastforce simp: raft_load_install_def raft_set_commit_idx_def deref_my_node_def
        Let_def max_def elim!: do_elims dest: raft_get_node_SomeD)
  show ?thesis
    unfolding me' using nodes_ok_singleton[OF _ n]
      steps_one[OF steps_one[OF assms(2) step_load[OF assms(3-6) l]]
        step_member[where ns = "[raft_node_clear_flags n]" and x = "my_node me"], OF _ assms(7)]
    by simp
qed

lemma raft_begin_load_snapshot_steps [op_steps]:
  assumes "raft_begin_load_snapshot c me t i = Some (e, me')" "M = None" "srv_steps c Q M s me"
  shows "srv_steps c Q M s me'"
proof (cases "t \<le> 0 \<or> i \<le> 0 \<or> i < last_applied_idx me \<or> i < raft_get_current_idx c me \<or> i \<le> snapshot_last_idx me")
  case True
  with assms show ?thesis by (auto simp: raft_begin_load_snapshot_def elim!: do_elims)
next
  case False
  obtain x me1 where run: "(if t > current_term me then raft_set_current_term c me t else (0, me)) = (x, me1)"
    by fastforce
  then have me1: "srv_steps c Q M s me1" "log_st me1 = log_st me" "last_applied_idx me1 = last_applied_idx me"
      "x = 0 \<longrightarrow> t \<le> current_term me1"
    using raft_set_current_term_steps[OF _ _ assms(3), of t] raft_set_current_term_frame[of c me t] assms(3)
    by (auto elim!: if_PairE simp: assms(2) term_state_def)
  from assms(1) False run have "x \<noteq> 0 \<and> me' = me1 \<or> x = 0 \<and> raft_load_install c me1 t i = Some me'"
    by (auto simp: raft_begin_load_snapshot_def elim!: bind_SomeE split: if_split_asm)
  with me1 False assms(2) show ?thesis
    by (auto simp: may_change_def raft_get_current_idx_def intro: raft_load_install_steps)
qed

lemma raft_end_load_snapshot_steps [op_steps]:
  assumes "raft_end_load_snapshot me = (e, me')" "srv_steps c Q M s me"
  shows "srv_steps c Q M s me'"
  using assms(1) adjust_nodes_steps[OF steps_one[OF assms(2) step_end_snapshot]]
  by (auto simp: raft_end_load_snapshot_def intro!: steps_count_stat)

lemma raft_cancel_snapshot_steps [op_steps]:
  "raft_cancel_snapshot me = (e, me') \<Longrightarrow> srv_steps c Q M s me \<Longrightarrow> srv_steps c Q M s me'"
  by (auto simp: raft_cancel_snapshot_def intro: steps)

section \<open>The rest\<close>

lemma raft_transfer_leader_steps [op_steps]:
  "raft_transfer_leader c me nid k = Some (e, me') \<Longrightarrow> srv_steps c Q M s me \<Longrightarrow> srv_steps c Q M s me'"
  unfolding raft_transfer_leader_def Let_def
  by (auto elim!: do_elims simp del: branch_def split del: if_split)
    (assumption | rule steps | (rule call_steps, assumption, assumption) | (rule op_steps, assumption))+

lemma raft_config_steps [op_steps]:
  "raft_config c me b cfg v = Some (e, r, me') \<Longrightarrow> srv_steps c Q M s me \<Longrightarrow> srv_steps c Q M s me'"
  by (cases cfg) (auto simp: raft_config_def Let_def elim!: do_elims, (assumption | rule steps | (rule call_steps, assumption, assumption) | (rule op_steps, assumption))+)

lemma raft_restore_log_loop_steps:
  "raft_restore_log_loop c me i = Some r \<Longrightarrow> srv_steps c Q M s me \<Longrightarrow> srv_steps c Q M s (snd r)"
proof (induction rule: raft_restore_log_loop.raw_induct[rotated, consumes 1, case_names loop])
  case (loop rec c me i r)
  from loop.hyps loop.prems show ?case
    by (auto simp: Let_def elim!: do_elims split del: if_split)
      (assumption | rule steps | (rule op_steps, assumption) | (rule loop.IH, assumption))+
qed

lemma raft_restore_log_steps [op_steps]:
  "raft_restore_log c me = Some (e, me') \<Longrightarrow> srv_steps c Q M s me \<Longrightarrow> srv_steps c Q M s me'"
  using raft_restore_log_loop_steps[of c me "snapshot_last_idx me + 1" "(e, me')" Q M s]
  by (auto simp: raft_restore_log_def elim!: do_elims)

section \<open>The load callback and the public interface\<close>

text \<open>
  What \<open>load_snapshot\<close> may do: its documentation asks the application to call
  \<open>raft_begin_load_snapshot\<close>, to add the nodes of the snapshot and to call
  \<open>raft_end_load_snapshot\<close>; in between it may change its own data, which \<open>Q\<close> bounds.
\<close>

inductive load_call ::
  "('l, 'u) raft_ctx \<Rightarrow> ('u \<Rightarrow> 'u \<Rightarrow> bool) \<Rightarrow> ('l, 'u) raft_server \<Rightarrow> ('l, 'u) raft_server \<Rightarrow> bool"
  for c Q where
  load_begin: "raft_begin_load_snapshot c me t i = Some (e, me') \<Longrightarrow> load_call c Q me me'"
| load_end: "raft_end_load_snapshot me = (e, me') \<Longrightarrow> load_call c Q me me'"
| load_add: "raft_add_node c me ud nid self = Some (p, me') \<Longrightarrow> load_call c Q me me'"
| load_add_non_voting: "raft_add_non_voting_node c me ud nid self = Some (p, me') \<Longrightarrow> load_call c Q me me'"
| load_user: "Q (udata me) u \<Longrightarrow> load_call c Q me (me\<lparr>udata := u\<rparr>)"

definition loads_with :: "('l, 'u) raft_ctx \<Rightarrow> ('u \<Rightarrow> 'u \<Rightarrow> bool) \<Rightarrow> bool" where
  "loads_with c Q \<longleftrightarrow>
     (\<forall>f me t i e me'. cb_load_snapshot c = Some f \<longrightarrow> f me t i = (e, me') \<longrightarrow> (load_call c Q)\<^sup>*\<^sup>* me me')"

lemma load_call_steps: "load_call c Q me me' \<Longrightarrow> M = None \<Longrightarrow> srv_steps c Q M me me'"
  by (induction rule: load_call.induct)
    (auto simp: raft_add_node_def raft_add_non_voting_node_def
      intro: raft_begin_load_snapshot_steps raft_end_load_snapshot_steps raft_add_node_internal_steps
        step_env)

lemma loads_with_steps:
  "loads_with c Q \<Longrightarrow> M = None \<Longrightarrow> cb_load_snapshot c = Some f \<Longrightarrow> f me t i = (e, me') \<Longrightarrow> srv_steps c Q M s me \<Longrightarrow>
   srv_steps c Q M s me'"
  unfolding loads_with_def
  by (metis (no_types, lifting) load_call_steps rtranclp_idemp predicate2I rtranclp_mono rtranclp_trans
      predicate2D)

lemma raft_recv_snapshot_body_steps:
  assumes "loads_with c Q" "M = None" "raft_recv_snapshot_body c me req = Some (e, lc, off, ok, me')" "srv_steps c Q M s me"
  shows "srv_steps c Q M s me'"
  using assms(3,4) unfolding raft_recv_snapshot_body_def Let_def
  by (auto elim!: do_elims simp del: branch_def split del: if_split)
    (assumption | (rule new_term_steps, assumption, assumption, assumption) |
     (rule new_term_failed_steps, assumption, assumption) | rule steps | (rule call_steps, assumption, assumption) |
     (rule raft_become_follower_after, assumption) | (rule raft_accept_leader_after, assumption) |
     (rule loads_with_steps[OF assms(1,2)], assumption, assumption) | (rule op_steps, assumption) | rule steps_yield)+

lemma raft_recv_snapshot_steps:
  assumes "loads_with c Q" "M = None" "raft_recv_snapshot c me req = Some (e, resp, me')" "srv_steps c Q M s me"
  shows "srv_steps c Q M s me'"
  using assms(3,4)
  by (auto simp: raft_recv_snapshot_def Let_def elim!: do_elims)
    (assumption | rule steps | (rule raft_recv_snapshot_body_steps[OF assms(1,2)], assumption) |
     (rule op_steps, assumption))+

text \<open>
  One call of a public function that changes the server; calls that abort make no step. Those of
  \<open>raft_op\<close> leave the membership to the log; the other ones are the answer to a vote request and the
  calls that replace or edit the node list.
\<close>

inductive raft_op :: "('l, 'u) raft_ctx \<Rightarrow> ('l, 'u) raft_server \<Rightarrow> ('l, 'u) raft_server \<Rightarrow> bool"
  for c where
  op_periodic: "raft_periodic_internal c me ms = Some (e, me') \<Longrightarrow> raft_op c me me'"
| op_recv_appendentries:
    "raft_recv_appendentries c me req = Some (e, resp, me') \<Longrightarrow> raft_op c me me'"
| op_recv_appendentries_response:
    "raft_recv_appendentries_response c me node aresp = Some (e, me') \<Longrightarrow> raft_op c me me'"
| op_recv_requestvote:
    "raft_recv_requestvote c me vreq = Some (e, vresp, me') \<Longrightarrow> raft_op c me me'"
| op_recv_snapshot_response:
    "raft_recv_snapshot_response c me node sresp = Some (e, me') \<Longrightarrow> raft_op c me me'"
| op_recv_entry: "raft_recv_entry c me ety = Some (e, r, me') \<Longrightarrow> raft_op c me me'"
| op_recv_read_request: "raft_recv_read_request c me cb = Some (e, me') \<Longrightarrow> raft_op c me me'"
| op_flush: "raft_flush c me i = Some (e, me') \<Longrightarrow> raft_op c me me'"
| op_exec_operations: "raft_exec_operations c me = Some (e, me') \<Longrightarrow> raft_op c me me'"
| op_apply_all: "raft_apply_all c me = Some (e, me') \<Longrightarrow> raft_op c me me'"
| op_process_read_queue: "raft_process_read_queue c me = Some me' \<Longrightarrow> raft_op c me me'"
| op_election_start: "raft_election_start c me skip = Some (e, me') \<Longrightarrow> raft_op c me me'"
| op_timeout_now: "raft_timeout_now c me = Some (e, me') \<Longrightarrow> raft_op c me me'"
| op_transfer_leader: "raft_transfer_leader c me nid k = Some (e, me') \<Longrightarrow> raft_op c me me'"
| op_reset_transfer_leader: "raft_op c me (raft_reset_transfer_leader c me b)"
| op_begin_snapshot: "raft_begin_snapshot c me = Some (e, me') \<Longrightarrow> raft_op c me me'"
| op_cancel_snapshot: "raft_cancel_snapshot me = (e, me') \<Longrightarrow> raft_op c me me'"
| op_end_snapshot: "raft_end_snapshot c me = Some (e, me') \<Longrightarrow> raft_op c me me'"
| op_get_index_to_sync: "raft_get_index_to_sync c me = (i, me') \<Longrightarrow> raft_op c me me'"
| op_config: "raft_config c me do_set cfg v = Some (e, r, me') \<Longrightarrow> raft_op c me me'"
| op_restore_log: "raft_restore_log c me = Some (e, me') \<Longrightarrow> raft_op c me me'"

inductive raft_api :: "('l, 'u) raft_ctx \<Rightarrow> ('l, 'u) raft_server \<Rightarrow> ('l, 'u) raft_server \<Rightarrow> bool"
  for c where
  api_op: "raft_op c me me' \<Longrightarrow> raft_api c me me'"
| api_recv_requestvote_response:
    "raft_recv_requestvote_response c me node vresp = Some (e, me') \<Longrightarrow> raft_api c me me'"
| api_recv_snapshot:
    "raft_recv_snapshot c me sreq = Some (e, sresp, me') \<Longrightarrow> raft_api c me me'"
| api_begin_load_snapshot:
    "raft_begin_load_snapshot c me t i = Some (e, me') \<Longrightarrow> raft_api c me me'"
| api_end_load_snapshot: "raft_end_load_snapshot me = (e, me') \<Longrightarrow> raft_api c me me'"
| api_add_node: "raft_add_node c me ud nid self = Some (p, me') \<Longrightarrow> raft_api c me me'"
| api_add_non_voting_node:
    "raft_add_non_voting_node c me ud nid self = Some (p, me') \<Longrightarrow> raft_api c me me'"
| api_remove_node: "raft_remove_node c me node = Some me' \<Longrightarrow> raft_api c me me'"

lemma raft_op_steps: "raft_op c me me' \<Longrightarrow> srv_steps c Q M me me'"
  unfolding raft_op.simps
  by (elim disjE exE conjE; hypsubst?) (rule steps_refl | rule steps | (rule op_steps, assumption))+

lemma raft_api_steps: "raft_api c me me' \<Longrightarrow> loads_with c Q \<Longrightarrow> srv_steps c Q None me me'"
  by (induction rule: raft_api.induct)
    (auto simp: raft_add_node_def raft_add_non_voting_node_def
      intro: raft_op_steps raft_recv_requestvote_response_steps raft_recv_snapshot_steps
        raft_begin_load_snapshot_steps raft_end_load_snapshot_steps raft_add_node_internal_steps
        raft_remove_node_steps)

lemma raft_api_star_steps: "(raft_api c)\<^sup>*\<^sup>* me me' \<Longrightarrow> loads_with c Q \<Longrightarrow> srv_steps c Q None me me'"
  by (induction rule: rtranclp_induct) (auto dest: raft_api_steps)

end
