(* ===== verification/Raft_Log.thy ===== *)
theory Raft_Log
  imports Raft_Log_Impl
begin

text \<open>
  The in-memory log of the raft library, \<open>deps/raft/src/raft_log.c\<close>: a ring buffer of entry
  pointers with a base index, grown by doubling, and its wrappers for \<open>raft_log_impl_t\<close>.

  \<open>lentries\<close> is the C array (NULL is \<open>None\<close>), \<open>lcb\<close> the optional callbacks, \<open>lraft\<close> the user data
  those callbacks reach through \<open>raft_get_udata(me->raft)\<close>. The heap function \<open>raft_calloc\<close> is a
  parameter that says whether an allocation of that many bytes succeeds.
\<close>

section \<open>The ring buffer\<close>

type_synonym 'u raft_logentry_event = "'u \<Rightarrow> raft_entry option \<Rightarrow> raft_index_t \<Rightarrow> int \<times> 'u"

record 'u raft_log_cbs =
  log_offer :: "'u raft_logentry_event option"
  log_poll_cb :: "'u raft_logentry_event option"
  log_pop_cb :: "'u raft_logentry_event option"
  log_clear :: "'u raft_logentry_event option"

record 'u raft_log =
  lsize :: raft_index_t
  lcount :: raft_index_t
  lfront :: raft_index_t
  lback :: raft_index_t
  lbase :: raft_index_t
  lentries :: "raft_entry option list"
  lcb :: "'u raft_log_cbs"
  lraft :: 'u

abbreviation (input) INITIAL_CAPACITY :: raft_index_t where "INITIAL_CAPACITY \<equiv> 10"
abbreviation (input) SIZEOF_PTR :: int where "SIZEOF_PTR \<equiv> 8"
abbreviation (input) SIZEOF_RAFT_LOG :: int where "SIZEOF_RAFT_LOG \<equiv> 88"

text \<open>A callback slot of the structure: nothing happens when it is NULL.\<close>

definition call_log_cb ::
  "'u raft_logentry_event option \<Rightarrow> raft_entry option \<Rightarrow> raft_index_t \<Rightarrow> 'u raft_log \<Rightarrow> int \<times> 'u raft_log" where
  "call_log_cb cb ety idx me =
     (case cb of
        None \<Rightarrow> (0, me)
      | Some f \<Rightarrow> (let (e, u) = f (lraft me) ety idx in (e, me\<lparr>lraft := u\<rparr>)))"

definition log_mod :: "raft_index_t \<Rightarrow> raft_index_t \<Rightarrow> raft_index_t option" where
  "log_mod a b = do { r \<leftarrow> c_rem a b; Some (if r < 0 then r + b else r) }"

function ensure_capacity_copy ::
  "'u raft_log \<Rightarrow> raft_index_t \<Rightarrow> raft_index_t \<Rightarrow> raft_entry option list \<Rightarrow> raft_entry option list option" where
  "ensure_capacity_copy me i j temp =
     (if i < lcount me then
        (let j = (if j = lsize me then 0 else j)
         in do {
           x \<leftarrow> arr_get (lentries me) j;
           temp \<leftarrow> arr_set temp i x;
           ensure_capacity_copy me (i + 1) (j + 1) temp
         })
      else Some temp)"
  by pat_completeness auto
termination
  by (relation "measure (\<lambda>(me, i, j, temp). nat (lcount me - i))") auto

declare ensure_capacity_copy.simps [simp del]

definition ensure_capacity :: "(int \<Rightarrow> bool) \<Rightarrow> 'u raft_log \<Rightarrow> (int \<times> 'u raft_log) option" where
  "ensure_capacity raft_calloc me =
     (if lcount me < lsize me then Some (0, me)
      else if \<not> raft_calloc (SIZEOF_PTR * lsize me * 2) then Some (RAFT_ERR_NOMEM, me)
      else do {
        temp \<leftarrow> ensure_capacity_copy me 0 (lfront me) (replicate (nat (lsize me * 2)) None);
        Some (0, me\<lparr>lsize := lsize me * 2, lentries := temp, lfront := 0, lback := lcount me\<rparr>)
      })"

definition raft_log_clear :: "'u raft_log \<Rightarrow> 'u raft_log" where
  "raft_log_clear me = me\<lparr>lcount := 0, lback := 0, lfront := 0, lbase := 0\<rparr>"

function raft_log_clear_entries_loop ::
  "'u raft_log \<Rightarrow> raft_index_t \<Rightarrow> 'u raft_log option" where
  "raft_log_clear_entries_loop me i =
     (if i \<le> lbase me + lcount me then
        do {
          k \<leftarrow> c_rem (lfront me + i - lbase me) (lsize me);
          x \<leftarrow> arr_get (lentries me) k;
          let u = (case log_clear (lcb me) of None \<Rightarrow> lraft me | Some f \<Rightarrow> snd (f (lraft me) x i));
          raft_log_clear_entries_loop (me\<lparr>lraft := u\<rparr>) (i + 1)
        }
      else Some me)"
  by pat_completeness auto
termination
  by (relation "measure (\<lambda>(me, i). nat (lbase me + lcount me + 1 - i))") auto

declare raft_log_clear_entries_loop.simps [simp del]

definition raft_log_clear_entries :: "'u raft_log \<Rightarrow> 'u raft_log option" where
  "raft_log_clear_entries me =
     (if lcount me = 0 \<or> log_clear (lcb me) = None then Some me
      else raft_log_clear_entries_loop me (lbase me))"

definition raft_log_load_from_snapshot ::
  "'u raft_log \<Rightarrow> raft_index_t \<Rightarrow> raft_term_t \<Rightarrow> (int \<times> 'u raft_log) option" where
  "raft_log_load_from_snapshot me idx term =
     do {
       me \<leftarrow> raft_log_clear_entries me;
       Some (0, (raft_log_clear me)\<lparr>lbase := idx\<rparr>)
     }"

definition no_log_cbs :: "'u raft_log_cbs" where
  "no_log_cbs = \<lparr>log_offer = None, log_poll_cb = None, log_pop_cb = None, log_clear = None\<rparr>"

definition raft_log_alloc ::
  "(int \<Rightarrow> bool) \<Rightarrow> 'u \<Rightarrow> raft_index_t \<Rightarrow> 'u raft_log option" where
  "raft_log_alloc raft_calloc raft initial_size =
     (if \<not> raft_calloc SIZEOF_RAFT_LOG then None
      else if \<not> raft_calloc (SIZEOF_PTR * initial_size) then None
      else Some (raft_log_clear
        \<lparr>lsize = initial_size, lcount = 0, lfront = 0, lback = 0, lbase = 0,
         lentries = replicate (nat initial_size) None, lcb = no_log_cbs, lraft = raft\<rparr>))"

definition raft_log_new :: "(int \<Rightarrow> bool) \<Rightarrow> 'u \<Rightarrow> 'u raft_log option" where
  "raft_log_new raft_calloc raft = raft_log_alloc raft_calloc raft INITIAL_CAPACITY"

definition raft_log_set_callbacks ::
  "'u raft_log \<Rightarrow> 'u raft_log_cbs \<Rightarrow> 'u \<Rightarrow> 'u raft_log" where
  "raft_log_set_callbacks me funcs raft = me\<lparr>lraft := raft, lcb := funcs\<rparr>"

definition raft_log_append_entry ::
  "(int \<Rightarrow> bool) \<Rightarrow> 'u raft_log \<Rightarrow> raft_entry \<Rightarrow> (int \<times> 'u raft_log) option" where
  "raft_log_append_entry raft_calloc me ety =
     (let idx = lbase me + lcount me + 1
      in do {
        (e, me) \<leftarrow> ensure_capacity raft_calloc me;
        if e \<noteq> 0 then Some (e, me)
        else do {
          ents \<leftarrow> arr_set (lentries me) (lback me) (Some ety);
          let (e, me) = call_log_cb (log_offer (lcb me)) (Some ety) idx (me\<lparr>lentries := ents\<rparr>);
          if e \<noteq> 0 then Some (e, me)
          else do {
            back \<leftarrow> c_rem (lback me + 1) (lsize me);
            Some (0, me\<lparr>lcount := lcount me + 1, lback := back\<rparr>)
          }
        }
      })"

text \<open>The pointer result of \<open>raft_log_get_from_idx\<close> is a position of the array, NULL is \<open>None\<close>.\<close>

definition raft_log_get_from_idx ::
  "'u raft_log \<Rightarrow> raft_index_t \<Rightarrow> (raft_index_t option \<times> raft_index_t) option" where
  "raft_log_get_from_idx me idx =
     do {
       assert_ok (0 \<le> idx - 1);
       if lbase me + lcount me < idx \<or> idx \<le> lbase me then Some (None, 0)
       else do {
         i \<leftarrow> c_rem (lfront me + (idx - 1) - lbase me) (lsize me);
         Some (Some i, if i < lback me then lback me - i else lsize me - i)
       }
     }"

definition raft_log_get_at_idx ::
  "'u raft_log \<Rightarrow> raft_index_t \<Rightarrow> raft_entry option option" where
  "raft_log_get_at_idx me idx =
     (if idx = 0 then Some None
      else if lbase me + lcount me < idx \<or> idx \<le> lbase me then Some None
      else do {
        i \<leftarrow> c_rem (lfront me + (idx - 1) - lbase me) (lsize me);
        arr_get (lentries me) i
      })"

definition raft_log_count :: "'u raft_log \<Rightarrow> raft_index_t" where
  "raft_log_count me = lcount me"

partial_function (option) log_delete_loop ::
  "'u raft_log \<Rightarrow> raft_index_t \<Rightarrow> (int \<times> 'u raft_log) option" where
  "log_delete_loop me idx =
     (if idx \<le> lbase me + lcount me \<and> lcount me \<noteq> 0 then
        do {
          back \<leftarrow> log_mod (lback me - 1) (lsize me);
          x \<leftarrow> arr_get (lentries me) back;
          let (e, me) = call_log_cb (log_pop_cb (lcb me)) x (lbase me + lcount me) me;
          if e \<noteq> 0 then Some (e, me)
          else do {
            ety \<leftarrow> x;
            log_delete_loop (me\<lparr>lback := back, lcount := lcount me - 1\<rparr>) idx
          }
        }
      else Some (0, me))"

definition log_delete :: "'u raft_log \<Rightarrow> raft_index_t \<Rightarrow> (int \<times> 'u raft_log) option" where
  "log_delete me idx =
     (if idx = 0 then Some (- 1, me)
      else log_delete_loop me (if idx < lbase me then lbase me else idx))"

definition raft_log_delete :: "'u raft_log \<Rightarrow> raft_index_t \<Rightarrow> (int \<times> 'u raft_log) option" where
  "raft_log_delete me idx = log_delete me idx"

definition raft_log_poll ::
  "'u raft_log \<Rightarrow> (int \<times> raft_entry option \<times> 'u raft_log) option" where
  "raft_log_poll me =
     (let idx = lbase me + 1
      in if lcount me = 0 then Some (- 1, None, me)
         else do {
           elem \<leftarrow> arr_get (lentries me) (lfront me);
           let (e, me) = call_log_cb (log_poll_cb (lcb me)) elem idx me;
           if e \<noteq> 0 then Some (e, None, me)
           else do {
             ety \<leftarrow> elem;
             front \<leftarrow> c_rem (lfront me + 1) (lsize me);
             Some (0, Some ety, me\<lparr>lfront := front, lcount := lcount me - 1, lbase := lbase me + 1\<rparr>)
           }
         })"

definition raft_log_peektail :: "'u raft_log \<Rightarrow> raft_entry option option" where
  "raft_log_peektail me =
     (if lcount me = 0 then Some None
      else arr_get (lentries me) (if lback me = 0 then lsize me - 1 else lback me - 1))"

definition raft_log_empty :: "'u raft_log \<Rightarrow> 'u raft_log" where
  "raft_log_empty me = me\<lparr>lfront := 0, lback := 0, lcount := 0\<rparr>"

definition raft_log_get_current_idx :: "'u raft_log \<Rightarrow> raft_index_t" where
  "raft_log_get_current_idx me = raft_log_count me + lbase me"

definition raft_log_get_base :: "'u raft_log \<Rightarrow> raft_index_t" where
  "raft_log_get_base me = lbase me"

section \<open>The wrappers for \<open>raft_log_impl_t\<close>\<close>

definition log_init ::
  "(int \<Rightarrow> bool) \<Rightarrow> 'u \<Rightarrow> 'u raft_log_cbs option \<Rightarrow> 'u raft_log option" where
  "log_init raft_calloc raft arg =
     do {
       log \<leftarrow> raft_log_new raft_calloc raft;
       Some (case arg of None \<Rightarrow> log | Some cbs \<Rightarrow> raft_log_set_callbacks log cbs raft)
     }"

definition log_reset :: "'u raft_log \<Rightarrow> raft_index_t \<Rightarrow> raft_term_t \<Rightarrow> 'u raft_log option" where
  "log_reset log first_idx term =
     do {
       log \<leftarrow> raft_log_clear_entries log;
       let log = raft_log_clear log;
       assert_ok (first_idx \<ge> 1);
       Some (log\<lparr>lbase := first_idx - 1\<rparr>)
     }"

definition log_append ::
  "(int \<Rightarrow> bool) \<Rightarrow> 'u raft_log \<Rightarrow> raft_entry \<Rightarrow> (int \<times> 'u raft_log) option" where
  "log_append raft_calloc log entry = raft_log_append_entry raft_calloc log entry"

definition log_get :: "'u raft_log \<Rightarrow> raft_index_t \<Rightarrow> raft_entry option option" where
  "log_get log idx = raft_log_get_at_idx log idx"

fun log_get_batch_copy ::
  "'u raft_log \<Rightarrow> raft_index_t \<Rightarrow> nat \<Rightarrow> raft_entry list option" where
  "log_get_batch_copy log p 0 = Some []"
| "log_get_batch_copy log p (Suc n) =
     do {
       x \<leftarrow> arr_get (lentries log) p;
       ety \<leftarrow> x;
       rest \<leftarrow> log_get_batch_copy log (p + 1) n;
       Some (ety # rest)
     }"

text \<open>The result is the returned count and the entries written to the caller's array.\<close>

definition log_get_batch ::
  "'u raft_log \<Rightarrow> raft_index_t \<Rightarrow> raft_index_t \<Rightarrow> (raft_index_t \<times> raft_entry list) option" where
  "log_get_batch log idx entries_n =
     do {
       (r, n) \<leftarrow> raft_log_get_from_idx log idx;
       (case r of
          None \<Rightarrow> Some (0, [])
        | Some p \<Rightarrow>
            if n < 1 then Some (0, [])
            else (let n = (if n > entries_n then entries_n else n)
                  in do {
                    es \<leftarrow> log_get_batch_copy log p (nat n);
                    Some (n, es)
                  }))
     }"

definition log_pop :: "'u raft_log \<Rightarrow> raft_index_t \<Rightarrow> (int \<times> 'u raft_log) option" where
  "log_pop log from_idx = log_delete log from_idx"

partial_function (option) log_poll ::
  "'u raft_log \<Rightarrow> raft_index_t \<Rightarrow> (int \<times> 'u raft_log) option" where
  "log_poll log first_idx =
     (if raft_log_get_base log + 1 < first_idx then
        do {
          (e, ety, log) \<leftarrow> raft_log_poll log;
          if e < 0 then Some (e, log)
          else log_poll log first_idx
        }
      else Some (0, log))"

definition log_first_idx :: "'u raft_log \<Rightarrow> raft_index_t" where
  "log_first_idx log = raft_log_get_base log + 1"

definition log_current_idx :: "'u raft_log \<Rightarrow> raft_index_t" where
  "log_current_idx log = raft_log_get_current_idx log"

definition log_count :: "'u raft_log \<Rightarrow> raft_index_t" where
  "log_count log = raft_log_count log"

definition log_sync :: "'u raft_log \<Rightarrow> (int \<times> 'u raft_log) option" where
  "log_sync log = Some (0, log)"

section \<open>The invariant and the list it represents\<close>


lemma ring_pos:
  fixes f k s :: int
  assumes "0 \<le> f" "f < s" "0 \<le> k" "k \<le> s"
  shows "(f + k) mod s = (if f + k < s then f + k else f + k - s)"
  using assms by (smt (verit) mod_pos_pos_trivial minus_mod_self2)

definition slot :: "'u raft_log \<Rightarrow> int \<Rightarrow> nat" where
  "slot me k = nat ((lfront me + k) mod lsize me)"

definition log_ents :: "'u raft_log \<Rightarrow> raft_entry list" where
  "log_ents me = map (\<lambda>k. the (lentries me ! slot me (int k))) [0..<nat (lcount me)]"

definition log_cbs_ok :: "'u raft_log_cbs \<Rightarrow> bool" where
  "log_cbs_ok cb \<longleftrightarrow>
     (\<forall>f u x i. log_offer cb = Some f \<longrightarrow> fst (f u x i) \<le> 0) \<and>
     (\<forall>f u x i. log_poll_cb cb = Some f \<longrightarrow> fst (f u x i) \<le> 0)"

definition log_inv :: "'u raft_log \<Rightarrow> bool" where
  "log_inv me \<longleftrightarrow>
     0 < lsize me \<and> int (length (lentries me)) = lsize me \<and>
     0 \<le> lcount me \<and> lcount me \<le> lsize me \<and>
     0 \<le> lfront me \<and> lfront me < lsize me \<and>
     lback me = (lfront me + lcount me) mod lsize me \<and>
     0 \<le> lbase me \<and>
     (\<forall>k. 0 \<le> k \<and> k < lcount me \<longrightarrow> lentries me ! slot me k \<noteq> None) \<and>
     log_cbs_ok (lcb me)"

lemma slot_less: "log_inv me \<Longrightarrow> slot me k < length (lentries me)"
  unfolding log_inv_def slot_def by (simp add: nat_less_iff)

lemma slot_inj:
  assumes "log_inv me" "0 \<le> j" "j < lsize me" "0 \<le> k" "k < lsize me" "slot me j = slot me k"
  shows "j = k"
  using assms ring_pos[of "lfront me" "lsize me" j] ring_pos[of "lfront me" "lsize me" k]
  unfolding log_inv_def slot_def by (auto split: if_splits)

lemma length_log_ents [simp]: "length (log_ents me) = nat (lcount me)"
  by (simp add: log_ents_def)

lemma log_ents_nth:
  "k < nat (lcount me) \<Longrightarrow> log_ents me ! k = the (lentries me ! slot me (int k))"
  by (simp add: log_ents_def)

lemma log_inv_entry:
  "log_inv me \<Longrightarrow> k < nat (lcount me) \<Longrightarrow> lentries me ! slot me (int k) = Some (log_ents me ! k)"
  by (auto simp: log_inv_def log_ents_nth)

lemma arr_get_slot:
  assumes "log_inv me" "0 \<le> k" "k < lcount me"
  shows "arr_get (lentries me) ((lfront me + k) mod lsize me) = Some (Some (log_ents me ! nat k))"
proof -
  have "int (slot me k) = (lfront me + k) mod lsize me"
    using assms by (simp add: slot_def log_inv_def)
  moreover have "lentries me ! slot me k = Some (log_ents me ! nat k)"
    using log_inv_entry[of me "nat k"] assms by simp
  moreover have "int (slot me k) < int (length (lentries me))"
    using slot_less[OF assms(1)] by simp
  ultimately show ?thesis
    by (metis arr_get_Some nat_int of_nat_0_le_iff)
qed

lemma raft_log_get_at_idx_spec:
  assumes "log_inv me"
  shows "raft_log_get_at_idx me idx =
    Some (if lbase me < idx \<and> idx \<le> lbase me + lcount me
          then Some (log_ents me ! nat (idx - lbase me - 1)) else None)"
proof -
  have "0 \<le> lbase me" "0 \<le> lfront me" "0 < lsize me" using assms by (auto simp: log_inv_def)
  then show ?thesis
    using arr_get_slot[OF assms, of "idx - lbase me - 1"]
    by (auto simp: raft_log_get_at_idx_def c_rem_nonneg algebra_simps)
qed

lemma take_nth_upd: "n < length xs \<Longrightarrow> take (Suc n) (xs[n := x]) = take n xs @ [x]"
  by (simp add: take_Suc_conv_app_nth)

lemma ensure_capacity_copy_spec:
  assumes inv: "log_inv me" and "0 \<le> i" "i \<le> lcount me"
    and "j = (lfront me + i) mod lsize me \<or> (j = lsize me \<and> (lfront me + i) mod lsize me = 0)"
    and "lcount me \<le> int (length temp)"
    and "take (nat i) temp = take (nat i) (map Some (log_ents me))"
  shows "\<exists>t. ensure_capacity_copy me i j temp = Some t \<and> length t = length temp \<and>
           take (nat (lcount me)) t = map Some (log_ents me)"
  using assms(2-)
proof (induction "nat (lcount me - i)" arbitrary: i j temp)
  case 0
  then show ?case by (subst ensure_capacity_copy.simps) auto
next
  case (Suc n)
  from Suc.hyps(2) have lt: "i < lcount me" by simp
  let ?j = "(lfront me + i) mod lsize me"
  let ?x = "Some (log_ents me ! nat i)"
  have bnds: "0 \<le> lfront me" "lfront me < lsize me" "lcount me \<le> lsize me" using inv by (auto simp: log_inv_def)
  have j: "(if j = lsize me then 0 else j) = ?j"
    using Suc.prems(3) bnds by (smt (verit) pos_mod_bound)
  have get: "arr_get (lentries me) ?j = Some ?x"
    by (rule arr_get_slot[OF inv Suc.prems(1) lt])
  let ?t = "temp[nat i := ?x]"
  have set: "arr_set temp i ?x = Some ?t"
    using Suc.prems lt by (simp add: arr_set_Some)
  have nxt: "?j + 1 = (lfront me + (i + 1)) mod lsize me \<or> (?j + 1 = lsize me \<and> (lfront me + (i + 1)) mod lsize me = 0)"
    using bnds Suc.prems(1) lt ring_pos[of "lfront me" "lsize me" i] ring_pos[of "lfront me" "lsize me" "i+1"]
    by (auto split: if_splits)
  have tk: "take (nat (i + 1)) ?t = take (nat (i + 1)) (map Some (log_ents me))"
  proof -
    have "nat (i + 1) = Suc (nat i)" "nat i < length temp" "nat i < length (log_ents me)" using Suc.prems lt by auto
    then show ?thesis
      using Suc.prems(5) by (simp add: take_nth_upd take_Suc_conv_app_nth)
  qed
  have "\<exists>t. ensure_capacity_copy me (i + 1) (?j + 1) ?t = Some t \<and> length t = length ?t \<and>
           take (nat (lcount me)) t = map Some (log_ents me)"
    by (rule Suc.hyps(1)) (use Suc.hyps(2) Suc.prems lt nxt tk in auto)
  then show ?case
    using lt j get set by (subst ensure_capacity_copy.simps) (simp add: Let_def)
qed

lemma log_ents_cong:
  assumes "lcount me' = lcount me"
    and "\<And>k. 0 \<le> k \<Longrightarrow> k < lcount me \<Longrightarrow> lentries me' ! slot me' k = lentries me ! slot me k"
  shows "log_ents me' = log_ents me"
  using assms by (simp add: log_ents_def)

lemma ensure_capacity_spec:
  assumes inv: "log_inv me"
  shows "\<exists>e me'. ensure_capacity calloc me = Some (e, me') \<and> log_inv me' \<and> log_ents me' = log_ents me \<and>
           lbase me' = lbase me \<and> lcount me' = lcount me \<and> lcb me' = lcb me \<and>
           (if e = 0 then lcount me' < lsize me' else e = RAFT_ERR_NOMEM \<and> me' = me)"
proof (cases "lcount me < lsize me \<or> \<not> calloc (SIZEOF_PTR * lsize me * 2)")
  case True
  then show ?thesis using inv by (auto simp: ensure_capacity_def)
next
  case False
  let ?t0 = "replicate (nat (lsize me * 2)) (None :: raft_entry option)"
  have b: "0 < lsize me" "lcount me = lsize me" "0 \<le> lfront me" "lfront me < lsize me"
    using inv False by (auto simp: log_inv_def)
  from ensure_capacity_copy_spec[OF inv, of 0 "lfront me" ?t0] b
  obtain t where t: "ensure_capacity_copy me 0 (lfront me) ?t0 = Some t"
    "length t = nat (lsize me * 2)" "take (nat (lcount me)) t = map Some (log_ents me)"
    by auto
  let ?me = "me\<lparr>lsize := lsize me * 2, lentries := t, lfront := 0, lback := lcount me\<rparr>"
  have nth: "t ! nat k = Some (log_ents me ! nat k)" if "0 \<le> k" "k < lcount me" for k
  proof -
    have "t ! nat k = take (nat (lcount me)) t ! nat k" using that by simp
    also have "\<dots> = Some (log_ents me ! nat k)" using that by (simp add: t(3))
    finally show ?thesis .
  qed
  have slot: "slot ?me k = nat k" if "0 \<le> k" "k < lcount me" for k
    using that b by (simp add: slot_def)
  have ents: "log_ents ?me = log_ents me"
  proof (rule nth_equalityI)
    fix i assume "i < length (log_ents ?me)"
    then show "log_ents ?me ! i = log_ents me ! i"
      using nth[of "int i"] slot[of "int i"] by (simp add: log_ents_nth[of _ ?me])
  qed simp
  have "log_inv ?me"
    using inv b t(2) slot nth by (auto simp: log_inv_def)
  then show ?thesis
    using False b t(1) ents by (auto simp: ensure_capacity_def)
qed

lemma call_log_cb_frame:
  assumes "call_log_cb f x i me = (e, me')"
  shows "lsize me' = lsize me" "lcount me' = lcount me" "lfront me' = lfront me" "lback me' = lback me"
    "lbase me' = lbase me" "lentries me' = lentries me" "lcb me' = lcb me"
  using assms by (auto simp: call_log_cb_def split: option.splits prod.splits)

lemma call_log_cb_le:
  "call_log_cb f x i me = (e, me') \<Longrightarrow> (\<And>g u. f = Some g \<Longrightarrow> fst (g u x i) \<le> 0) \<Longrightarrow> e \<le> 0"
  by (auto simp: call_log_cb_def split: option.splits prod.splits) (metis fst_conv)

lemma same_ring:
  assumes "lsize me' = lsize me" "lcount me' = lcount me" "lfront me' = lfront me" "lback me' = lback me"
    "lbase me' = lbase me" "lentries me' = lentries me" "lcb me' = lcb me"
  shows "log_inv me' = log_inv me" "log_ents me' = log_ents me"
  using assms by (simp_all add: log_inv_def log_ents_def slot_def)

lemma raft_log_append_entry_spec:
  assumes inv: "log_inv me"
  shows "\<exists>e me'. raft_log_append_entry calloc me ety = Some (e, me') \<and> log_inv me' \<and> lbase me' = lbase me \<and>
           (if e = 0 then log_ents me' = log_ents me @ [ety] else e < 0 \<and> log_ents me' = log_ents me)"
proof -
  from ensure_capacity_spec[OF inv] obtain e1 m1 where
    m1: "ensure_capacity calloc me = Some (e1, m1)" "log_inv m1" "log_ents m1 = log_ents me"
      "lbase m1 = lbase me" "lcount m1 = lcount me"
      "if e1 = 0 then lcount m1 < lsize m1 else e1 = RAFT_ERR_NOMEM \<and> m1 = me"
    by blast
  show ?thesis
  proof (cases "e1 = 0")
    case False
    then show ?thesis using m1 inv by (simp add: raft_log_append_entry_def)
  next
    case True
    let ?p = "nat (lback m1)"
    let ?m2 = "m1\<lparr>lentries := (lentries m1)[?p := Some ety]\<rparr>"
    have b: "0 < lsize m1" "int (length (lentries m1)) = lsize m1" "0 \<le> lcount m1" "lcount m1 < lsize m1"
      "0 \<le> lfront m1" "lfront m1 < lsize m1" "lback m1 = (lfront m1 + lcount m1) mod lsize m1"
      using m1(2,6) True by (auto simp: log_inv_def)
    have bk: "0 \<le> lback m1" "lback m1 < lsize m1" "?p = slot m1 (lcount m1)"
      using b by (simp_all add: slot_def)
    have set: "arr_set (lentries m1) (lback m1) (Some ety) = Some (lentries ?m2)"
      using bk b by (simp add: arr_set_Some)
    have old: "lentries ?m2 ! slot ?m2 k = lentries m1 ! slot m1 k" if "0 \<le> k" "k < lcount m1" for k
      using that bk slot_inj[OF m1(2), of k "lcount m1"] b
      by (simp add: slot_def) (metis nth_list_update_neq order_less_irrefl order_less_trans slot_def)
    have inv2: "log_inv ?m2" and ents2: "log_ents ?m2 = log_ents m1"
      using m1(2) old by (auto simp: log_inv_def log_ents_def)
    obtain e2 m2 where cb: "call_log_cb (log_offer (lcb ?m2)) (Some ety) (lbase me + lcount me + 1) ?m2 = (e2, m2)"
      by fastforce
    note f = call_log_cb_frame[OF cb]
    have m2: "log_inv m2" "log_ents m2 = log_ents me" "lbase m2 = lbase me"
      using same_ring[OF f] inv2 ents2 m1 f by auto
    show ?thesis
    proof (cases "e2 = 0")
      case False
      have "e2 \<le> 0"
        by (rule call_log_cb_le[OF cb]) (use m1(2) in \<open>auto simp: log_inv_def log_cbs_ok_def\<close>)
      then show ?thesis
        using False m1 True set cb m2 by (simp add: raft_log_append_entry_def)
    next
      case e0: True
      let ?m3 = "m2\<lparr>lcount := lcount m2 + 1, lback := (lback m2 + 1) mod lsize m2\<rparr>"
      have rem: "c_rem (lback m2 + 1) (lsize m2) = Some ((lback m2 + 1) mod lsize m2)"
        using bk b f by (simp add: c_rem_nonneg)
      have slots: "slot ?m3 k = slot m1 k" for k using f by (simp add: slot_def)
      have ent: "lentries ?m3 ! slot ?m3 k = (if k = lcount m1 then Some ety else lentries m1 ! slot m1 k)"
        if "0 \<le> k" "k < lcount m1 + 1" for k
        using that old[of k] bk b f slots[of k] slot_less[OF m1(2), of "lcount m1"] by (auto simp: slot_def)
      have inv3: "log_inv ?m3"
        using m2(1) m1(2) f b ent bk mod_add_left_eq[of "lfront m1 + lcount m1" "lsize m1" 1]
        by (auto simp: log_inv_def algebra_simps)
      have "log_ents ?m3 = log_ents me @ [ety]"
      proof (rule nth_equalityI)
        show "length (log_ents ?m3) = length (log_ents me @ [ety])"
          using f b m1 by (simp add: nat_add_distrib)
      next
        fix i assume "i < length (log_ents ?m3)"
        then have i: "int i < lcount m1 + 1" using f by simp
        then have "log_ents ?m3 ! i = the (lentries ?m3 ! slot ?m3 (int i))" using f by (subst log_ents_nth) auto
        also have "\<dots> = (if int i = lcount m1 then ety else the (lentries m1 ! slot m1 (int i)))"
          using ent[of "int i"] i by simp
        also have "\<dots> = (log_ents me @ [ety]) ! i"
          using i m1 b by (auto simp: nth_append log_ents_nth[of i m1] simp flip: m1(3))
        finally show "log_ents ?m3 ! i = (log_ents me @ [ety]) ! i" .
      qed
      then show ?thesis
        using e0 m1 True set cb m2 rem inv3 by (simp add: raft_log_append_entry_def)
    qed
  qed
qed

lemma log_inv_bounds:
  assumes "log_inv me"
  shows "0 < lsize me" "int (length (lentries me)) = lsize me" "0 \<le> lcount me" "lcount me \<le> lsize me"
    "0 \<le> lfront me" "lfront me < lsize me" "lback me = (lfront me + lcount me) mod lsize me" "0 \<le> lbase me"
    "log_cbs_ok (lcb me)"
  using assms by (auto simp: log_inv_def)

lemma log_mod_eq:
  assumes "0 < b"
  shows "log_mod a b = Some (a mod b)"
proof (cases "a < 0")
  case True
  have "c_rem a b = Some (- (- a mod b))" using True assms by (simp add: c_rem_def)
  moreover have "a mod b = (if - a mod b = 0 then 0 else b - - a mod b)"
    using zmod_zminus1_eq_if[of "- a" b] by simp
  moreover have "0 \<le> - a mod b" using assms by simp
  ultimately show ?thesis by (auto simp: log_mod_def less_le)
next
  case False
  then show ?thesis using assms by (auto simp: log_mod_def c_rem_nonneg not_less)
qed

lemma log_pop_last:
  assumes inv: "log_inv me" and "lcount me \<noteq> 0"
  shows "log_mod (lback me - 1) (lsize me) = Some ((lfront me + (lcount me - 1)) mod lsize me)"
    and "log_inv (me\<lparr>lback := (lfront me + (lcount me - 1)) mod lsize me, lcount := lcount me - 1\<rparr>)"
    and "log_ents (me\<lparr>lback := (lfront me + (lcount me - 1)) mod lsize me, lcount := lcount me - 1\<rparr>) = butlast (log_ents me)"
proof -
  note b = log_inv_bounds[OF inv]
  have c: "0 \<le> lcount me - 1" "lcount me - 1 < lcount me" using b assms(2) by auto
  have "(lback me - 1) mod lsize me = (lfront me + (lcount me - 1)) mod lsize me"
    using mod_diff_left_eq[of "lfront me + lcount me" "lsize me" 1] b(7) by (simp add: algebra_simps)
  then show "log_mod (lback me - 1) (lsize me) = Some ((lfront me + (lcount me - 1)) mod lsize me)"
    using b by (simp add: log_mod_eq)
  show "log_inv (me\<lparr>lback := (lfront me + (lcount me - 1)) mod lsize me, lcount := lcount me - 1\<rparr>)"
    using inv c by (auto simp: log_inv_def slot_def)
  show "log_ents (me\<lparr>lback := (lfront me + (lcount me - 1)) mod lsize me, lcount := lcount me - 1\<rparr>) = butlast (log_ents me)"
    by (rule nth_equalityI) (auto simp: log_ents_nth nth_butlast slot_def nat_diff_distrib')
qed

lemma log_delete_loop_spec:
  assumes "log_inv me" "lbase me \<le> idx"
  shows "\<exists>e me'. log_delete_loop me idx = Some (e, me') \<and> log_inv me' \<and> lbase me' = lbase me \<and>
           (\<exists>n. nat (idx - 1 - lbase me) \<le> n \<and> log_ents me' = take n (log_ents me)) \<and>
           (e = 0 \<longrightarrow> log_ents me' = take (nat (idx - 1 - lbase me)) (log_ents me)) \<and>
           (log_pop_cb (lcb me) = None \<longrightarrow> e = 0) \<and> lcb me' = lcb me"
  using assms
proof (induction "nat (lcount me)" arbitrary: me)
  case 0
  then have "lcount me = 0" by (auto simp: log_inv_def)
  with 0 show ?case by (subst log_delete_loop.simps) (auto intro!: exI[of _ "nat (idx - 1 - lbase me)"])
next
  case (Suc n)
  show ?case
  proof (cases "idx \<le> lbase me + lcount me")
    case False
    then show ?thesis
      using Suc.prems Suc.hyps(2)
      by (subst log_delete_loop.simps) (auto intro!: exI[of _ "nat (idx - 1 - lbase me)"])
  next
    case True
    have ne: "lcount me \<noteq> 0" and pos: "0 < lcount me" using Suc.hyps(2) by auto
    let ?b = "(lfront me + (lcount me - 1)) mod lsize me"
    let ?x = "Some (log_ents me ! nat (lcount me - 1))"
    have get: "arr_get (lentries me) ?b = Some ?x"
      by (rule arr_get_slot[OF Suc.prems(1)]) (use pos in auto)
    note last = log_pop_last[OF Suc.prems(1) ne]
    obtain e1 m1 where cb: "call_log_cb (log_pop_cb (lcb me)) ?x (lbase me + lcount me) me = (e1, m1)"
      by fastforce
    note f = call_log_cb_frame[OF cb]
    note same = same_ring[OF f]
    have cb0: "log_pop_cb (lcb me) = None \<longrightarrow> e1 = 0" using cb by (auto simp: call_log_cb_def)
    show ?thesis
    proof (cases "e1 = 0")
      case False
      then have "log_delete_loop me idx = Some (e1, m1)"
        using True ne last(1) get cb by (subst log_delete_loop.simps) simp
      moreover have "nat (idx - 1 - lbase me) \<le> length (log_ents me)" using True by simp
      moreover have "log_ents m1 = take (length (log_ents me)) (log_ents me)" using same(2) by simp
      ultimately show ?thesis using False f same Suc.prems cb0 by auto
    next
      case e0: True
      let ?m2 = "m1\<lparr>lback := ?b, lcount := lcount m1 - 1\<rparr>"
      let ?m2' = "me\<lparr>lback := ?b, lcount := lcount me - 1\<rparr>"
      have eq: "log_inv ?m2 = log_inv ?m2'" "log_ents ?m2 = log_ents ?m2'"
        by (rule same_ring; use f in simp)+
      have rec: "log_delete_loop me idx = log_delete_loop ?m2 idx"
        using True ne last(1) get cb e0 by (subst log_delete_loop.simps) simp
      have inv2: "log_inv ?m2" "log_ents ?m2 = butlast (log_ents me)"
        using eq last(2,3) by auto
      have "n = nat (lcount ?m2)" "lbase ?m2 \<le> idx" using Suc.hyps(2) Suc.prems f by auto
      from Suc.hyps(1)[OF this(1) inv2(1) this(2)] obtain e me' k where
        IH: "log_delete_loop ?m2 idx = Some (e, me')" "log_inv me'" "lbase me' = lbase me"
          "nat (idx - 1 - lbase me) \<le> k" "log_ents me' = take k (log_ents ?m2)"
          "e = 0 \<longrightarrow> log_ents me' = take (nat (idx - 1 - lbase me)) (log_ents ?m2)"
          "log_pop_cb (lcb me) = None \<longrightarrow> e = 0" "lcb me' = lcb me"
        using f by auto
      have lim: "nat (idx - 1 - lbase me) \<le> length (log_ents me) - 1"
        using True Suc.prems by auto
      have "take (nat (idx - 1 - lbase me)) (log_ents ?m2) = take (nat (idx - 1 - lbase me)) (log_ents me)"
        using lim by (simp add: inv2(2) take_butlast butlast_conv_take)
      moreover have "take k (log_ents ?m2) = take (min k (length (log_ents me) - 1)) (log_ents me)"
        by (simp add: inv2(2) butlast_conv_take min.commute)
      moreover have "nat (idx - 1 - lbase me) \<le> min k (length (log_ents me) - 1)"
        using IH(4) lim by simp
      ultimately show ?thesis
        using IH rec by (metis (no_types, lifting))
    qed
  qed
qed

lemma log_pop_spec:
  assumes "log_inv me" "lbase me < idx"
  shows "\<exists>e me'. log_pop me idx = Some (e, me') \<and> log_inv me' \<and> lbase me' = lbase me \<and>
           (\<exists>n. nat (idx - 1 - lbase me) \<le> n \<and> log_ents me' = take n (log_ents me)) \<and>
           (e = 0 \<longrightarrow> log_ents me' = take (nat (idx - 1 - lbase me)) (log_ents me)) \<and>
           (log_pop_cb (lcb me) = None \<longrightarrow> e = 0) \<and> lcb me' = lcb me"
proof -
  have "idx \<noteq> 0" "\<not> idx < lbase me" using assms by (auto simp: log_inv_def)
  then show ?thesis
    using log_delete_loop_spec[of me idx] assms by (simp add: log_pop_def log_delete_def)
qed

lemma raft_log_poll_spec:
  assumes inv: "log_inv me"
  shows "\<exists>e x me'. raft_log_poll me = Some (e, x, me') \<and> e \<le> 0 \<and> log_inv me' \<and> lcb me' = lcb me \<and>
           (if e = 0 then lcount me > 0 \<and> x = Some (hd (log_ents me)) \<and> lbase me' = lbase me + 1 \<and> log_ents me' = tl (log_ents me)
            else lbase me' = lbase me \<and> log_ents me' = log_ents me) \<and>
           (0 < lcount me \<and> log_poll_cb (lcb me) = None \<longrightarrow> e = 0)"
proof (cases "lcount me = 0")
  case True
  then show ?thesis using inv by (simp add: raft_log_poll_def)
next
  case False
  note b = log_inv_bounds[OF inv]
  then have pos: "0 < lcount me" using False by simp
  let ?x = "Some (log_ents me ! 0)"
  have get: "arr_get (lentries me) (lfront me) = Some ?x"
    using arr_get_slot[OF inv, of 0] pos b by simp
  obtain e1 m1 where cb: "call_log_cb (log_poll_cb (lcb me)) ?x (lbase me + 1) me = (e1, m1)"
    by fastforce
  note f = call_log_cb_frame[OF cb]
  note same = same_ring[OF f]
  have cb0: "log_poll_cb (lcb me) = None \<longrightarrow> e1 = 0" using cb by (auto simp: call_log_cb_def)
  have le: "e1 \<le> 0"
    by (rule call_log_cb_le[OF cb]) (use b(9) in \<open>auto simp: log_cbs_ok_def\<close>)
  show ?thesis
  proof (cases "e1 = 0")
    case False
    then show ?thesis using get cb same f le inv cb0 \<open>lcount me \<noteq> 0\<close> by (simp add: raft_log_poll_def)
  next
    case True
    let ?m2 = "m1\<lparr>lfront := (lfront m1 + 1) mod lsize m1, lcount := lcount m1 - 1, lbase := lbase m1 + 1\<rparr>"
    have rem: "c_rem (lfront m1 + 1) (lsize m1) = Some ((lfront m1 + 1) mod lsize m1)"
      using b f by (simp add: c_rem_nonneg)
    have slot: "slot ?m2 k = slot me (k + 1)" for k
      using f mod_add_left_eq[of "lfront me + 1" "lsize me" k] by (simp add: slot_def algebra_simps)
    have "log_inv ?m2"
      using inv f pos slot mod_add_left_eq[of "lfront me + 1" "lsize me" "lcount me - 1"]
      by (auto simp: log_inv_def algebra_simps)
    moreover have "log_ents ?m2 = tl (log_ents me)"
      using pos f slot by (intro nth_equalityI) (auto simp: log_ents_nth nth_tl nat_diff_distrib' add.commute)
    moreover have "hd (log_ents me) = log_ents me ! 0" using pos by (intro hd_conv_nth) (auto simp flip: length_0_conv)
    ultimately show ?thesis
      using True get cb f rem pos by (simp add: raft_log_poll_def)
  qed
qed

lemma log_poll_spec:
  assumes "log_inv me"
  shows "\<exists>e me' d. log_poll me first_idx = Some (e, me') \<and> e \<le> 0 \<and> log_inv me' \<and> lcb me' = lcb me \<and>
           d \<le> length (log_ents me) \<and> lbase me' = lbase me + int d \<and> log_ents me' = drop d (log_ents me) \<and>
           (d = 0 \<or> lbase me' < first_idx) \<and>
           (e = 0 \<longrightarrow> lbase me' = max (lbase me) (first_idx - 1)) \<and>
           (first_idx \<le> lbase me + lcount me + 1 \<and> log_poll_cb (lcb me) = None \<longrightarrow> e = 0)"
  using assms
proof (induction "nat (lcount me)" arbitrary: me rule: less_induct)
  case less
  show ?case
  proof (cases "lbase me + 1 < first_idx")
    case False
    then show ?thesis
      using less.prems
      by (intro exI[of _ 0] exI[of _ me]) (simp add: log_poll.simps raft_log_get_base_def max_def)
  next
    case True
    from raft_log_poll_spec[OF less.prems] obtain e x m1 where
      st: "raft_log_poll me = Some (e, x, m1)" "e \<le> 0" "log_inv m1" "lcb m1 = lcb me"
        "if e = 0 then lcount me > 0 \<and> x = Some (hd (log_ents me)) \<and> lbase m1 = lbase me + 1 \<and> log_ents m1 = tl (log_ents me)
         else lbase m1 = lbase me \<and> log_ents m1 = log_ents me"
        "0 < lcount me \<and> log_poll_cb (lcb me) = None \<longrightarrow> e = 0"
      by blast
    show ?thesis
    proof (cases "e = 0")
      case False
      then have "log_poll me first_idx = Some (e, m1)"
        using True st(1,2) by (subst log_poll.simps) (simp add: raft_log_get_base_def)
      then show ?thesis
        using False st True by (intro exI[of _ e] exI[of _ m1] exI[of _ 0]) auto
    next
      case e0: True
      have len: "length (log_ents m1) = length (log_ents me) - 1" "0 < length (log_ents me)"
        using st(5) e0 by auto
      then have cnt: "nat (lcount m1) = nat (lcount me) - 1" "0 < nat (lcount me)" by simp_all
      have c1: "lcount m1 = lcount me - 1"
        using cnt log_inv_bounds(3)[OF st(3)] by linarith
      have rec: "log_poll me first_idx = log_poll m1 first_idx"
        using True st(1) e0 by (subst log_poll.simps) (simp add: raft_log_get_base_def)
      from less.hyps[OF _ st(3)] cnt obtain e' me' d where
        IH: "log_poll m1 first_idx = Some (e', me')" "e' \<le> 0" "log_inv me'" "lcb me' = lcb m1"
          "d \<le> length (log_ents m1)" "lbase me' = lbase m1 + int d" "log_ents me' = drop d (log_ents m1)"
          "d = 0 \<or> lbase me' < first_idx"
          "e' = 0 \<longrightarrow> lbase me' = max (lbase m1) (first_idx - 1)"
          "first_idx \<le> lbase m1 + lcount m1 + 1 \<and> log_poll_cb (lcb m1) = None \<longrightarrow> e' = 0"
        by (metis diff_less zero_less_one)
      have s5: "lbase m1 = lbase me + 1" "log_ents m1 = tl (log_ents me)" using st(5) e0 by auto
      show ?thesis
        using IH rec s5 len st(4) c1 True
        by (intro exI[of _ e'] exI[of _ me'] exI[of _ "Suc d"]) (auto simp: drop_Suc)
    qed
  qed
qed

lemma log_get_batch_copy_spec:
  assumes "\<And>j. j < n \<Longrightarrow> arr_get (lentries me) (p + int j) = Some (Some (es ! (k + j)))" "k + n \<le> length es"
  shows "log_get_batch_copy me p n = Some (take n (drop k es))"
  using assms
proof (induction n arbitrary: p k)
  case (Suc n)
  have "log_get_batch_copy me (p + 1) n = Some (take n (drop (Suc k) es))"
    by (rule Suc.IH) (use Suc.prems(1)[of "Suc _"] Suc.prems(2) in \<open>auto simp: algebra_simps\<close>)
  moreover have "arr_get (lentries me) p = Some (Some (es ! k))" using Suc.prems(1)[of 0] by simp
  moreover have "take (Suc n) (drop k es) = es ! k # take n (drop (Suc k) es)"
    using Suc.prems(2) by (simp add: Cons_nth_drop_Suc [symmetric])
  ultimately show ?case by simp
qed simp

lemma log_get_batch_spec:
  assumes inv: "log_inv me" and "lbase me < idx" "idx \<le> lbase me + lcount me" "1 \<le> n"
  shows "\<exists>k. 1 \<le> k \<and> k \<le> n \<and> k \<le> lbase me + lcount me - idx + 1 \<and>
           log_get_batch me idx n = Some (k, take (nat k) (drop (nat (idx - 1 - lbase me)) (log_ents me)))"
proof -
  note b = log_inv_bounds[OF inv]
  let ?k = "idx - 1 - lbase me"
  let ?p = "(lfront me + ?k) mod lsize me"
  let ?m = "if ?p < lback me then lback me - ?p else lsize me - ?p"
  have k: "0 \<le> ?k" "?k < lcount me" using assms by auto
  have p: "?p = (if lfront me + ?k < lsize me then lfront me + ?k else lfront me + ?k - lsize me)"
    by (rule ring_pos) (use b k in auto)
  have bk: "lback me = (if lfront me + lcount me < lsize me then lfront me + lcount me else lfront me + lcount me - lsize me)"
    unfolding b(7) by (rule ring_pos) (use b in auto)
  have rem: "c_rem (lfront me + (idx - 1) - lbase me) (lsize me) = Some ?p"
    using b k by (simp add: c_rem_nonneg algebra_simps)
  have frm: "raft_log_get_from_idx me idx = Some (Some ?p, ?m)"
    using assms rem b by (simp add: raft_log_get_from_idx_def)
  have m1: "1 \<le> ?m" "?m \<le> lcount me - ?k"
    using p bk b k by (auto split: if_splits)
  let ?c = "if ?m > n then n else ?m"
  have c: "1 \<le> ?c" "?c \<le> n" "?c \<le> ?m" using m1 assms(4) by auto
  have get: "arr_get (lentries me) (?p + int j) = Some (Some (log_ents me ! (nat ?k + j)))" if "j < nat ?c" for j
  proof -
    have j: "int j < ?m" using that c by linarith
    have "(lfront me + (?k + int j)) mod lsize me =
       (if lfront me + (?k + int j) < lsize me then lfront me + (?k + int j) else lfront me + (?k + int j) - lsize me)"
      by (rule ring_pos) (use b k j m1 in auto)
    then have "?p + int j = (lfront me + (?k + int j)) mod lsize me"
      using p bk b k j by (auto split: if_splits)
    moreover have "nat (?k + int j) = nat ?k + j" using k by simp
    ultimately show ?thesis
      using arr_get_slot[OF inv, of "?k + int j"] k j m1 by auto
  qed
  have "log_get_batch_copy me ?p (nat ?c) = Some (take (nat ?c) (drop (nat ?k) (log_ents me)))"
    by (rule log_get_batch_copy_spec[OF get]) (use k c m1 in auto)
  then have "log_get_batch me idx n = Some (?c, take (nat ?c) (drop (nat ?k) (log_ents me)))"
    using frm m1 by (simp add: log_get_batch_def Let_def)
  then show ?thesis using c m1 by (intro exI[of _ ?c]) auto
qed

lemma log_get_batch_outside:
  assumes "log_inv me" "1 \<le> idx" "idx \<le> lbase me \<or> lbase me + lcount me < idx"
  shows "log_get_batch me idx n = Some (0, [])"
  using assms by (auto simp: log_get_batch_def raft_log_get_from_idx_def)

lemma raft_log_clear_entries_loop_spec:
  assumes "log_inv me" "lbase me \<le> i"
  shows "\<exists>u. raft_log_clear_entries_loop me i = Some (me\<lparr>lraft := u\<rparr>)"
  using assms
proof (induction me i rule: raft_log_clear_entries_loop.induct)
  case (1 me i)
  note b = log_inv_bounds[OF "1.prems"(1)]
  show ?case
  proof (cases "i \<le> lbase me + lcount me")
    case False
    then show ?thesis by (subst raft_log_clear_entries_loop.simps) (auto intro!: exI[of _ "lraft me"])
  next
    case True
    let ?k = "(lfront me + i - lbase me) mod lsize me"
    let ?x = "lentries me ! nat ?k"
    let ?u = "case log_clear (lcb me) of None \<Rightarrow> lraft me | Some f \<Rightarrow> snd (f (lraft me) ?x i)"
    have rem: "c_rem (lfront me + i - lbase me) (lsize me) = Some ?k"
      using b "1.prems"(2) by (simp add: c_rem_nonneg)
    have get: "arr_get (lentries me) ?k = Some ?x" using b by (intro arr_get_Some) auto
    have inv': "log_inv (me\<lparr>lraft := ?u\<rparr>)"
      using "1.prems"(1) by (subst same_ring(1)[of _ me]) simp_all
    obtain u' where "raft_log_clear_entries_loop (me\<lparr>lraft := ?u\<rparr>) (i + 1) = Some (me\<lparr>lraft := u'\<rparr>)"
      using "1.IH"[OF True rem get refl inv'] "1.prems"(2) by auto
    then show ?thesis
      using True rem get by (subst raft_log_clear_entries_loop.simps) (auto simp: Let_def)
  qed
qed

lemma raft_log_clear_entries_spec:
  assumes "log_inv me"
  shows "\<exists>u. raft_log_clear_entries me = Some (me\<lparr>lraft := u\<rparr>)"
proof (cases "lcount me = 0 \<or> log_clear (lcb me) = None")
  case True
  then show ?thesis by (auto simp: raft_log_clear_entries_def intro!: exI[of _ "lraft me"])
next
  case False
  then show ?thesis using raft_log_clear_entries_loop_spec[OF assms, of "lbase me"] by (auto simp: raft_log_clear_entries_def)
qed

lemma log_reset_spec:
  assumes "log_inv me" "1 \<le> first_idx"
  shows "\<exists>me'. log_reset me first_idx t = Some me' \<and> log_inv me' \<and> lcb me' = lcb me \<and>
           lbase me' = first_idx - 1 \<and> log_ents me' = []"
proof -
  obtain u where "raft_log_clear_entries me = Some (me\<lparr>lraft := u\<rparr>)"
    using raft_log_clear_entries_spec[OF assms(1)] by blast
  moreover have "log_inv ((raft_log_clear (me\<lparr>lraft := u\<rparr>))\<lparr>lbase := first_idx - 1\<rparr>)"
    using assms by (auto simp: raft_log_clear_def log_inv_def)
  ultimately show ?thesis using assms(2) by (simp add: log_reset_def raft_log_clear_def log_ents_def)
qed

lemma raft_log_alloc_spec:
  assumes "1 \<le> n" "raft_log_alloc calloc u n = Some me"
  shows "log_inv me" "lbase me = 0" "log_ents me = []" "lcb me = no_log_cbs"
  using assms
  by (auto simp: raft_log_alloc_def raft_log_clear_def log_inv_def log_cbs_ok_def no_log_cbs_def log_ents_def split: if_splits)

lemma log_init_spec:
  assumes "log_init calloc u arg = Some me" "\<And>cbs. arg = Some cbs \<Longrightarrow> log_cbs_ok cbs"
  shows "log_inv me \<and> lbase me = 0 \<and> log_ents me = []"
proof -
  obtain l where l: "raft_log_alloc calloc u INITIAL_CAPACITY = Some l"
    and me: "me = (case arg of None \<Rightarrow> l | Some cbs \<Rightarrow> raft_log_set_callbacks l cbs u)"
    using assms(1) by (auto simp: log_init_def raft_log_new_def option_do)
  note a = raft_log_alloc_spec[OF _ l, simplified]
  show ?thesis
    using a me assms(2)
    by (auto simp: raft_log_set_callbacks_def log_inv_def log_ents_def slot_def split: option.splits)
qed

section \<open>The log implements the interface\<close>

definition raft_log_internal_impl :: "(int \<Rightarrow> bool) \<Rightarrow> 'u raft_log raft_log_impl" where
  "raft_log_internal_impl raft_calloc =
     \<lparr>li_reset = log_reset,
      li_append = log_append raft_calloc,
      li_poll = log_poll,
      li_pop = log_pop,
      li_get = log_get,
      li_get_batch = log_get_batch,
      li_first_idx = log_first_idx,
      li_current_idx = log_current_idx,
      li_count = log_count,
      li_sync = log_sync\<rparr>"

lemma raft_log_internal_impl_sel [simp]:
  "li_reset (raft_log_internal_impl c) = log_reset"
  "li_append (raft_log_internal_impl c) = log_append c"
  "li_poll (raft_log_internal_impl c) = log_poll"
  "li_pop (raft_log_internal_impl c) = log_pop"
  "li_get (raft_log_internal_impl c) = log_get"
  "li_get_batch (raft_log_internal_impl c) = log_get_batch"
  "li_first_idx (raft_log_internal_impl c) = log_first_idx"
  "li_current_idx (raft_log_internal_impl c) = log_current_idx"
  "li_count (raft_log_internal_impl c) = log_count"
  "li_sync (raft_log_internal_impl c) = log_sync"
  by (simp_all add: raft_log_internal_impl_def)

declare log_delete_loop.simps [code]
declare log_poll.simps [code]

interpretation internal_log: raft_log_store "raft_log_internal_impl c" log_inv lbase log_ents
proof
  fix l :: "'u raft_log" and i n t :: int and ety :: raft_entry
  assume inv: "log_inv l"
  note b = log_inv_bounds[OF inv]
  have len: "int (length (log_ents l)) = lcount l" using b by simp
  show "0 \<le> lbase l" by (rule b)
  show "li_first_idx (raft_log_internal_impl c) l = lbase l + 1"
    by (simp add: log_first_idx_def raft_log_get_base_def)
  show "li_current_idx (raft_log_internal_impl c) l = lbase l + int (length (log_ents l))"
    unfolding len by (simp add: log_current_idx_def raft_log_get_current_idx_def raft_log_count_def)
  show "li_count (raft_log_internal_impl c) l = int (length (log_ents l))"
    unfolding len by (simp add: log_count_def raft_log_count_def)
  show "li_get (raft_log_internal_impl c) l i = Some (ent_at (lbase l) (log_ents l) i)"
    using raft_log_get_at_idx_spec[OF inv, of i] by (simp add: log_get_def ent_at_def b(3))
  show "\<exists>e l'. li_append (raft_log_internal_impl c) l ety = Some (e, l') \<and> log_inv l' \<and> lbase l' = lbase l \<and>
      (if e = 0 then log_ents l' = log_ents l @ [ety] else e < 0 \<and> log_ents l' = log_ents l)"
    using raft_log_append_entry_spec[OF inv, of c ety] by (simp add: log_append_def)
  show "\<exists>e l' d. li_poll (raft_log_internal_impl c) l i = Some (e, l') \<and> e \<le> 0 \<and> log_inv l' \<and>
      d \<le> length (log_ents l) \<and> lbase l' = lbase l + int d \<and> log_ents l' = drop d (log_ents l) \<and>
      (d = 0 \<or> lbase l' < i) \<and> (e = 0 \<longrightarrow> lbase l' = max (lbase l) (i - 1))"
    using log_poll_spec[OF inv, of i] by auto
  show "\<exists>e l'. li_sync (raft_log_internal_impl c) l = Some (e, l') \<and> log_inv l' \<and> lbase l' = lbase l \<and>
      log_ents l' = log_ents l"
    using inv by (simp add: log_sync_def)
  show "\<exists>l'. li_reset (raft_log_internal_impl c) l i t = Some l' \<and> log_inv l' \<and> lbase l' = i - 1 \<and> log_ents l' = []"
    if "1 \<le> i"
    using log_reset_spec[OF inv that, of t] by auto
  show "\<exists>e l'. li_pop (raft_log_internal_impl c) l i = Some (e, l') \<and> log_inv l' \<and> lbase l' = lbase l \<and>
      (\<exists>n. nat (i - 1 - lbase l) \<le> n \<and> log_ents l' = take n (log_ents l)) \<and>
      (e = 0 \<longrightarrow> log_ents l' = take (nat (i - 1 - lbase l)) (log_ents l))"
    if "lbase l < i"
    using log_pop_spec[OF inv that] by auto
  show "\<exists>k. 1 \<le> k \<and> k \<le> n \<and>
      li_get_batch (raft_log_internal_impl c) l i n = Some (k, take (nat k) (drop (nat (i - 1 - lbase l)) (log_ents l)))"
    if "lbase l < i" "i \<le> lbase l + int (length (log_ents l))" "1 \<le> n"
    using log_get_batch_spec[OF inv that(1) _ that(3)] that(2) by (auto simp: len b(3))
  show "li_get_batch (raft_log_internal_impl c) l i n = Some (0, [])"
    if "1 \<le> i" "i \<le> lbase l \<or> lbase l + int (length (log_ents l)) < i"
    using log_get_batch_outside[OF inv that(1)] that(2) by (auto simp: len b(3))
qed

end
