(* ===== verification/Raft_Example.thy ===== *)
theory Raft_Example
  imports Raft_Log Raft_Server_Model
begin

text \<open>
  A concrete server on which the theorems about the server are instantiated: the in-memory log,
  an environment that keeps the persisted term and vote and the list of applied entries, and a
  cluster of three voting nodes in which this server is node 1.
\<close>

type_synonym ex_env = "(raft_term_t \<times> raft_node_id_t) \<times> (raft_index_t \<times> raft_entry) list"

type_synonym ex_log = "unit raft_log"

definition ex_ctx :: "(ex_log, ex_env) raft_ctx" where
  "ex_ctx =
     \<lparr>impl = raft_log_internal_impl (\<lambda>_. True),
      cb_send_requestvote = Some (\<lambda>me n req. (0, udata me)),
      cb_send_appendentries = Some (\<lambda>me n req. (0, udata me)),
      cb_send_snapshot = None,
      cb_send_timeoutnow = Some (\<lambda>me n. (0, udata me)),
      cb_load_snapshot = None,
      cb_get_snapshot_chunk = None,
      cb_store_snapshot_chunk = Some (\<lambda>me i off ch. (0, udata me)),
      cb_clear_snapshot = Some (\<lambda>me. (0, udata me)),
      cb_applylog = Some (\<lambda>me ety i. (0, (fst (udata me), snd (udata me) @ [(i, ety)]))),
      cb_persist_metadata = Some (\<lambda>me t v. (0, ((t, v), snd (udata me)))),
      cb_get_node_id = Some (\<lambda>me ety i. (ety_id ety, udata me)),
      cb_node_has_sufficient_logs = None,
      cb_timestamp = None,
      cb_notify_membership_event = None,
      cb_notify_state_event = None,
      cb_notify_transfer_event = None,
      cb_backpressure = None,
      cb_get_entries_to_send = None,
      c_call_read = (\<lambda>p b u. u),
      c_rand = (\<lambda>u. (7, u)),
      c_calloc = (\<lambda>_. True),
      c_realloc = (\<lambda>_. True)\<rparr>"

definition ex_boot :: "(ex_log, ex_env) raft_server option" where
  "ex_boot =
     do {
       m \<leftarrow> raft_new_with_log ex_ctx (log_init (\<lambda>_. True) () None) ((0, RAFT_NODE_ID_NONE), []);
       me \<leftarrow> m;
       (_, me) \<leftarrow> raft_add_node ex_ctx me 0 1 True;
       (_, me) \<leftarrow> raft_add_node ex_ctx me 0 2 False;
       (_, me) \<leftarrow> raft_add_node ex_ctx me 0 3 False;
       Some me
     }"

definition ex_server :: "(ex_log, ex_env) raft_server" where
  "ex_server = the ex_boot"

definition ex_entry :: "raft_term_t \<Rightarrow> int \<Rightarrow> raft_entry" where
  "ex_entry t i = \<lparr>ety_term = t, ety_id = i, ety_session = 0, ety_type = RAFT_LOGTYPE_NORMAL, ety_data = []\<rparr>"

lemma ex_boot_Some: "ex_boot = Some ex_server"
proof -
  have "ex_boot \<noteq> None" by code_simp
  then show ?thesis by (simp add: ex_server_def)
qed

end
