(* ===== verification/Raft_Server_Safety.thy ===== *)
theory Raft_Server_Safety
  imports Raft_Server_Steps Raft_Example
begin

text \<open>
  What every run of the server keeps, whatever messages, timeouts and client requests arrive and
  whichever callbacks fail: at most one vote in a term, also across a crash; the invariant of the
  indexes, terms and nodes; the committed part of the log; and the order in which entries reach the
  state machine. The proofs are inductions over the small steps of \<open>Raft_Server_Steps\<close>. What
  depends on the log is proved once for every log behind the interface, in the locale
  \<open>raft_on_log\<close>, and used for the in-memory log through the interpretation \<open>internal_raft\<close>.
\<close>

section \<open>Terms and votes\<close>

definition vote_kept :: "('l, 'u) raft_server \<Rightarrow> ('l, 'u) raft_server \<Rightarrow> bool" where
  "vote_kept me me' \<longleftrightarrow>
     current_term me \<le> current_term me' \<and>
     (current_term me' = current_term me \<longrightarrow>
        voted_for me = RAFT_NODE_ID_NONE \<or> voted_for me' = voted_for me)"

lemma vote_kept_refl: "vote_kept me me"
  by (simp add: vote_kept_def)

lemma vote_kept_trans: "vote_kept a b \<Longrightarrow> vote_kept b d \<Longrightarrow> vote_kept a d"
  by (auto simp: vote_kept_def)

lemma srv_step_vote_kept: "srv_step c Q M me me' \<Longrightarrow> vote_kept me me'"
  by (induction rule: srv_step.induct)
    (auto simp: vote_kept_def same_core_def dest: call_persist_frame)

lemma srv_steps_vote_kept: "srv_steps c Q M me me' \<Longrightarrow> vote_kept me me'"
  by (induction rule: rtranclp_induct) (auto intro: vote_kept_refl vote_kept_trans srv_step_vote_kept)

section \<open>Durability of terms and votes\<close>

definition metadata_disk :: "('l, 'u) raft_ctx \<Rightarrow> ('u \<Rightarrow> raft_term_t \<times> raft_node_id_t) \<Rightarrow> bool" where
  "metadata_disk c disk \<longleftrightarrow>
     (\<exists>f. cb_persist_metadata c = Some f \<and>
        (\<forall>me t v e u. f me t v = (e, u) \<longrightarrow>
           disk u = (t, v) \<or> e \<noteq> 0 \<and> disk u = disk (udata me))) \<and>
     (\<forall>me u. env_call c me u \<longrightarrow> disk u = disk (udata me)) \<and>
     (\<forall>f me ety i e u. cb_applylog c = Some f \<longrightarrow> f me ety i = (e, u) \<longrightarrow> disk u = disk (udata me))"

definition disk_covers :: "('u \<Rightarrow> raft_term_t \<times> raft_node_id_t) \<Rightarrow> ('l, 'u) raft_server \<Rightarrow> bool" where
  "disk_covers disk me \<longleftrightarrow>
     vote_kept me (snd (raft_restore_metadata me (fst (disk (udata me))) (snd (disk (udata me)))))"

lemma disk_covers_iff:
  "disk_covers disk me \<longleftrightarrow>
     current_term me \<le> fst (disk (udata me)) \<and>
     (fst (disk (udata me)) = current_term me \<longrightarrow>
        voted_for me = RAFT_NODE_ID_NONE \<or> snd (disk (udata me)) = voted_for me)"
  by (simp add: disk_covers_def vote_kept_def raft_restore_metadata_def)

lemma metadata_diskD:
  assumes "metadata_disk c disk"
  shows "cb_persist_metadata c = Some f \<Longrightarrow> f me t v = (e, u) \<Longrightarrow>
      disk u = (t, v) \<or> e \<noteq> 0 \<and> disk u = disk (udata me)"
    and "cb_persist_metadata c \<noteq> None"
    and "env_call c me u \<Longrightarrow> disk u = disk (udata me)"
    and "cb_applylog c = Some g \<Longrightarrow> g me ety i = (e, u) \<Longrightarrow> disk u = disk (udata me)"
  using assms unfolding metadata_disk_def by (metis option.inject, blast+)

lemma metadata_disk_call:
  "metadata_disk c disk \<Longrightarrow> call_persist_metadata c me t v = (0, me') \<Longrightarrow>
   \<exists>u. me' = me\<lparr>udata := u\<rparr> \<and> disk u = (t, v)"
  using metadata_diskD(1)[of c disk _ me t v 0] metadata_diskD(2)[of c disk]
  by (fastforce simp: call_persist_metadata_def elim!: do_elims)

lemma srv_step_disk_covers:
  assumes "srv_step c Q M me me'" "metadata_disk c disk" "\<And>u u'. Q u u' \<Longrightarrow> disk u' = disk u"
    "disk_covers disk me"
  shows "disk_covers disk me'"
  using assms(1,4)
proof (induction rule: srv_step.induct)
  case (step_env me u)
  then show ?case using metadata_diskD(3)[OF assms(2)] assms(3) by (auto simp: disk_covers_iff)
next
  case (step_persist_fail f me t v e u)
  then show ?case
    using metadata_diskD(1)[OF assms(2) step_persist_fail(1,2)] by (auto simp: disk_covers_iff)
next
  case (step_apply me ety u)
  then show ?case
    using metadata_diskD(4)[OF assms(2)] by (auto simp: disk_covers_iff split: option.splits)
next
  case (step_apply_fail f me ety e u)
  then show ?case using metadata_diskD(4)[OF assms(2)] by (auto simp: disk_covers_iff)
qed (use metadata_disk_call[OF assms(2)] in \<open>fastforce simp: disk_covers_iff same_core_def\<close>)+

lemma srv_steps_disk_covers:
  "srv_steps c Q M me me' \<Longrightarrow> metadata_disk c disk \<Longrightarrow> (\<And>u u'. Q u u' \<Longrightarrow> disk u' = disk u) \<Longrightarrow>
   disk_covers disk me \<Longrightarrow> disk_covers disk me'"
  by (induction rule: rtranclp_induct) (auto intro: srv_step_disk_covers)

section \<open>The server over a log store\<close>

definition srv_ok ::
  "('l \<Rightarrow> bool) \<Rightarrow> ('l \<Rightarrow> raft_index_t) \<Rightarrow> ('l \<Rightarrow> raft_entry list) \<Rightarrow> ('l, 'u) raft_server \<Rightarrow> bool" where
  "srv_ok linv base_of ents me \<longleftrightarrow>
     linv (log_st me) \<and>
     base_of (log_st me) \<le> last_applied_idx me \<and>
     last_applied_idx me \<le> commit_idx me \<and>
     commit_idx me \<le> base_of (log_st me) + int (length (ents (log_st me))) \<and>
     snapshot_last_idx me \<le> last_applied_idx me \<and>
     next_snapshot_last_idx me \<le> last_applied_idx me \<and>
     (\<forall>ety \<in> set (ents (log_st me)). ety_term ety \<le> current_term me) \<and>
     last_applied_term me \<le> current_term me \<and>
     snapshot_last_term me \<le> current_term me \<and>
     next_snapshot_last_term me \<le> current_term me \<and>
     nodes_ok (nodes me)"

definition stable ::
  "('l \<Rightarrow> raft_index_t) \<Rightarrow> ('l \<Rightarrow> raft_entry list) \<Rightarrow> ('l, 'u) raft_server \<Rightarrow> ('l, 'u) raft_server \<Rightarrow> bool" where
  "stable base_of ents me me' \<longleftrightarrow>
     base_of (log_st me) \<le> base_of (log_st me') \<and> commit_idx me \<le> commit_idx me' \<and>
     last_applied_idx me \<le> last_applied_idx me' \<and>
     (\<forall>i. base_of (log_st me') < i \<longrightarrow> i \<le> commit_idx me \<longrightarrow>
        ent_at (base_of (log_st me')) (ents (log_st me')) i = ent_at (base_of (log_st me)) (ents (log_st me)) i)"

lemma stable_refl: "stable b es me me"
  by (simp add: stable_def)

lemma stable_trans: "stable b es x y \<Longrightarrow> stable b es y z \<Longrightarrow> stable b es x z"
  by (force simp: stable_def)

text \<open>
  The state machine as the sequence \<open>tr u\<close> of the entries it has applied: the \<open>applylog\<close>
  callback adds one on success, and nothing else touches it.
\<close>

definition traces_apply ::
  "('l, 'u) raft_ctx \<Rightarrow> ('u \<Rightarrow> (raft_index_t \<times> raft_entry) list) \<Rightarrow> bool" where
  "traces_apply c tr \<longleftrightarrow>
     (\<exists>f. cb_applylog c = Some f \<and>
        (\<forall>me ety i e u. f me ety i = (e, u) \<longrightarrow>
           tr u = (if e = 0 then tr (udata me) @ [(i, ety)] else tr (udata me)))) \<and>
     (\<forall>me u. env_call c me u \<longrightarrow> tr u = tr (udata me)) \<and>
     (\<forall>f me t v e u. cb_persist_metadata c = Some f \<longrightarrow> f me t v = (e, u) \<longrightarrow> tr u = tr (udata me))"

definition applied_ok ::
  "('l \<Rightarrow> raft_index_t) \<Rightarrow> ('l \<Rightarrow> raft_entry list) \<Rightarrow> ('u \<Rightarrow> (raft_index_t \<times> raft_entry) list) \<Rightarrow>
   ('l, 'u) raft_server \<Rightarrow> bool" where
  "applied_ok base_of ents tr me \<longleftrightarrow>
     sorted_wrt (<) (map fst (tr (udata me))) \<and>
     (\<forall>(i, ety) \<in> set (tr (udata me)). i \<le> last_applied_idx me \<and>
        (base_of (log_st me) < i \<longrightarrow> ent_at (base_of (log_st me)) (ents (log_st me)) i = Some ety))"

lemma traces_applyD:
  assumes "traces_apply c tr"
  shows "cb_applylog c = Some f \<Longrightarrow> f me ety i = (e, u) \<Longrightarrow>
      tr u = (if e = 0 then tr (udata me) @ [(i, ety)] else tr (udata me))"
    and "cb_applylog c \<noteq> None"
    and "env_call c me u \<Longrightarrow> tr u = tr (udata me)"
    and "cb_persist_metadata c = Some g \<Longrightarrow> g me t v = (e, u) \<Longrightarrow> tr u = tr (udata me)"
  using assms unfolding traces_apply_def by (metis option.inject, blast+)

lemma call_persist_trace:
  "traces_apply c tr \<Longrightarrow> call_persist_metadata c me t v = (e, me') \<Longrightarrow>
   me' = me\<lparr>udata := udata me'\<rparr> \<and> tr (udata me') = tr (udata me)"
  using traces_applyD(4)[of c tr _ me t v e]
  by (auto simp: call_persist_metadata_def elim!: do_elims)

lemma applied_ok_stable:
  "applied_ok b es tr me \<Longrightarrow> stable b es me me' \<Longrightarrow> last_applied_idx me \<le> commit_idx me \<Longrightarrow>
   tr (udata me') = tr (udata me) \<Longrightarrow> applied_ok b es tr me'"
  by (force simp: applied_ok_def stable_def)

locale raft_on_log = raft_log_store "impl c" linv base_of ents
  for c :: "('l, 'u) raft_ctx" and linv and base_of and ents
begin

lemma srv_step_ok:
  assumes "srv_step c Q M me me'" "srv_ok linv base_of ents me"
  shows "srv_ok linv base_of ents me' \<and> stable base_of ents me me'"
  using assms
proof (induction rule: srv_step.induct)
  case (step_append ety me e l)
  then show ?case
    using append[of "log_st me" ety]
    by (auto simp: srv_ok_def stable_def ent_at_append_old split: if_splits)
next
  case (step_pop me i e l)
  then have "base_of (log_st me) < i" by (auto simp: srv_ok_def)
  with pop[of "log_st me" i] step_pop obtain n where
    "linv l" "base_of l = base_of (log_st me)" "nat (i - 1 - base_of (log_st me)) \<le> n"
    "ents l = take n (ents (log_st me))"
    by (auto simp: srv_ok_def)
  with step_pop show ?case
    by (auto simp: srv_ok_def stable_def ent_at_def dest: in_set_takeD)
next
  case (step_sync me e l)
  then show ?case using sync[of "log_st me"] by (auto simp: srv_ok_def stable_def)
next
  case (step_compact me e l)
  then obtain d where "linv l" "d \<le> length (ents (log_st me))" "base_of l = base_of (log_st me) + int d"
    "ents l = drop d (ents (log_st me))" "d = 0 \<or> base_of l < snapshot_last_idx me + 1"
    using poll[of "log_st me" "snapshot_last_idx me + 1"] by (auto simp: srv_ok_def)
  with step_compact show ?case
    by (auto simp: srv_ok_def stable_def ent_at_drop dest: in_set_dropD)
next
  case (step_commit me i)
  then show ?case using current_idx[of "log_st me"] by (auto simp: srv_ok_def stable_def raft_get_current_idx_def)
next
  case (step_apply me ety u)
  then show ?case
    using get[of "log_st me" "last_applied_idx me + 1"]
    by (auto simp: srv_ok_def stable_def raft_get_entry_from_idx_def dest: ent_at_set[OF sym])
next
  case (step_load i t me l)
  then show ?case
    using reset[of "log_st me" "i + 1" t] current_idx[of "log_st me"]
    by (auto simp: srv_ok_def stable_def raft_get_current_idx_def ent_at_def)
next
  case (step_term me t me' st)
  then show ?case by (fastforce simp: srv_ok_def stable_def dest!: call_persist_frame)
next
  case (step_vote st me v me')
  then show ?case by (auto simp: srv_ok_def stable_def dest!: call_persist_frame)
qed (auto simp: srv_ok_def stable_def same_core_def)

lemma srv_steps_ok: "srv_steps c Q M me me' \<Longrightarrow> srv_ok linv base_of ents me \<Longrightarrow>
   srv_ok linv base_of ents me' \<and> stable base_of ents me me'"
  by (induction rule: rtranclp_induct)
    (auto intro: stable_refl stable_trans dest: srv_step_ok)

lemma srv_step_applied:
  assumes step: "srv_step c Q M me me'" and tr: "traces_apply c tr" "\<And>u u'. Q u u' \<Longrightarrow> tr u' = tr u"
    and ok: "srv_ok linv base_of ents me" and app: "applied_ok base_of ents tr me"
  shows "applied_ok base_of ents tr me'"
proof (cases "tr (udata me') = tr (udata me)")
  case True
  with srv_step_ok[OF step ok] ok app show ?thesis
    by (auto simp: srv_ok_def intro: applied_ok_stable)
next
  case False
  from step False obtain ety where ety:
    "raft_get_entry_from_idx c me (last_applied_idx me + 1) = Some (Some ety)"
    "last_applied_idx me' = last_applied_idx me + 1" "log_st me' = log_st me"
    "tr (udata me') = tr (udata me) @ [(last_applied_idx me + 1, ety)]"
    by (cases rule: srv_step.cases)
      (use traces_applyD[OF tr(1)] call_persist_trace[OF tr(1)] tr(2) in
        \<open>fastforce simp: same_core_def split: option.splits\<close>)+
  have "linv (log_st me)" using ok by (simp add: srv_ok_def)
  with ety(1) get have "ent_at (base_of (log_st me)) (ents (log_st me)) (last_applied_idx me + 1) = Some ety"
    by (simp add: raft_get_entry_from_idx_def)
  with app ety(2-4) show ?thesis
    by (fastforce simp: applied_ok_def sorted_wrt_append)
qed

lemma srv_steps_applied:
  "srv_steps c Q M me me' \<Longrightarrow> traces_apply c tr \<Longrightarrow> (\<And>u u'. Q u u' \<Longrightarrow> tr u' = tr u) \<Longrightarrow>
   srv_ok linv base_of ents me \<Longrightarrow> applied_ok base_of ents tr me \<Longrightarrow> applied_ok base_of ents tr me'"
proof (induction rule: rtranclp_induct)
  case (step y z)
  then show ?case
    using srv_steps_ok[OF step.hyps(1)] srv_step_applied[OF step.hyps(2)] by blast
qed simp

end

section \<open>The server with the in-memory log\<close>

text \<open>\<open>raft_new\<close> installs the table of the in-memory log.\<close>

definition internal_ctx :: "(int \<Rightarrow> bool) \<Rightarrow> ('w raft_log, 'u) raft_ctx \<Rightarrow> ('w raft_log, 'u) raft_ctx" where
  "internal_ctx calloc c = c\<lparr>impl := raft_log_internal_impl calloc\<rparr>"

definition raft_new ::
  "(int \<Rightarrow> bool) \<Rightarrow> ('w raft_log, 'u) raft_ctx \<Rightarrow> 'w \<Rightarrow> 'u \<Rightarrow> ('w raft_log, 'u) raft_server option option" where
  "raft_new calloc c w u = raft_new_with_log (internal_ctx calloc c) (log_init calloc w None) u"

interpretation internal_raft: raft_on_log "internal_ctx calloc c" log_inv lbase log_ents for calloc c
  unfolding raft_on_log_def internal_ctx_def by simp (rule internal_log.raft_log_store_axioms)

lemma raft_new_ok:
  assumes "raft_new calloc c w u = Some (Some me)"
  shows "srv_ok log_inv lbase log_ents me \<and> udata me = snd (c_rand c u) \<and> current_term me = 0 \<and>
    voted_for me = RAFT_NODE_ID_NONE"
proof -
  obtain l where l: "log_init calloc w None = Some l" and me: "log_st me = l"
    "last_applied_idx me = 0 \<and> commit_idx me = 0 \<and> snapshot_last_idx me = 0 \<and> next_snapshot_last_idx me = 0"
    "last_applied_term me = 0 \<and> snapshot_last_term me = 0 \<and> next_snapshot_last_term me = 0"
    "current_term me = 0" "voted_for me = RAFT_NODE_ID_NONE" "nodes me = []" "udata me = snd (c_rand c u)"
    using assms
    by (auto simp: raft_new_def raft_new_with_log_def raft_update_quorum_meta_def raft_set_state_def
        raft_randomize_election_timeout_def internal_ctx_def Let_def elim!: do_elims)
  with log_init_spec[OF l] show ?thesis
    by (auto simp: srv_ok_def nodes_ok_def)
qed

section \<open>Properties\<close>


text \<open>
  C3. Durability. If the callback that persists the metadata writes term and vote atomically and
  may leave either the old or the new pair behind when it fails, then after any sequence of calls
  a crash followed by \<open>raft_restore_metadata\<close> of what is on disk neither lowers the term nor
  loses or changes the vote that the server had cast in its term.
\<close>

theorem crash_keeps_vote:
  assumes "metadata_disk c disk" "loads_with c (\<lambda>u u'. disk u' = disk u)"
    and "disk_covers disk me0" "(raft_api c)\<^sup>*\<^sup>* me0 me"
    and "raft_restore_metadata me (fst (disk (udata me))) (snd (disk (udata me))) = (e, me')"
  shows "current_term me \<le> current_term me' \<and>
    (current_term me' = current_term me \<longrightarrow>
       voted_for me = RAFT_NODE_ID_NONE \<or> voted_for me' = voted_for me)"
  using srv_steps_disk_covers[OF raft_api_star_steps[OF assms(4,2)] assms(1) _ assms(3)] assms(5)
  by (simp add: disk_covers_def vote_kept_def)


text \<open>
  C5. Committed entries. Once an entry is committed its index stays committed, and as long as it
  has not been compacted into a snapshot the log holds the very same entry at that index, along any
  sequence of calls.
\<close>

theorem committed_entries_stable:
  assumes "srv_ok log_inv lbase log_ents me" "loads_with (internal_ctx calloc c) (\<lambda>_ _. True)"
    and "(raft_api (internal_ctx calloc c))\<^sup>*\<^sup>* me me'"
    and "i \<le> commit_idx me" "log_first_idx (log_st me') \<le> i"
  shows "i \<le> commit_idx me' \<and> log_get (log_st me') i = log_get (log_st me) i"
proof -
  have st: "stable lbase log_ents me me'" and ok: "srv_ok log_inv lbase log_ents me'"
    using internal_raft.srv_steps_ok[OF raft_api_star_steps[OF assms(3,2)] assms(1)] by blast+
  show ?thesis
    using st ok assms(1,4,5) internal_log.get[where l = "log_st me" and i = i] internal_log.get[where l = "log_st me'" and i = i]
      internal_log.first_idx[where l = "log_st me'"]
    by (auto simp: srv_ok_def stable_def)
qed

text \<open>
  C10. State machine. If the state machine records each entry that \<open>applylog\<close> accepts, then along
  any run from \<open>raft_new\<close> the recorded indexes are strictly increasing (no entry is applied twice
  or out of order), none is beyond the last applied index, and every recorded entry that is still
  in the log is the log's entry at that index.
\<close>

theorem applied_in_order:
  assumes "raft_new calloc c w u = Some (Some me0)" "tr (snd (c_rand c u)) = []"
    and "traces_apply (internal_ctx calloc c) tr" "loads_with (internal_ctx calloc c) (\<lambda>u u'. tr u' = tr u)"
    and "(raft_api (internal_ctx calloc c))\<^sup>*\<^sup>* me0 me"
  shows "sorted_wrt (<) (map fst (tr (udata me))) \<and>
    (\<forall>(i, ety) \<in> set (tr (udata me)). i \<le> last_applied_idx me \<and>
       (log_first_idx (log_st me) \<le> i \<longrightarrow> log_get (log_st me) i = Some (Some ety)))"
proof -
  note steps = raft_api_star_steps[OF assms(5,4)]
  have "applied_ok lbase log_ents tr me0"
    using raft_new_ok[OF assms(1)] assms(2) by (simp add: applied_ok_def)
  then have app: "applied_ok lbase log_ents tr me"
    using internal_raft.srv_steps_applied[OF steps assms(3)] raft_new_ok[OF assms(1)] by blast
  have "log_inv (log_st me)"
    using internal_raft.srv_steps_ok[OF steps] raft_new_ok[OF assms(1)] by (auto simp: srv_ok_def)
  with app show ?thesis
    using internal_log.get[where l = "log_st me"] internal_log.first_idx[where l = "log_st me"]
    by (auto simp: applied_ok_def)
qed

section \<open>Witnesses\<close>

lemma run2: "\<not> Option.is_none m \<Longrightarrow> m = Some (fst (the m), snd (the m))"
  by (cases m) auto

lemma run3: "\<not> Option.is_none m \<Longrightarrow> m = Some (fst (the m), fst (snd (the m)), snd (snd (the m)))"
  by (cases m) auto

lemma run_new: "\<not> Option.is_none m \<Longrightarrow> \<not> Option.is_none (the m) \<Longrightarrow> m = Some (Some (the (the m)))"
  by (cases m) (auto simp: Option.is_none_def)

definition ex_vote_req :: "raft_term_t \<Rightarrow> raft_node_id_t \<Rightarrow> raft_requestvote_req" where
  "ex_vote_req t i = \<lparr>rv_prevote = False, rv_term = t, rv_candidate_id = i, rv_last_log_idx = 0, rv_last_log_term = 0\<rparr>"

definition ex_voted :: "(ex_log, ex_env) raft_server" where
  "ex_voted = snd (snd (the (raft_recv_requestvote ex_ctx ex_server (ex_vote_req 5 2))))"

definition ex_refused :: "(ex_log, ex_env) raft_server" where
  "ex_refused = snd (snd (the (raft_recv_requestvote ex_ctx ex_voted (ex_vote_req 5 3))))"

definition ex_fresh :: "(ex_log, ex_env) raft_server" where
  "ex_fresh = the (the (raft_new (\<lambda>_. True) ex_ctx () ((0, RAFT_NODE_ID_NONE), [])))"

definition ex_alone :: "(ex_log, ex_env) raft_server" where
  "ex_alone = snd (the (raft_add_node ex_ctx ex_fresh 0 1 True))"

definition ex_leader :: "(ex_log, ex_env) raft_server" where
  "ex_leader = snd (the (raft_periodic_internal ex_ctx ex_alone 100))"

lemma ex_ctx_internal [simp]: "internal_ctx (\<lambda>_. True) ex_ctx = ex_ctx"
  by (simp add: internal_ctx_def ex_ctx_def)

lemma ex_ctx_sel:
  "cb_persist_metadata ex_ctx = Some (\<lambda>me t v. (0, ((t, v), snd (udata me))))"
  "cb_applylog ex_ctx = Some (\<lambda>me ety i. (0, (fst (udata me), snd (udata me) @ [(i, ety)])))"
  by (simp_all add: ex_ctx_def)

lemma ex_loads: "loads_with ex_ctx Q"
  by (simp add: loads_with_def ex_ctx_def)

lemma ex_env_call: assumes "env_call ex_ctx me u" shows "u = udata me"
  using assms
  by (cases rule: env_call.cases) (auto simp: ex_ctx_def)

lemma ex_voted_api: "raft_api ex_ctx ex_server ex_voted"
  unfolding ex_voted_def by (rule api_op, rule op_recv_requestvote, rule run3) code_simp

lemma ex_refused_api: "raft_api ex_ctx ex_voted ex_refused"
  unfolding ex_refused_def by (rule api_op, rule op_recv_requestvote, rule run3) code_simp

lemma ex_fresh_new: "raft_new (\<lambda>_. True) ex_ctx () ((0, RAFT_NODE_ID_NONE), []) = Some (Some ex_fresh)"
  unfolding ex_fresh_def by (rule run_new) code_simp+

lemma ex_leader_api: "(raft_api ex_ctx)\<^sup>*\<^sup>* ex_fresh ex_leader"
proof -
  have "raft_api ex_ctx ex_fresh ex_alone"
    unfolding ex_alone_def by (rule api_add_node, rule run2) code_simp
  moreover have "raft_api ex_ctx ex_alone ex_leader"
    unfolding ex_leader_def by (rule api_op, rule op_periodic, rule run2) code_simp
  ultimately show ?thesis by (meson r_into_rtranclp rtranclp.rtrancl_into_rtrancl)
qed


theorem crash_keeps_vote_witness:
  "metadata_disk ex_ctx fst \<and> disk_covers fst ex_server \<and> fst (udata ex_refused) = (5, 2) \<and>
   voted_for (snd (raft_restore_metadata ex_refused 5 2)) = voted_for ex_refused"
proof -
  have disk: "metadata_disk ex_ctx fst"
    by (auto simp: metadata_disk_def ex_ctx_sel dest!: ex_env_call[THEN sym])
  have start: "disk_covers fst ex_server" by code_simp
  have run: "(raft_api ex_ctx)\<^sup>*\<^sup>* ex_server ex_refused"
    using ex_voted_api ex_refused_api by (meson r_into_rtranclp rtranclp.rtrancl_into_rtrancl)
  have vals: "fst (udata ex_refused) = (5, 2)" "current_term ex_refused = 5" "voted_for ex_refused \<noteq> - 1"
    by code_simp+
  from crash_keeps_vote[OF disk ex_loads start run, of _ "snd (raft_restore_metadata ex_refused 5 2)"] vals
  show ?thesis using disk start by (auto simp: raft_restore_metadata_def)
qed


definition ex_leader2 :: "(ex_log, ex_env) raft_server" where
  "ex_leader2 = snd (snd (the (raft_recv_entry ex_ctx ex_leader (ex_entry 0 9))))"

lemma ex_leader2_api: "raft_api ex_ctx ex_leader ex_leader2"
  unfolding ex_leader2_def by (rule api_op, rule op_recv_entry, rule run3) code_simp

lemma ex_leader_ok: "srv_ok log_inv lbase log_ents ex_leader"
  using internal_raft.srv_steps_ok[of "\<lambda>_. True" ex_ctx, unfolded ex_ctx_internal, OF raft_api_star_steps[OF ex_leader_api ex_loads]]
    raft_new_ok[OF ex_fresh_new] by blast

theorem committed_entries_stable_witness:
  "commit_idx ex_leader = 1 \<and> commit_idx ex_leader2 = 2 \<and> log_get (log_st ex_leader2) 1 = log_get (log_st ex_leader) 1"
proof -
  have vals: "commit_idx ex_leader = 1" "commit_idx ex_leader2 = 2" "log_first_idx (log_st ex_leader2) \<le> 1"
    by code_simp+
  show ?thesis
    using committed_entries_stable[OF ex_leader_ok, of "\<lambda>_. True" ex_ctx, unfolded ex_ctx_internal, OF ex_loads r_into_rtranclp[of "raft_api ex_ctx", OF ex_leader2_api],
        of 1] vals by auto
qed

theorem applied_in_order_witness:
  "map fst (snd (udata ex_leader2)) = [1, 2] \<and> sorted_wrt (<) (map fst (snd (udata ex_leader2)))"
proof -
  have vals: "map fst (snd (udata ex_leader2)) = [1, 2]" by code_simp
  have tr: "traces_apply ex_ctx snd"
    by (auto simp: traces_apply_def ex_ctx_sel dest!: ex_env_call[THEN sym])
  have run: "(raft_api ex_ctx)\<^sup>*\<^sup>* ex_fresh ex_leader2"
    using ex_leader_api ex_leader2_api by (meson rtranclp.rtrancl_into_rtrancl)
  have "snd (snd (c_rand ex_ctx ((0, - 1), []))) = []" by code_simp
  from applied_in_order[where tr = snd, OF ex_fresh_new this, unfolded ex_ctx_internal, OF tr ex_loads run] vals
  show ?thesis by blast
qed

end
