(* ===== verification/Raft_Election.thy ===== *)
theory Raft_Election
  imports Raft_Server_Safety
begin

text \<open>
  Elections. First what a granted vote means for the server that grants it; then an invariant of
  the role, the vote and the marks of one server, kept by every small step of \<open>Raft_Server_Steps\<close>;
  and last a cluster of servers that exchange vote responses, in which no term has two leaders.
\<close>

section \<open>Granting a vote\<close>

lemma raft_get_last_log_term_cong:
  "log_st me' = log_st me \<Longrightarrow> snapshot_last_idx me' = snapshot_last_idx me \<Longrightarrow>
   snapshot_last_term me' = snapshot_last_term me \<Longrightarrow> raft_get_last_log_term c me' = raft_get_last_log_term c me"
  by (simp add: raft_get_last_log_term_def raft_get_current_idx_def raft_get_entry_from_idx_def Let_def)

lemma raft_recv_requestvote_term_frame:
  assumes "raft_recv_requestvote_term c me req = Some (e, me')"
  shows "log_st me' = log_st me \<and> snapshot_last_idx me' = snapshot_last_idx me \<and>
    snapshot_last_term me' = snapshot_last_term me \<and>
    (rv_prevote req \<or> rv_term req \<le> current_term me \<longrightarrow> me' = me)"
  using assms
  by (auto simp: raft_recv_requestvote_term_def raft_become_follower_def raft_set_state_def
      raft_randomize_election_timeout_def raft_clear_incoming_snapshot_def call_notify_state_def
      raft_set_current_term_def Let_def split: option.splits elim!: do_elims dest!: call_persist_frame)

lemma raft_recv_requestvote_grant_granted:
  assumes "raft_recv_requestvote_grant c me req = Some (e, True, me')"
  shows "(\<exists>t. raft_get_last_log_term c me = Some t \<and>
      (t < rv_last_log_term req \<or> t = rv_last_log_term req \<and> raft_get_current_idx c me \<le> rv_last_log_idx req)) \<and>
    current_term me \<le> rv_term req \<and> current_term me' = current_term me \<and>
    (current_term me = rv_term req \<longrightarrow> voted_for me = RAFT_NODE_ID_NONE \<or> voted_for me = rv_candidate_id req) \<and>
    (if rv_prevote req then me' = me else voted_for me' = rv_candidate_id req)"
  using assms unfolding raft_recv_requestvote_grant_def Let_def
  by (elim do_elims)
    (auto simp: raft_vote_for_nodeid_def split: prod.splits if_splits dest!: call_persist_frame)

lemma raft_recv_requestvote_granted:
  assumes "raft_recv_requestvote c me req = Some (e, resp, me')" "rvr_vote_granted resp"
  shows "(\<exists>t. raft_get_last_log_term c me = Some t \<and>
      (t < rv_last_log_term req \<or> t = rv_last_log_term req \<and> raft_get_current_idx c me \<le> rv_last_log_idx req)) \<and>
    current_term me \<le> rv_term req \<and>
    (current_term me = rv_term req \<longrightarrow> voted_for me = RAFT_NODE_ID_NONE \<or> voted_for me = rv_candidate_id req) \<and>
    rvr_prevote resp = rv_prevote req \<and> rvr_request_term resp = rv_term req \<and> rvr_term resp = current_term me' \<and>
    (if rv_prevote req then current_term me' = current_term me \<and> voted_for me' = voted_for me
     else current_term me' = rv_term req \<and> voted_for me' = rv_candidate_id req)"
proof -
  define me0 where "me0 = (if rv_prevote req then count_stat requestvote_prevote_req_received_update me
                           else count_stat requestvote_req_received_update me)"
  have me0: "log_st me0 = log_st me" "snapshot_last_idx me0 = snapshot_last_idx me"
      "snapshot_last_term me0 = snapshot_last_term me" "current_term me0 = current_term me" "voted_for me0 = voted_for me"
    by (simp_all add: me0_def count_stat_def)
  obtain me1 me2 where trm: "raft_recv_requestvote_term c me0 req = Some (0, me1)"
    and grant: "raft_recv_requestvote_grant c me1 req = Some (e, True, me2)"
    and me2: "current_term me' = current_term me2" "voted_for me' = voted_for me2"
    and resp: "rvr_prevote resp = rv_prevote req \<and> rvr_request_term resp = rv_term req \<and> rvr_term resp = current_term me'"
    using assms unfolding raft_recv_requestvote_def Let_def me0_def[symmetric]
    by (auto simp: raft_recv_requestvote_decide_def count_stat_def elim!: do_elims)
  have log: "raft_get_last_log_term c me1 = raft_get_last_log_term c me" "raft_get_current_idx c me1 = raft_get_current_idx c me"
    using raft_recv_requestvote_term_frame[OF trm] me0
    by (auto intro!: raft_get_last_log_term_cong simp: raft_get_current_idx_def)
  have new: "rv_term req \<le> current_term me1" if "\<not> rv_prevote req"
    using raft_recv_requestvote_term_ge[OF trm that] .
  note g = raft_recv_requestvote_grant_granted[OF grant]
  have old: "me1 = me0" if "rv_prevote req \<or> rv_term req \<le> current_term me"
    using raft_recv_requestvote_term_frame[OF trm] me0 that by auto
  show ?thesis
    using g resp me2 log me0 new old by (cases "rv_prevote req \<or> rv_term req \<le> current_term me") auto
qed

text \<open>
  C8. Votes are earned. If a server grants a vote, the candidate's log is at least as up to date as
  its own (a later last term, or the same last term and an index that is not smaller) and the term
  asked for is not older than its own. A pre-vote leaves its term and vote alone; a real vote is in
  the term asked for and recorded for that candidate, and it was free to give it.
\<close>

theorem granted_vote_sound:
  assumes "raft_recv_requestvote c me req = Some (e, resp, me')" "rvr_vote_granted resp"
  shows "(\<exists>t. raft_get_last_log_term c me = Some t \<and>
      (t < rv_last_log_term req \<or> t = rv_last_log_term req \<and> raft_get_current_idx c me \<le> rv_last_log_idx req)) \<and>
    current_term me \<le> rv_term req \<and>
    (current_term me = rv_term req \<longrightarrow> voted_for me = RAFT_NODE_ID_NONE \<or> voted_for me = rv_candidate_id req) \<and>
    rvr_prevote resp = rv_prevote req \<and> rvr_request_term resp = rv_term req \<and> rvr_term resp = current_term me' \<and>
    (if rv_prevote req then current_term me' = current_term me \<and> voted_for me' = voted_for me
     else current_term me' = rv_term req \<and> voted_for me' = rv_candidate_id req)"
  by (rule raft_recv_requestvote_granted[OF assms])

section \<open>The election invariant of one server\<close>

text \<open>
  \<open>mem\<close> is the membership: node identifiers and whether they vote. \<open>W\<close> holds the votes that were
  cast for this server, as pairs of a node and a term.
\<close>

definition elect_ok ::
  "(raft_node_id_t \<times> bool) list \<Rightarrow> raft_node_id_t \<Rightarrow> (raft_node_id_t \<times> raft_term_t) set \<Rightarrow>
   ('l, 'u) raft_server \<Rightarrow> bool" where
  "elect_ok mem i W me \<longleftrightarrow>
     nodes_ok (nodes me) \<and> my_node me = Some i \<and>
     map (\<lambda>n. (node_id n, raft_node_is_voting n)) (nodes me) = mem \<and>
     ((raft_is_candidate me \<or> raft_is_leader me) \<and> (i, True) \<in> set mem \<longrightarrow> voted_for me = i) \<and>
     (raft_is_candidate me \<longrightarrow>
        (\<forall>n \<in> set (nodes me). raft_node_is_voting n \<and> raft_node_has_vote_for_me n \<longrightarrow>
           (node_id n, current_term me) \<in> W)) \<and>
     (raft_is_leader me \<longrightarrow>
        more_than_half (\<lambda>(j, v). j = i \<and> voted_for me = i \<or> (j, current_term me) \<in> W) (filter snd mem))"

lemma more_than_half_mono:
  "more_than_half P xs \<Longrightarrow> (\<And>x. x \<in> set xs \<Longrightarrow> P x \<Longrightarrow> Q x) \<Longrightarrow> more_than_half Q xs"
  using length_filter_mono[of xs P Q] by (fastforce simp: more_than_half_def)

lemma elect_ok_mono: "elect_ok mem i W me \<Longrightarrow> W \<subseteq> W' \<Longrightarrow> elect_ok mem i W' me"
  unfolding elect_ok_def by (blast intro: more_than_half_mono)

lemma elect_okD:
  assumes "elect_ok mem i W me"
  shows "nodes_ok (nodes me)" "my_node me = Some i"
    "map (\<lambda>n. (node_id n, raft_node_is_voting n)) (nodes me) = mem"
  using assms by (simp_all add: elect_ok_def)

lemma elect_ok_cong:
  "elect_ok mem i W me \<Longrightarrow> nodes me' = nodes me \<Longrightarrow> my_node me' = my_node me \<Longrightarrow> state me' = state me \<Longrightarrow>
   current_term me' = current_term me \<Longrightarrow> voted_for me' = voted_for me \<Longrightarrow> elect_ok mem i W me'"
  unfolding elect_ok_def by simp

lemma elect_ok_yield:
  "elect_ok mem i W me \<Longrightarrow> nodes me' = nodes me \<Longrightarrow> my_node me' = my_node me \<Longrightarrow>
   state me' = RAFT_STATE_FOLLOWER \<or> state me' = RAFT_STATE_PRECANDIDATE \<Longrightarrow> elect_ok mem i W me'"
  unfolding elect_ok_def by auto

lemma elect_ok_num_voting: "elect_ok mem i W me \<Longrightarrow> raft_get_num_voting_nodes me = int (length (filter snd mem))"
  by (auto simp: elect_ok_def raft_get_num_voting_nodes_def filter_map o_def)

lemma no_new_votesD:
  assumes "no_new_votes ns ns'"
  shows "map (\<lambda>n. (node_id n, raft_node_is_voting n)) ns' = map (\<lambda>n. (node_id n, raft_node_is_voting n)) ns"
    and "n' \<in> set ns' \<Longrightarrow> \<exists>n \<in> set ns. node_id n = node_id n' \<and> raft_node_is_voting n = raft_node_is_voting n' \<and>
      (raft_node_has_vote_for_me n' \<longrightarrow> raft_node_has_vote_for_me n)"
  using assms unfolding no_new_votes_def
  by (induction rule: list_all2_induct) auto

lemma elect_ok_nodes:
  assumes "elect_ok mem i W me" "nodes_ok ns" "no_new_votes (nodes me) ns"
  shows "elect_ok mem i W (me\<lparr>nodes := ns\<rparr>)"
  using assms(1,2) no_new_votesD(1)[OF assms(3)] no_new_votesD(2)[OF assms(3)]
  unfolding elect_ok_def by fastforce

lemma elect_ok_mark:
  assumes "elect_ok mem i W me" "raft_is_precandidate me \<or> may_mark (Some W) j (current_term me)"
    and "ns = map (\<lambda>n. if node_id n = j then raft_node_set_voted_for_me True n else n) (nodes me)" "nodes_ok ns"
  shows "elect_ok mem i W (me\<lparr>nodes := ns\<rparr>)"
  using assms unfolding elect_ok_def by (auto simp: o_def if_distrib may_mark_def cong: if_cong)

lemma elect_ok_self:
  assumes "elect_ok mem i W me" "deref_my_node me = Some n"
  shows "node_id n = i" "(i, True) \<in> set mem \<Longrightarrow> raft_node_is_voting n"
proof -
  have n: "n \<in> set (nodes me)" and i: "node_id n = i"
    using assms(2) elect_okD(2)[OF assms(1)] by (auto simp: deref_my_node_def dest: raft_get_node_SomeD)
  show "node_id n = i" by (rule i)
  assume "(i, True) \<in> set mem"
  then obtain m where "m \<in> set (nodes me)" "node_id m = i" "raft_node_is_voting m"
    using elect_okD(3)[OF assms(1)] by auto
  moreover have "inj_on node_id (set (nodes me))"
    using elect_okD(1)[OF assms(1)] by (simp add: nodes_ok_def distinct_map)
  ultimately show "raft_node_is_voting n" using n i by (metis inj_onD)
qed

lemma elect_ok_stand:
  assumes "elect_ok mem i W me" "may_stand me"
  shows "elect_ok mem i W (me\<lparr>state := RAFT_STATE_CANDIDATE\<rparr>)"
  using assms elect_ok_self[OF assms(1)] by (auto simp: elect_ok_def may_stand_def split: option.splits)

lemma elect_ok_lead:
  assumes ok: "elect_ok mem i W me" and "raft_is_candidate me" "won_vote me"
  shows "elect_ok mem i W (me\<lparr>state := RAFT_STATE_LEADER\<rparr>)"
proof -
  note elect_okD(1)[OF ok]
  then have "more_than_half (votes_for_me me) (voters me)" using assms(3) by (rule won_vote_iff)
  then have "more_than_half ((\<lambda>(j, v). j = i \<and> voted_for me = i \<or> (j, current_term me) \<in> W) \<circ>
      (\<lambda>n. (node_id n, raft_node_is_voting n))) (voters me)"
    by (rule more_than_half_mono) (use ok assms(2) in \<open>force simp: elect_ok_def\<close>)
  moreover have "filter snd mem = map (\<lambda>n. (node_id n, raft_node_is_voting n)) (voters me)"
    using ok by (auto simp: elect_ok_def filter_map o_def)
  ultimately show ?thesis using ok assms(2) by (auto simp: elect_ok_def more_than_half_map)
qed

lemma elect_ok_vote:
  assumes ok: "elect_ok mem i W me" and "voted_for me = RAFT_NODE_ID_NONE \<or> voted_for me = v"
  shows "elect_ok mem i W (me\<lparr>voted_for := v\<rparr>)"
proof -
  have "i \<noteq> RAFT_NODE_ID_NONE" if "(i, b) \<in> set mem" for b
    using elect_okD(1,3)[OF ok] that by (auto simp: nodes_ok_def)
  then have same: "v = i" if "(i, b) \<in> set mem" "voted_for me = i" for b
    using that assms(2) by auto
  have "more_than_half (\<lambda>(j, w). j = i \<and> v = i \<or> (j, current_term me) \<in> W) (filter snd mem)"
    if "more_than_half (\<lambda>(j, w). j = i \<and> voted_for me = i \<or> (j, current_term me) \<in> W) (filter snd mem)"
    using that by (rule more_than_half_mono) (use same in auto)
  with ok same[of True] show ?thesis unfolding elect_ok_def by simp
qed

lemma srv_step_elect_ok:
  assumes "srv_step c Q (Some W) me me'" "elect_ok mem i W me"
    and "cb_get_node_id c = None" "\<not> may_fail c" "1 < length (filter snd mem)"
  shows "elect_ok mem i W me'"
  using assms(1,2)
proof (induction rule: srv_step.induct)
  case (step_term me t me' st)
  then show ?case
    using elect_ok_num_voting[OF step_term(4)] assms(4,5)
    by (auto simp: term_state_def raft_is_single_node_voting_cluster_def dest!: call_persist_frame
        intro!: elect_ok_yield[OF step_term(4)])
next
  case (step_vote st me v me')
  have "elect_ok mem i W (me\<lparr>voted_for := v\<rparr>)" using step_vote(3,2) by (rule elect_ok_vote)
  then show ?case using call_persist_frame[OF step_vote(1)] by (auto elim!: elect_ok_cong)
next
  case (step_nodes me ns)
  then show ?case by (intro elect_ok_nodes) (auto simp: elect_ok_def)
next
  case (step_member me ns x)
  then show ?case using assms(3) by (simp add: may_change_def)
next
  case (step_mark me j ns)
  then show ?case by (intro elect_ok_mark) (auto simp: elect_ok_def)
next
  case (step_lead me)
  then show ?case
    using elect_ok_num_voting[OF step_lead(2)] assms(5)
    by (auto simp: may_lead_def raft_is_single_node_voting_cluster_def intro: elect_ok_lead)
qed (auto simp: same_core_def intro: elect_ok_stand elim: elect_ok_cong elect_ok_yield)

lemma srv_steps_elect_ok:
  "srv_steps c Q (Some W) me me' \<Longrightarrow> elect_ok mem i W me \<Longrightarrow> cb_get_node_id c = None \<Longrightarrow> \<not> may_fail c \<Longrightarrow>
   1 < length (filter snd mem) \<Longrightarrow> elect_ok mem i W me'"
  by (induction rule: rtranclp_induct) (auto intro: srv_step_elect_ok)

section \<open>The cluster\<close>

text \<open>
  The servers by identifier, the vote responses in flight, as sender, addressee and message, and a
  history variable: the votes seen so far, as node, term and candidate. Responses may be delivered
  any number of times, in any order, or never; all other messages and all timers are inputs that
  the steps of \<open>raft_op\<close> leave open.
\<close>

record ('l, 'u) cluster =
  servers :: "raft_node_id_t \<Rightarrow> ('l, 'u) raft_server"
  replies :: "(raft_node_id_t \<times> raft_node_id_t \<times> raft_requestvote_resp) set"
  cast_votes :: "(raft_node_id_t \<times> raft_term_t \<times> raft_node_id_t) set"

definition set_server ::
  "raft_node_id_t \<Rightarrow> ('l, 'u) raft_server \<Rightarrow> ('l, 'u) cluster \<Rightarrow> ('l, 'u) cluster" where
  "set_server i me C =
     C\<lparr>servers := (servers C)(i := me),
       cast_votes := insert (i, current_term me, voted_for me) (cast_votes C)\<rparr>"

text \<open>
  A restart: the same configuration, no role, and the term and vote that were persisted, which are
  shown in \<open>Raft_Server_Safety\<close> to keep the vote.
\<close>

definition restarted :: "('l, 'u) raft_server \<Rightarrow> ('l, 'u) raft_server \<Rightarrow> bool" where
  "restarted me me' \<longleftrightarrow>
     raft_is_follower me' \<and> vote_kept me me' \<and> my_node me' = my_node me \<and> nodes_ok (nodes me') \<and>
     map (\<lambda>n. (node_id n, raft_node_is_voting n)) (nodes me') =
     map (\<lambda>n. (node_id n, raft_node_is_voting n)) (nodes me)"

inductive cluster_step ::
  "(raft_node_id_t \<Rightarrow> ('l, 'u) raft_ctx) \<Rightarrow> raft_node_id_t set \<Rightarrow> ('l, 'u) cluster \<Rightarrow> ('l, 'u) cluster \<Rightarrow> bool"
  for ctx S where
  cl_op: "i \<in> S \<Longrightarrow> raft_op (ctx i) (servers C i) me \<Longrightarrow> cluster_step ctx S C (set_server i me C)"
| cl_request: "i \<in> S \<Longrightarrow> raft_recv_requestvote (ctx i) (servers C i) req = Some (e, resp, me) \<Longrightarrow>
    cluster_step ctx S C
      (set_server i me (C\<lparr>replies := insert (i, rv_candidate_id req, resp) (replies C)\<rparr>))"
| cl_response: "i \<in> S \<Longrightarrow> (j, i, resp) \<in> replies C \<Longrightarrow>
    raft_recv_requestvote_response (ctx i) (servers C i) (Some j) resp = Some (e, me) \<Longrightarrow>
    cluster_step ctx S C (set_server i me C)"
| cl_restart: "i \<in> S \<Longrightarrow> restarted (servers C i) me \<Longrightarrow> cluster_step ctx S C (set_server i me C)"

definition cluster_init :: "(raft_node_id_t \<times> bool) list \<Rightarrow> ('l, 'u) cluster \<Rightarrow> bool" where
  "cluster_init mem C \<longleftrightarrow>
     replies C = {} \<and>
     cast_votes C = (\<lambda>i. (i, current_term (servers C i), voted_for (servers C i))) ` fst ` set mem \<and>
     (\<forall>i \<in> fst ` set mem. raft_is_follower (servers C i) \<and> my_node (servers C i) = Some i \<and>
        nodes_ok (nodes (servers C i)) \<and>
        map (\<lambda>n. (node_id n, raft_node_is_voting n)) (nodes (servers C i)) = mem)"

definition cast_for :: "raft_node_id_t \<Rightarrow> ('l, 'u) cluster \<Rightarrow> (raft_node_id_t \<times> raft_term_t) set" where
  "cast_for i C = {(j, t). (j, t, i) \<in> cast_votes C}"

definition votes_bounded :: "('l, 'u) cluster \<Rightarrow> bool" where
  "votes_bounded C \<longleftrightarrow>
     (\<forall>j t v. (j, t, v) \<in> cast_votes C \<longrightarrow> t \<le> current_term (servers C j) \<and>
        (t = current_term (servers C j) \<longrightarrow> v = RAFT_NODE_ID_NONE \<or> v = voted_for (servers C j)))"

definition votes_unique :: "('l, 'u) cluster \<Rightarrow> bool" where
  "votes_unique C \<longleftrightarrow>
     (\<forall>j t v v'. (j, t, v) \<in> cast_votes C \<longrightarrow> (j, t, v') \<in> cast_votes C \<longrightarrow>
        v \<noteq> RAFT_NODE_ID_NONE \<longrightarrow> v' \<noteq> RAFT_NODE_ID_NONE \<longrightarrow> v = v')"

definition replies_genuine :: "('l, 'u) cluster \<Rightarrow> bool" where
  "replies_genuine C \<longleftrightarrow>
     (\<forall>j i resp. (j, i, resp) \<in> replies C \<longrightarrow> rvr_vote_granted resp \<longrightarrow> \<not> rvr_prevote resp \<longrightarrow>
        (j, rvr_request_term resp, i) \<in> cast_votes C)"

definition servers_ok :: "(raft_node_id_t \<times> bool) list \<Rightarrow> ('l, 'u) cluster \<Rightarrow> bool" where
  "servers_ok mem C \<longleftrightarrow>
     (\<forall>i \<in> fst ` set mem. elect_ok mem i (cast_for i C) (servers C i) \<and>
        (i, current_term (servers C i), voted_for (servers C i)) \<in> cast_votes C)"

definition cluster_ok :: "(raft_node_id_t \<times> bool) list \<Rightarrow> ('l, 'u) cluster \<Rightarrow> bool" where
  "cluster_ok mem C \<longleftrightarrow> servers_ok mem C \<and> votes_bounded C \<and> votes_unique C \<and> replies_genuine C"

lemma cluster_init_ok:
  assumes "cluster_init mem C"
  shows "cluster_ok mem C"
proof -
  have "servers_ok mem C" using assms by (auto simp: servers_ok_def cluster_init_def elect_ok_def)
  moreover have "votes_bounded C" "votes_unique C" "replies_genuine C"
    using assms by (auto simp: cluster_init_def votes_bounded_def votes_unique_def replies_genuine_def)
  ultimately show ?thesis by (simp add: cluster_ok_def)
qed

lemma cluster_ok_set_server:
  assumes ok: "cluster_ok mem C" and i: "i \<in> fst ` set mem" and kept: "vote_kept (servers C i) me"
    and el: "elect_ok mem i (cast_for i C) me"
  shows "cluster_ok mem (set_server i me C)"
proof -
  let ?C = "set_server i me C"
  have b: "votes_bounded C" and u: "votes_unique C" and g: "replies_genuine C" and s: "servers_ok mem C"
    using ok by (auto simp: cluster_ok_def)
  have mono: "cast_for k C \<subseteq> cast_for k ?C" for k by (auto simp: cast_for_def set_server_def)
  have "elect_ok mem k (cast_for k ?C) (servers ?C k)" if "k \<in> fst ` set mem" for k
  proof (rule elect_ok_mono[OF _ mono])
    show "elect_ok mem k (cast_for k C) (servers ?C k)"
      using s el that by (auto simp: servers_ok_def set_server_def)
  qed
  then have "servers_ok mem ?C" using s by (auto simp: servers_ok_def set_server_def)
  moreover have vb: "t \<le> current_term me \<and> (t = current_term me \<longrightarrow> v = RAFT_NODE_ID_NONE \<or> v = voted_for me)"
    if "(i, t, v) \<in> cast_votes C" for t v
  proof -
    have "t \<le> current_term (servers C i)"
      "t = current_term (servers C i) \<longrightarrow> v = RAFT_NODE_ID_NONE \<or> v = voted_for (servers C i)"
      using b that by (auto simp: votes_bounded_def)
    with kept show ?thesis by (auto simp: vote_kept_def)
  qed
  then have "votes_bounded ?C" using b by (auto simp: votes_bounded_def set_server_def)
  moreover have "votes_unique ?C"
    using u vb unfolding votes_unique_def by (auto simp: set_server_def; metis)
  moreover have "replies_genuine ?C" using g by (auto simp: replies_genuine_def set_server_def)
  ultimately show ?thesis by (simp add: cluster_ok_def)
qed

definition fixed_members :: "(raft_node_id_t \<Rightarrow> ('l, 'u) raft_ctx) \<Rightarrow> (raft_node_id_t \<times> bool) list \<Rightarrow> bool" where
  "fixed_members ctx mem \<longleftrightarrow> 1 < length (filter snd mem) \<and>
     (\<forall>i \<in> fst ` set mem. cb_get_node_id (ctx i) = None \<and> \<not> may_fail (ctx i))"

lemma cluster_ok_run:
  assumes "cluster_ok mem C" "fixed_members ctx mem" "i \<in> fst ` set mem"
    and "srv_steps (ctx i) (\<lambda>_ _. True) (Some (cast_for i C)) (servers C i) me"
  shows "cluster_ok mem (set_server i me C)"
  using cluster_ok_set_server[OF assms(1,3) srv_steps_vote_kept[OF assms(4)]] srv_steps_elect_ok[OF assms(4)] assms(1-3)
  unfolding fixed_members_def cluster_ok_def servers_ok_def by blast

lemma cluster_ok_reply:
  "cluster_ok mem C \<Longrightarrow>
   (rvr_vote_granted resp \<Longrightarrow> \<not> rvr_prevote resp \<Longrightarrow> (j, rvr_request_term resp, i) \<in> cast_votes C) \<Longrightarrow>
   cluster_ok mem (C\<lparr>replies := insert (j, i, resp) (replies C)\<rparr>)"
  by (simp add: cluster_ok_def servers_ok_def votes_bounded_def votes_unique_def replies_genuine_def cast_for_def)

lemma cast_votes_set_server: "cast_votes C \<subseteq> cast_votes (set_server i me C)"
  by (auto simp: set_server_def)

lemma cluster_step_ok:
  assumes "cluster_step ctx (fst ` set mem) C C'" "cluster_ok mem C" "fixed_members ctx mem"
  shows "cluster_ok mem C' \<and> cast_votes C \<subseteq> cast_votes C'"
  using assms(1)
proof cases
  case (cl_op i me)
  then show ?thesis
    using cluster_ok_run[OF assms(2,3) _ raft_op_steps] cast_votes_set_server by blast
next
  case (cl_request i req e resp me)
  let ?C = "set_server i me C"
  have "cluster_ok mem ?C"
    using cluster_ok_run[OF assms(2,3) cl_request(2) raft_recv_requestvote_steps[OF cl_request(3) steps_refl]] .
  moreover have "(i, rvr_request_term resp, rv_candidate_id req) \<in> cast_votes ?C"
    if "rvr_vote_granted resp" "\<not> rvr_prevote resp"
    using raft_recv_requestvote_granted[OF cl_request(3) that(1)] that(2) by (simp add: set_server_def)
  ultimately have "cluster_ok mem (?C\<lparr>replies := insert (i, rv_candidate_id req, resp) (replies ?C)\<rparr>)"
    by (rule cluster_ok_reply)
  moreover have "C' = ?C\<lparr>replies := insert (i, rv_candidate_id req, resp) (replies ?C)\<rparr>"
    unfolding cl_request(1) by (simp add: set_server_def)
  ultimately show ?thesis using cast_votes_set_server[of C i me] by simp
next
  case (cl_response i j resp e me)
  have "(j, current_term (servers C i)) \<in> cast_for i C"
    if "\<not> rvr_prevote resp" "rvr_vote_granted resp" "rvr_request_term resp = current_term (servers C i)"
    using assms(2) cl_response(3) that unfolding cluster_ok_def replies_genuine_def cast_for_def by fastforce
  then have "srv_steps (ctx i) (\<lambda>_ _. True) (Some (cast_for i C)) (servers C i) me"
    using raft_recv_requestvote_response_steps[OF cl_response(4) steps_refl] by (simp add: may_mark_def)
  then show ?thesis
    unfolding cl_response(1) using cluster_ok_run[OF assms(2,3) cl_response(2)] cast_votes_set_server by blast
next
  case (cl_restart i me)
  have "elect_ok mem i (cast_for i C) (servers C i)"
    using assms(2) cl_restart(2) unfolding cluster_ok_def servers_ok_def by blast
  with cl_restart(3) have "elect_ok mem i (cast_for i C) me"
    unfolding elect_ok_def restarted_def by simp
  with cl_restart assms(2) show ?thesis
    using cluster_ok_set_server[OF assms(2) cl_restart(2)] cast_votes_set_server
    unfolding cl_restart(1) restarted_def by blast
qed

lemma cluster_steps_ok:
  "(cluster_step ctx (fst ` set mem))\<^sup>*\<^sup>* C C' \<Longrightarrow> cluster_ok mem C \<Longrightarrow> fixed_members ctx mem \<Longrightarrow>
   cluster_ok mem C' \<and> cast_votes C \<subseteq> cast_votes C'"
  by (induction rule: rtranclp_induct) (auto dest: cluster_step_ok)

lemma leader_votes:
  assumes "cluster_ok mem C" "i \<in> fst ` set mem" "raft_is_leader (servers C i)"
  shows "more_than_half (\<lambda>(j, v). (j, current_term (servers C i), i) \<in> cast_votes C) (filter snd mem)"
proof -
  have "more_than_half (\<lambda>(j, v). j = i \<and> voted_for (servers C i) = i \<or> (j, current_term (servers C i)) \<in> cast_for i C)
      (filter snd mem)" and "(i, current_term (servers C i), voted_for (servers C i)) \<in> cast_votes C"
    using assms by (auto simp: cluster_ok_def servers_ok_def elect_ok_def)
  then show ?thesis by (auto simp: cast_for_def elim!: more_than_half_mono)
qed

text \<open>
  C1. Election safety. In a cluster with a fixed membership of at least two voting nodes, whose
  servers persist term and vote without error, start as followers, make any public calls with any
  messages and timeouts in any order, may be restarted with their persisted term and vote, and get
  vote responses that the named sender sent, possibly late, repeated or not at all: no two
  different servers are leader in the same term, not even at different points of the run.
\<close>

theorem election_safety:
  assumes "cluster_init mem C0" "fixed_members ctx mem"
    and "(cluster_step ctx (fst ` set mem))\<^sup>*\<^sup>* C0 C1" "(cluster_step ctx (fst ` set mem))\<^sup>*\<^sup>* C1 C2"
    and "i \<in> fst ` set mem" "j \<in> fst ` set mem"
    and "raft_is_leader (servers C1 i)" "raft_is_leader (servers C2 j)"
    and "current_term (servers C1 i) = current_term (servers C2 j)"
  shows "i = j"
proof -
  let ?t = "current_term (servers C2 j)"
  have ok1: "cluster_ok mem C1"
    using cluster_steps_ok[OF assms(3) cluster_init_ok[OF assms(1)] assms(2)] by blast
  have ok2: "cluster_ok mem C2" and later: "cast_votes C1 \<subseteq> cast_votes C2"
    using cluster_steps_ok[OF assms(4) ok1 assms(2)] by blast+
  have "more_than_half (\<lambda>(k, v). (k, ?t, i) \<in> cast_votes C2) (filter snd mem)"
    using leader_votes[OF ok1 assms(5,7)] later assms(9) by (auto elim!: more_than_half_mono)
  from more_than_half_intersect[OF this leader_votes[OF ok2 assms(6,8)]]
  obtain k where "(k, ?t, i) \<in> cast_votes C2" "(k, ?t, j) \<in> cast_votes C2" by auto
  moreover have "i \<noteq> RAFT_NODE_ID_NONE" "j \<noteq> RAFT_NODE_ID_NONE"
    using assms(1,5,6) by (auto simp: cluster_init_def nodes_ok_def) fastforce+
  ultimately show "i = j" using ok2 by (auto simp: cluster_ok_def votes_unique_def)
qed

section \<open>Witnesses\<close>

definition ex_candidate :: "(ex_log, ex_env) raft_server" where
  "ex_candidate = snd (the (raft_become_candidate ex_ctx ex_server))"

definition ex_vote_resp :: raft_requestvote_resp where
  "ex_vote_resp = \<lparr>rvr_prevote = False, rvr_request_term = 1, rvr_term = 1, rvr_vote_granted = True\<rparr>"

definition ex_elected :: "(ex_log, ex_env) raft_server" where
  "ex_elected = snd (the (raft_recv_requestvote_response ex_ctx ex_candidate (Some 2) ex_vote_resp))"

definition ex_matched :: "(ex_log, ex_env) raft_server" where
  "ex_matched = the (upd_node 2 (raft_node_set_match_idx 1) ex_elected)"

definition ex_committed :: "(ex_log, ex_env) raft_server" where
  "ex_committed = the (raft_update_commit_idx ex_ctx ex_matched)"

lemma run1: "\<not> Option.is_none m \<Longrightarrow> m = Some (the m)"
  by (cases m) auto

theorem update_commit_idx_quorum_witness:
  "raft_update_commit_idx ex_ctx ex_matched = Some ex_committed \<and> commit_idx ex_matched = 0 \<and>
   commit_idx ex_committed = 1 \<and> more_than_half (\<lambda>n. 1 \<le> match_idx n) (voters ex_matched)"
proof -
  have run: "raft_update_commit_idx ex_ctx ex_matched = Some ex_committed"
    unfolding ex_committed_def by (rule run1) code_simp
  have vals: "voters ex_matched \<noteq> []" "commit_idx ex_matched = 0" "commit_idx ex_committed = 1" by code_simp+
  show ?thesis using update_commit_idx_quorum[OF run vals(1)] vals run by auto
qed

theorem quorum_msg_id_majority_witness:
  "quorum_msg_id ex_server = Some 0 \<and>
   more_than_half (\<lambda>n. 0 \<le> (if my_node ex_server = Some (node_id n) then msg_id ex_server else match_msgid n))
     (voters ex_server)"
proof -
  have "quorum_msg_id ex_server = Some 0" by code_simp
  with quorum_msg_id_majority[OF this, of 0] show ?thesis by blast
qed

theorem leader_has_majority_witness:
  "raft_is_leader ex_elected \<and>
   more_than_half (\<lambda>n. votes_for_me ex_candidate n \<or> Some 2 = Some (node_id n)) (voters ex_candidate)"
proof -
  have run: "raft_recv_requestvote_response ex_ctx ex_candidate (Some 2) ex_vote_resp =
      Some (fst (the (raft_recv_requestvote_response ex_ctx ex_candidate (Some 2) ex_vote_resp)), ex_elected)"
    unfolding ex_elected_def by (rule run2) code_simp
  have vals: "\<not> raft_is_leader ex_candidate" "raft_is_leader ex_elected" "nodes_ok (nodes ex_candidate)" by code_simp+
  show ?thesis using leader_has_majority[OF run vals] vals by blast
qed

theorem granted_vote_sound_witness:
  "rvr_vote_granted (fst (snd (the (raft_recv_requestvote ex_ctx ex_server (ex_vote_req 5 2))))) \<and>
   current_term ex_voted = 5 \<and> voted_for ex_voted = 2"
proof -
  have run: "raft_recv_requestvote ex_ctx ex_server (ex_vote_req 5 2) =
      Some (fst (the (raft_recv_requestvote ex_ctx ex_server (ex_vote_req 5 2))),
            fst (snd (the (raft_recv_requestvote ex_ctx ex_server (ex_vote_req 5 2)))), ex_voted)"
    unfolding ex_voted_def by (rule run3) code_simp
  have g: "rvr_vote_granted (fst (snd (the (raft_recv_requestvote ex_ctx ex_server (ex_vote_req 5 2)))))" by code_simp
  from granted_vote_sound[OF run g] g show ?thesis by (simp add: ex_vote_req_def)
qed

definition ex_fixed :: "(ex_log, ex_env) raft_ctx" where
  "ex_fixed = ex_ctx\<lparr>cb_get_node_id := None\<rparr>"

definition ex_member :: "raft_node_id_t \<Rightarrow> (ex_log, ex_env) raft_server" where
  "ex_member i =
     the (do {
       m \<leftarrow> raft_new_with_log ex_fixed (log_init (\<lambda>_. True) () None) ((0, RAFT_NODE_ID_NONE), []);
       me \<leftarrow> m;
       (_, me) \<leftarrow> raft_add_node ex_fixed me 0 1 (i = 1);
       (_, me) \<leftarrow> raft_add_node ex_fixed me 0 2 (i = 2);
       (_, me) \<leftarrow> raft_add_node ex_fixed me 0 3 (i = 3);
       Some me
     })"

definition ex_members :: "(raft_node_id_t \<times> bool) list" where
  "ex_members = [(1, True), (2, True), (3, True)]"

definition ex_cluster :: "(ex_log, ex_env) cluster" where
  "ex_cluster = \<lparr>servers = ex_member, replies = {},
     cast_votes = {(1, 0, RAFT_NODE_ID_NONE), (2, 0, RAFT_NODE_ID_NONE), (3, 0, RAFT_NODE_ID_NONE)}\<rparr>"

definition ex_standing :: "(ex_log, ex_env) raft_server" where
  "ex_standing = snd (the (raft_election_start ex_fixed (ex_member 1) True))"

definition ex_request :: raft_requestvote_req where
  "ex_request = \<lparr>rv_prevote = False, rv_term = 1, rv_candidate_id = 1, rv_last_log_idx = 0, rv_last_log_term = 0\<rparr>"

definition ex_voter :: "(ex_log, ex_env) raft_server" where
  "ex_voter = snd (snd (the (raft_recv_requestvote ex_fixed (ex_member 2) ex_request)))"

definition ex_winner :: "(ex_log, ex_env) raft_server" where
  "ex_winner = snd (the (raft_recv_requestvote_response ex_fixed ex_standing (Some 2) ex_vote_resp))"

definition ex_cluster1 :: "(ex_log, ex_env) cluster" where
  "ex_cluster1 = set_server 1 ex_standing ex_cluster"

definition ex_cluster2 :: "(ex_log, ex_env) cluster" where
  "ex_cluster2 = set_server 2 ex_voter (ex_cluster1\<lparr>replies := {(2, 1, ex_vote_resp)}\<rparr>)"

definition ex_cluster3 :: "(ex_log, ex_env) cluster" where
  "ex_cluster3 = set_server 1 ex_winner ex_cluster2"

lemma ex_cluster_init: "cluster_init ex_members ex_cluster"
proof -
  have "\<forall>i \<in> {1, 2, 3}. current_term (ex_member i) = 0 \<and> voted_for (ex_member i) = RAFT_NODE_ID_NONE \<and>
      raft_is_follower (ex_member i) \<and> my_node (ex_member i) = Some i \<and> nodes_ok (nodes (ex_member i)) \<and>
      map (\<lambda>n. (node_id n, raft_node_is_voting n)) (nodes (ex_member i)) = ex_members"
    by code_simp
  then show ?thesis by (simp add: cluster_init_def ex_cluster_def ex_members_def)
qed

lemma ex_fixed_members: "fixed_members (\<lambda>_. ex_fixed) ex_members"
  by (simp add: fixed_members_def ex_members_def ex_fixed_def may_fail_def ex_ctx_sel)

lemma ex_cluster_run: "(cluster_step (\<lambda>_. ex_fixed) (fst ` set ex_members))\<^sup>*\<^sup>* ex_cluster ex_cluster3"
proof -
  have ids: "1 \<in> fst ` set ex_members" "2 \<in> fst ` set ex_members" by (simp_all add: ex_members_def)
  have "raft_op ex_fixed (ex_member 1) ex_standing"
    unfolding ex_standing_def by (rule op_election_start, rule run2) code_simp
  then have 1: "cluster_step (\<lambda>_. ex_fixed) (fst ` set ex_members) ex_cluster ex_cluster1"
    unfolding ex_cluster1_def by (intro cl_op ids) (simp add: ex_cluster_def)
  have "raft_recv_requestvote ex_fixed (ex_member 2) ex_request =
      Some (fst (the (raft_recv_requestvote ex_fixed (ex_member 2) ex_request)),
            fst (snd (the (raft_recv_requestvote ex_fixed (ex_member 2) ex_request))), ex_voter)"
    unfolding ex_voter_def by (rule run3) code_simp
  moreover have "fst (snd (the (raft_recv_requestvote ex_fixed (ex_member 2) ex_request))) = ex_vote_resp" by code_simp
  moreover have "rv_candidate_id ex_request = 1" by (simp add: ex_request_def)
  ultimately have 2: "cluster_step (\<lambda>_. ex_fixed) (fst ` set ex_members) ex_cluster1 ex_cluster2"
    using cl_request[OF ids(2), of "\<lambda>_. ex_fixed" ex_cluster1 ex_request]
    by (simp add: ex_cluster2_def ex_cluster1_def ex_cluster_def set_server_def)
  have "raft_recv_requestvote_response ex_fixed ex_standing (Some 2) ex_vote_resp =
      Some (fst (the (raft_recv_requestvote_response ex_fixed ex_standing (Some 2) ex_vote_resp)), ex_winner)"
    unfolding ex_winner_def by (rule run2) code_simp
  then have 3: "cluster_step (\<lambda>_. ex_fixed) (fst ` set ex_members) ex_cluster2 ex_cluster3"
    unfolding ex_cluster3_def
    by (intro cl_response[OF ids(1), where j = 2 and resp = ex_vote_resp])
      (simp_all add: ex_cluster2_def ex_cluster1_def ex_cluster_def set_server_def)
  from 1 2 3 show ?thesis by (meson rtranclp.rtrancl_into_rtrancl rtranclp.rtrancl_refl)
qed

theorem election_safety_witness:
  "raft_is_leader (servers ex_cluster3 1) \<and>
   \<not> (raft_is_leader (servers ex_cluster3 2) \<and> current_term (servers ex_cluster3 1) = current_term (servers ex_cluster3 2))"
proof -
  have lead: "raft_is_leader (servers ex_cluster3 1)"
    by (simp add: ex_cluster3_def set_server_def) code_simp
  have ids: "1 \<in> fst ` set ex_members" "2 \<in> fst ` set ex_members" by (simp_all add: ex_members_def)
  from election_safety[OF ex_cluster_init ex_fixed_members ex_cluster_run rtranclp.rtrancl_refl ids lead] lead
  show ?thesis by auto
qed

end
