(* ===== verification/Raft_Log_Spec.thy ===== *)
theory Raft_Log_Spec
  imports Raft_Log
begin

text \<open>
  The ring buffer against the list it stands for. The abstract log is a base index with a list of
  entries; every sequence of operations on the ring buffer does to its abstraction what the same
  operations do to the list. Besides: the indexes that clearing reports, and a callback result for
  which polling never returns.
\<close>

section \<open>The abstract log\<close>

datatype log_op =
  Log_append raft_entry
| Log_pop raft_index_t
| Log_poll raft_index_t
| Log_reset raft_index_t raft_term_t

text \<open>An operation on the abstract log; \<open>None\<close> outside the range that its callers keep to.\<close>

fun spec_log_op :: "log_op \<Rightarrow> raft_index_t \<times> raft_entry list \<Rightarrow> (raft_index_t \<times> raft_entry list) option" where
  "spec_log_op (Log_append ety) (b, es) = Some (b, es @ [ety])"
| "spec_log_op (Log_pop i) (b, es) = (if b < i then Some (b, take (nat (i - 1 - b)) es) else None)"
| "spec_log_op (Log_poll i) (b, es) =
     (if i \<le> b + int (length es) + 1 then Some (max b (i - 1), drop (nat (i - 1 - b)) es) else None)"
| "spec_log_op (Log_reset i t) (b, es) = (if 1 \<le> i then Some (i - 1, []) else None)"

fun spec_log_ops :: "log_op list \<Rightarrow> raft_index_t \<times> raft_entry list \<Rightarrow> (raft_index_t \<times> raft_entry list) option" where
  "spec_log_ops [] a = Some a"
| "spec_log_ops (p # ps) a = do { a \<leftarrow> spec_log_op p a; spec_log_ops ps a }"

text \<open>The same operation on the ring buffer, when allocations succeed.\<close>

fun run_log_op :: "log_op \<Rightarrow> 'u raft_log \<Rightarrow> (int \<times> 'u raft_log) option" where
  "run_log_op (Log_append ety) me = log_append (\<lambda>_. True) me ety"
| "run_log_op (Log_pop i) me = log_pop me i"
| "run_log_op (Log_poll i) me = log_poll me i"
| "run_log_op (Log_reset i t) me = do { me \<leftarrow> log_reset me i t; Some (0, me) }"

fun run_log_ops :: "log_op list \<Rightarrow> 'u raft_log \<Rightarrow> (int \<times> 'u raft_log) option" where
  "run_log_ops [] me = Some (0, me)"
| "run_log_ops (p # ps) me =
     do { (e, me) \<leftarrow> run_log_op p me; if e \<noteq> 0 then Some (e, me) else run_log_ops ps me }"

lemma raft_log_append_entry_no_error:
  "raft_log_append_entry (\<lambda>_. True) me ety = Some (e, me') \<Longrightarrow> log_offer (lcb me) = None \<Longrightarrow>
   e = 0 \<and> lcb me' = lcb me"
  by (auto simp: raft_log_append_entry_def ensure_capacity_def call_log_cb_def Let_def elim!: do_elims)

lemma run_log_op_refines:
  assumes "log_inv me" "lcb me = no_log_cbs" "spec_log_op p (lbase me, log_ents me) = Some (b, es)"
  shows "\<exists>me'. run_log_op p me = Some (0, me') \<and> log_inv me' \<and> lcb me' = no_log_cbs \<and>
    lbase me' = b \<and> log_ents me' = es"
proof (cases p)
  case (Log_append ety)
  then show ?thesis
    using raft_log_append_entry_spec[OF assms(1), of "\<lambda>_. True" ety]
      raft_log_append_entry_no_error[of me ety] assms(2,3)
    by (fastforce simp: log_append_def no_log_cbs_def)
next
  case (Log_pop i)
  then show ?thesis
    using log_pop_spec[OF assms(1), of i] assms(2,3) by (auto simp: no_log_cbs_def split: if_splits)
next
  case (Log_poll i)
  then have i: "i \<le> lbase me + lcount me + 1" "b = max (lbase me) (i - 1)" "es = drop (nat (i - 1 - lbase me)) (log_ents me)"
    using assms(3) log_inv_bounds(3)[OF assms(1)] by (auto split: if_splits)
  obtain me' d where p: "log_poll me i = Some (0, me')" "log_inv me'" "lcb me' = lcb me"
      "lbase me' = lbase me + int d" "log_ents me' = drop d (log_ents me)" "lbase me' = max (lbase me) (i - 1)"
    using log_poll_spec[OF assms(1), of i] i(1) assms(2) by (auto simp: no_log_cbs_def)
  then have "d = nat (i - 1 - lbase me)" by linarith
  with p i Log_poll assms(2) show ?thesis by simp
next
  case (Log_reset i t)
  then show ?thesis
    using log_reset_spec[OF assms(1), of i t] assms(2,3) by (auto split: if_splits)
qed

lemma run_log_ops_refines:
  "log_inv me \<Longrightarrow> lcb me = no_log_cbs \<Longrightarrow> spec_log_ops ps (lbase me, log_ents me) = Some (b, es) \<Longrightarrow>
   \<exists>me'. run_log_ops ps me = Some (0, me') \<and> log_inv me' \<and> lbase me' = b \<and> log_ents me' = es"
proof (induction ps arbitrary: me)
  case (Cons p ps)
  then obtain b1 es1 where "spec_log_op p (lbase me, log_ents me) = Some (b1, es1)" "spec_log_ops ps (b1, es1) = Some (b, es)"
    by (auto elim!: bind_SomeE)
  with run_log_op_refines[OF Cons.prems(1,2)] Cons.IH show ?case by fastforce
qed simp

text \<open>
  C11. The log is a list. A log made by \<open>log_init\<close> without callbacks, on which any sequence of
  appends, truncations from an index, compactions up to an index and resets is run within the
  range of its indexes, returns without an error and represents exactly the list and the base that
  the same operations give on a list: what is read at every index, the first and the last index,
  the number of entries, however often the buffer wrapped around and grew.
\<close>

theorem log_refines_list:
  assumes "log_init (\<lambda>_. True) u None = Some me0" "spec_log_ops ps (0, []) = Some (b, es)"
  shows "\<exists>me. run_log_ops ps me0 = Some (0, me) \<and> log_inv me \<and>
    (\<forall>i. log_get me i = Some (ent_at b es i)) \<and> log_first_idx me = b + 1 \<and>
    log_current_idx me = b + int (length es) \<and> log_count me = int (length es)"
proof -
  have "log_inv me0" "lbase me0 = 0" "log_ents me0 = []" using log_init_spec[OF assms(1)] by auto
  moreover have "lcb me0 = no_log_cbs"
    using assms(1) by (auto simp: log_init_def raft_log_new_def option_do dest: raft_log_alloc_spec(4)[rotated])
  ultimately obtain me where "run_log_ops ps me0 = Some (0, me)" "log_inv me" "lbase me = b" "log_ents me = es"
    using run_log_ops_refines[of me0 ps b es] assms(2) by auto
  then show ?thesis
    using internal_log.get[where l = me] internal_log.first_idx[where l = me]
      internal_log.current_idx[where l = me] internal_log.count[where l = me]
    by simp
qed

text \<open>
  C12. Append and read back. Whatever the callbacks and the allocator do, an append either returns 0
  and then the entry is read back at the new last index and every other index reads as before, or
  it returns a negative code and every index reads as before.
\<close>

theorem log_append_get:
  assumes "log_inv me"
  shows "\<exists>e me'. log_append calloc me ety = Some (e, me') \<and> log_inv me' \<and> e \<le> 0 \<and>
    (e = 0 \<longrightarrow> log_current_idx me' = log_current_idx me + 1) \<and>
    (\<forall>i. log_get me' i = (if e = 0 \<and> i = log_current_idx me + 1 then Some (Some ety) else log_get me i))"
proof -
  obtain e me' where run: "log_append calloc me ety = Some (e, me')" "log_inv me'" "lbase me' = lbase me"
      "if e = 0 then log_ents me' = log_ents me @ [ety] else e < 0 \<and> log_ents me' = log_ents me"
    using internal_log.append[where l = me and ety = ety and c = calloc, OF assms] by auto
  note get = internal_log.get[where l = me, simplified, OF assms] internal_log.get[where l = me', simplified, OF run(2)]
  have cur: "log_current_idx me = lbase me + lcount me" "log_current_idx me' = lbase me' + lcount me'"
    by (simp_all add: log_current_idx_def raft_log_get_current_idx_def raft_log_count_def)
  have len: "int (length (log_ents me)) = lcount me" "int (length (log_ents me')) = lcount me'"
    using log_inv_bounds(3)[OF assms] log_inv_bounds(3)[OF run(2)] by simp_all
  show ?thesis
  proof (cases "e = 0")
    case True
    then have ents: "log_ents me' = log_ents me @ [ety]" using run(4) by simp
    then have "lcount me' = lcount me + 1" using len by simp
    moreover have "ent_at (lbase me) (log_ents me @ [ety]) i =
        (if i = lbase me + lcount me + 1 then Some ety else ent_at (lbase me) (log_ents me) i)" for i
      using len by (auto simp: ent_at_def nth_append nat_less_iff)
    ultimately show ?thesis using True run get cur ents by simp
  qed (use run get in auto)
qed

section \<open>What clearing reports\<close>

lemma raft_log_clear_entries_loop_record:
  assumes "log_inv me" "log_clear (lcb me) = Some (\<lambda>u x i. (0, u @ [(i, x)]))" "lbase me \<le> i"
  shows "raft_log_clear_entries_loop me i =
    Some (me\<lparr>lraft := lraft me @ map (\<lambda>k. (k, lentries me ! slot me (k - lbase me))) [i..lbase me + lcount me]\<rparr>)"
  using assms
proof (induction me i rule: raft_log_clear_entries_loop.induct)
  case (1 me i)
  note b = log_inv_bounds[OF "1.prems"(1)]
  show ?case
  proof (cases "i \<le> lbase me + lcount me")
    case False
    then show ?thesis by (subst raft_log_clear_entries_loop.simps) simp
  next
    case True
    let ?k = "(lfront me + i - lbase me) mod lsize me"
    have k: "?k = int (slot me (i - lbase me))" using b by (simp add: slot_def algebra_simps)
    have rem: "c_rem (lfront me + i - lbase me) (lsize me) = Some ?k"
      using b "1.prems"(3) by (simp add: c_rem_nonneg)
    have get: "arr_get (lentries me) ?k = Some (lentries me ! slot me (i - lbase me))"
      unfolding k using slot_less[OF "1.prems"(1)] by (intro arr_get_Some[THEN trans]) auto
    let ?u = "lraft me @ [(i, lentries me ! slot me (i - lbase me))]"
    have u: "(case log_clear (lcb me) of None \<Rightarrow> lraft me
        | Some f \<Rightarrow> snd (f (lraft me) (lentries me ! slot me (i - lbase me)) i)) = ?u"
      using "1.prems"(2) by simp
    have inv': "log_inv (me\<lparr>lraft := ?u\<rparr>)" using "1.prems"(1) by (subst same_ring(1)[of _ me]) simp_all
    have sl: "slot (me\<lparr>lraft := ?u\<rparr>) j = slot me j" for j by (simp add: slot_def)
    have "raft_log_clear_entries_loop me i = raft_log_clear_entries_loop (me\<lparr>lraft := ?u\<rparr>) (i + 1)"
      using True rem get u by (subst raft_log_clear_entries_loop.simps) (simp add: Let_def)
    also have "\<dots> = Some (me\<lparr>lraft := ?u @
        map (\<lambda>k. (k, lentries me ! slot me (k - lbase me))) [i + 1..lbase me + lcount me]\<rparr>)"
      using "1.IH"[OF True rem get refl] inv' "1.prems"(2,3) u sl by (simp add: Let_def)
    finally show ?thesis using True by (simp add: upto_rec1)
  qed
qed

text \<open>
  C13. Clearing is off by one. When the log is cleared, the callback is called once more than there
  are entries: the entry with index \<open>base + 1 + k\<close> is reported with index \<open>base + k\<close>, and the last
  call passes the slot behind the last entry, which holds no entry of the log.
\<close>

theorem log_clear_off_by_one:
  assumes "log_inv me" "log_clear (lcb me) = Some (\<lambda>u x i. (0, u @ [(i, x)]))" "lraft me = []" "0 < lcount me"
  shows "\<exists>me'. raft_log_clear_entries me = Some me' \<and>
    lraft me' = map (\<lambda>k. (lbase me + int k, Some (log_ents me ! k))) [0..<nat (lcount me)] @
      [(lbase me + lcount me, lentries me ! slot me (lcount me))]"
proof -
  note b = log_inv_bounds[OF assms(1)]
  have "[lbase me..lbase me + lcount me] = map (\<lambda>k. lbase me + int k) [0..<nat (lcount me)] @ [lbase me + lcount me]"
  proof -
    have "[lbase me..lbase me + lcount me] = map (\<lambda>k. lbase me + int k) [0..<nat (lcount me) + 1]"
      using b by (intro nth_equalityI) (auto simp: nat_add_distrib simp del: upt_Suc)
    then show ?thesis using b by simp
  qed
  moreover have "lentries me ! slot me (int k) = Some (log_ents me ! k)" if "k < nat (lcount me)" for k
    using log_inv_entry[OF assms(1) that] .
  ultimately show ?thesis
    using raft_log_clear_entries_loop_record[OF assms(1,2), of "lbase me"] assms(2-4)
    by (simp add: raft_log_clear_entries_def o_def)
qed

section \<open>Polling with a positive callback result\<close>

lemma log_poll_diverges_step:
  "log_poll me i = Some r \<Longrightarrow> log_poll_cb (lcb me) = Some (\<lambda>u x j. (k, u)) \<Longrightarrow> 0 < k \<Longrightarrow> 0 < lcount me \<Longrightarrow>
   lbase me + 1 < i \<Longrightarrow> False"
proof (induction rule: log_poll.raw_induct[rotated, consumes 1, case_names loop])
  case (loop rec me i r)
  from loop.hyps loop.prems have "rec me i = Some r"
    by (auto simp: raft_log_get_base_def raft_log_poll_def call_log_cb_def Let_def elim!: do_elims)
  with loop.IH loop.prems show False by blast
qed

text \<open>
  C14. Polling can hang. \<open>log_poll\<close> stops only on a negative result of \<open>raft_log_poll\<close>, which hands
  out the callback's result: with a callback that reports an error by a positive number, compaction
  of a log that has entries to drop never returns.
\<close>

theorem log_poll_hangs:
  assumes "log_poll_cb (lcb me) = Some (\<lambda>u x j. (k, u))" "0 < k" "0 < lcount me" "lbase me + 1 < i"
  shows "log_poll me i = None"
  using log_poll_diverges_step[OF _ assms] by (cases "log_poll me i") auto

section \<open>Witnesses\<close>

definition ex_log_entry :: "raft_term_t \<Rightarrow> raft_entry" where
  "ex_log_entry t = \<lparr>ety_term = t, ety_id = t, ety_session = 0, ety_type = RAFT_LOGTYPE_NORMAL, ety_data = []\<rparr>"

definition ex_empty_log :: "unit raft_log" where
  "ex_empty_log = the (log_init (\<lambda>_. True) () None)"

lemma ex_empty_log_init: "log_init (\<lambda>_. True) () None = Some ex_empty_log"
  by (simp add: ex_empty_log_def log_init_def raft_log_new_def raft_log_alloc_def)

definition ex_log_ops :: "log_op list" where
  "ex_log_ops = map (\<lambda>t. Log_append (ex_log_entry t)) [1..8] @ [Log_poll 6] @
     map (\<lambda>t. Log_append (ex_log_entry t)) [9..17] @ [Log_pop 16]"

theorem log_refines_list_witness:
  "\<exists>me. run_log_ops ex_log_ops ex_empty_log = Some (0, me) \<and> log_first_idx me = 6 \<and> log_current_idx me = 15"
proof -
  have "spec_log_ops ex_log_ops (0, []) = Some (5, map ex_log_entry [6..15])" by code_simp
  from log_refines_list[OF ex_empty_log_init this] show ?thesis by auto
qed

theorem log_append_get_witness:
  "\<exists>e me'. log_append (\<lambda>_. True) ex_empty_log (ex_log_entry 1) = Some (e, me') \<and> log_get me' 2 = log_get ex_empty_log 2"
proof -
  have "log_inv ex_empty_log" "log_current_idx ex_empty_log = 0" using log_init_spec[OF ex_empty_log_init]
    by (auto simp: log_current_idx_def raft_log_get_current_idx_def raft_log_count_def ex_empty_log_def
        log_init_def raft_log_new_def raft_log_alloc_def raft_log_clear_def)
  with log_append_get[OF this(1), of "\<lambda>_. True" "ex_log_entry 1"] show ?thesis by fastforce
qed

text \<open>A log with two entries at indexes 4 and 5, whose callback records what it is given.\<close>

definition ex_clear_log :: "(raft_index_t \<times> raft_entry option) list raft_log" where
  "ex_clear_log =
     \<lparr>lsize = 3, lcount = 2, lfront = 2, lback = 1, lbase = 3,
      lentries = [Some (ex_log_entry 5), None, Some (ex_log_entry 4)],
      lcb = \<lparr>log_offer = None, log_poll_cb = None, log_pop_cb = None, log_clear = Some (\<lambda>u x i. (0, u @ [(i, x)]))\<rparr>,
      lraft = []\<rparr>"

lemma ex_clear_log_inv: "log_inv ex_clear_log"
proof -
  have "\<forall>k. 0 \<le> k \<and> k < 2 \<longrightarrow> k = 0 \<or> k = (1::int)" by auto
  then show ?thesis by (auto simp: log_inv_def ex_clear_log_def log_cbs_ok_def slot_def)
qed

theorem log_clear_off_by_one_witness:
  "\<exists>me'. raft_log_clear_entries ex_clear_log = Some me' \<and>
    lraft me' = [(3, Some (ex_log_entry 4)), (4, Some (ex_log_entry 5)), (5, None)]"
proof -
  have "log_ents ex_clear_log = [ex_log_entry 4, ex_log_entry 5]" by code_simp
  moreover have "[0..<2] = [0, 1 :: nat]" by (simp add: upt_rec)
  ultimately show ?thesis
    using log_clear_off_by_one[OF ex_clear_log_inv] by (simp add: ex_clear_log_def slot_def)
qed

definition ex_stuck_log :: "unit raft_log" where
  "ex_stuck_log =
     \<lparr>lsize = 2, lcount = 1, lfront = 0, lback = 1, lbase = 0, lentries = [Some (ex_log_entry 1), None],
      lcb = \<lparr>log_offer = None, log_poll_cb = Some (\<lambda>u x j. (1, u)), log_pop_cb = None, log_clear = None\<rparr>, lraft = ()\<rparr>"

theorem log_poll_hangs_witness: "lcount ex_stuck_log = 1 \<and> log_poll ex_stuck_log 2 = None"
  using log_poll_hangs[of ex_stuck_log 1 2] by (simp add: ex_stuck_log_def)

end
