(* ===== verification/Raft_Loops.thy ===== *)
theory Raft_Loops
  imports Raft_Election
begin

text \<open>
  The loops of the server return and do all of their work: applying committed entries, serving
  and refusing reads, sending entries to a node, restoring the log after a restart. Besides: the
  result of an application callback for which sending entries never returns.
\<close>

section \<open>Frames\<close>

lemma raft_time_millis_frame:
  "raft_time_millis c me = (t, me') \<Longrightarrow> \<exists>u. me' = me\<lparr>udata := u\<rparr>"
  by (auto simp: raft_time_millis_def split: option.splits prod.splits intro!: exI[of _ "udata me'"])

lemma raft_time_millis_None: "cb_timestamp c = None \<Longrightarrow> raft_time_millis c me = (0, me)"
  by (simp add: raft_time_millis_def)

lemma raft_get_node_volatile [simp]:
  "raft_get_node (me\<lparr>udata := u\<rparr>) = raft_get_node me" "raft_get_node (me\<lparr>msg_id := m\<rparr>) = raft_get_node me"
  "raft_get_node (me\<lparr>stats := st\<rparr>) = raft_get_node me"
  by (simp_all add: fun_eq_iff raft_get_node_def)

lemma raft_get_nodeid_volatile [simp]:
  "raft_get_nodeid (me\<lparr>udata := u\<rparr>) = raft_get_nodeid me" "raft_get_nodeid (me\<lparr>msg_id := m\<rparr>) = raft_get_nodeid me"
  "raft_get_nodeid (me\<lparr>stats := st\<rparr>) = raft_get_nodeid me"
  by (simp_all add: raft_get_nodeid_def cong: option.case_cong)

section \<open>Reads\<close>

text \<open>\<open>tr u\<close> is the list of the answers given to read requests, which only the answers extend.\<close>

definition records_reads :: "('l, 'u) raft_ctx \<Rightarrow> ('u \<Rightarrow> (nat \<times> bool) list) \<Rightarrow> bool" where
  "records_reads c tr \<longleftrightarrow>
     (\<forall>p b u. tr (c_call_read c p b u) = tr u @ [(p, b)]) \<and>
     (\<forall>f me t u. cb_timestamp c = Some f \<longrightarrow> f me = (t, u) \<longrightarrow> tr u = tr (udata me))"

definition servable :: "('l, 'u) raft_server \<Rightarrow> raft_msg_id_t \<Rightarrow> raft_read_request \<Rightarrow> bool" where
  "servable me k p \<longleftrightarrow> rr_msg_id p \<le> k \<and> rr_read_idx p \<le> last_applied_idx me"

lemma servable_cong [simp]:
  "servable (me\<lparr>udata := u\<rparr>) = servable me" "servable (me\<lparr>read_queue := q\<rparr>) = servable me"
  by (auto simp: servable_def fun_eq_iff)

lemma records_readsD:
  "records_reads c tr \<Longrightarrow> tr (c_call_read c p b u) = tr u @ [(p, b)]"
  "records_reads c tr \<Longrightarrow> raft_time_millis c me = (t, me') \<Longrightarrow> tr (udata me') = tr (udata me)"
  by (auto simp: records_reads_def raft_time_millis_def split: option.splits prod.splits)

lemma raft_drop_reads_record:
  assumes "records_reads c tr"
  shows "\<exists>u. raft_drop_reads c me = Some (me\<lparr>udata := u, read_queue := []\<rparr>) \<and>
    tr u = tr (udata me) @ map (\<lambda>p. (rr_cb p, False)) (read_queue me)"
proof (induction "read_queue me" arbitrary: me)
  case Nil
  then have "me\<lparr>udata := udata me, read_queue := []\<rparr> = me" by simp
  with Nil show ?case by (subst raft_drop_reads.simps) (metis append_Nil2 list.map(1) list.simps(4))
next
  case (Cons p q)
  let ?me = "me\<lparr>udata := c_call_read c (rr_cb p) False (udata me), read_queue := q\<rparr>"
  have "raft_drop_reads c me = raft_drop_reads c ?me"
    by (subst raft_drop_reads.simps) (simp add: Cons.hyps(2)[symmetric] pop_read_queue_def)
  with Cons.hyps(1)[of ?me] show ?case
    by (auto simp: Cons.hyps(2)[symmetric] records_readsD(1)[OF assms])
qed

lemma raft_serve_reads_record:
  assumes "records_reads c tr"
  shows "\<exists>n me'. raft_serve_reads c k me = Some me' \<and> n \<le> length (read_queue me) \<and>
    read_queue me' = drop n (read_queue me) \<and> (\<forall>p \<in> set (take n (read_queue me)). servable me k p) \<and>
    tr (udata me') = tr (udata me) @ map (\<lambda>p. (rr_cb p, True)) (take n (read_queue me)) \<and>
    (pending_operations me' \<and> (cb_timestamp c \<noteq> None \<or> exec_deadline me < 0) \<or> read_queue me' = [] \<or> \<not> servable me k (hd (read_queue me')))"
proof (induction "read_queue me" arbitrary: me)
  case Nil
  then show ?case by (subst raft_serve_reads.simps) (auto intro: exI[of _ 0])
next
  case (Cons p q)
  note q = Cons.hyps(2)[symmetric]
  obtain t u where t: "raft_time_millis c me = (t, me\<lparr>udata := u\<rparr>)"
    using raft_time_millis_frame[of c me] by (metis surj_pair)
  then have tr: "tr u = tr (udata me)" using records_readsD(2)[OF assms] by fastforce
  consider "\<not> servable me k p" | "servable me k p" "exec_deadline me < t" | "servable me k p" "t \<le> exec_deadline me"
    by linarith
  then show ?case
  proof cases
    case 1
    then have "raft_serve_reads c k me = Some me"
      by (subst raft_serve_reads.simps) (auto simp: q servable_def)
    with 1 show ?thesis by (intro exI[of _ 0] exI[of _ me]) (simp add: q)
  next
    case 2
    then have "raft_serve_reads c k me = Some (raft_set_pending (me\<lparr>udata := u\<rparr>))"
      by (subst raft_serve_reads.simps) (simp add: q servable_def t)
    moreover have "cb_timestamp c \<noteq> None \<or> exec_deadline me < 0" using 2 t by (cases "cb_timestamp c") (auto simp: raft_time_millis_def)
    ultimately show ?thesis by (intro exI[of _ 0] exI) (auto simp: raft_set_pending_def count_stat_def q tr)
  next
    case 3
    let ?me = "me\<lparr>udata := c_call_read c (rr_cb p) True u, read_queue := q\<rparr>"
    have "raft_serve_reads c k me = raft_serve_reads c k ?me"
      by (subst raft_serve_reads.simps) (use 3 in \<open>simp add: q servable_def t pop_read_queue_def\<close>)
    moreover obtain n me' where "raft_serve_reads c k ?me = Some me'" "n \<le> length q" "read_queue me' = drop n q"
      "\<forall>p \<in> set (take n q). servable me k p"
      "tr (udata me') = tr u @ [(rr_cb p, True)] @ map (\<lambda>p. (rr_cb p, True)) (take n q)"
      "pending_operations me' \<and> (cb_timestamp c \<noteq> None \<or> exec_deadline me < 0) \<or> read_queue me' = [] \<or> \<not> servable me k (hd (read_queue me'))"
      using Cons.hyps(1)[of ?me] by (simp add: records_readsD(1)[OF assms]) (elim exE conjE, force)
    ultimately show ?thesis using 3 tr by (intro exI[of _ "Suc n"] exI[of _ me']) (simp add: q)
  qed
qed

text \<open>
  C17. Reads. On a leader that has applied an entry of its term, processing the read queue returns
  and answers exactly a prefix of the queue, in the order of the requests and with permission to
  read: every answered request was sent before a message that a majority of the voting nodes has
  acknowledged, and its read index has been applied. It stops only at the end of the queue, at a
  request that may not be answered yet, or when the time budget is used up and more work is left.
\<close>

theorem reads_served_in_order:
  assumes "records_reads c tr" "raft_is_leader me" "current_term me \<le> last_applied_term me"
    and "quorum_msg_id me = Some k"
  shows "\<exists>n me'. raft_process_read_queue c me = Some me' \<and> n \<le> length (read_queue me) \<and>
    read_queue me' = drop n (read_queue me) \<and>
    (\<forall>p \<in> set (take n (read_queue me)). rr_msg_id p \<le> k \<and> rr_read_idx p \<le> last_applied_idx me) \<and>
    tr (udata me') = tr (udata me) @ map (\<lambda>p. (rr_cb p, True)) (take n (read_queue me)) \<and>
    (pending_operations me' \<and> (cb_timestamp c \<noteq> None \<or> exec_deadline me < 0) \<or> read_queue me' = [] \<or>
     \<not> (rr_msg_id (hd (read_queue me')) \<le> k \<and> rr_read_idx (hd (read_queue me')) \<le> last_applied_idx me))"
  using assms raft_serve_reads_record[OF assms(1), of k me]
  by (auto simp: raft_process_read_queue_def servable_def)

text \<open>
  C18. Refused reads. A server that is not the leader answers every queued read request, in order
  and without permission to read, and leaves an empty queue; nothing else of the server changes
  but the environment.
\<close>

theorem reads_refused:
  assumes "records_reads c tr" "\<not> raft_is_leader me"
  shows "\<exists>u. raft_process_read_queue c me = Some (me\<lparr>udata := u, read_queue := []\<rparr>) \<and>
    tr u = tr (udata me) @ map (\<lambda>p. (rr_cb p, False)) (read_queue me)"
proof (cases "read_queue me = []")
  case True
  then have "me\<lparr>udata := udata me, read_queue := []\<rparr> = me" by simp
  with True show ?thesis by (metis append_Nil2 list.map(1) raft_process_read_queue_def)
next
  case False
  then show ?thesis using raft_drop_reads_record[OF assms(1), of me] assms(2)
    by (simp add: raft_process_read_queue_def)
qed

section \<open>Applying\<close>

text \<open>A state machine that accepts every entry.\<close>

definition accepts_all :: "('l, 'u) raft_ctx \<Rightarrow> bool" where
  "accepts_all c \<longleftrightarrow> (\<forall>f me ety i. cb_applylog c = Some f \<longrightarrow> fst (f me ety i) = 0)"

text \<open>No entry of the log changes the membership, or the application does not say which node it changes.\<close>

definition fixed_membership :: "('l, 'u) raft_ctx \<Rightarrow> raft_entry list \<Rightarrow> bool" where
  "fixed_membership c es \<longleftrightarrow> cb_get_node_id c = None \<or> (\<forall>ety \<in> set es. \<not> raft_entry_is_cfg_change ety)"

lemma fixed_membership_append:
  "fixed_membership c es \<Longrightarrow> ety \<in> set es \<Longrightarrow> raft_handle_append_cfg_change c me ety i = Some me"
  by (auto simp: fixed_membership_def raft_handle_append_cfg_change_def)

lemma fixed_membership_apply:
  "fixed_membership c es \<Longrightarrow> ety \<in> set es \<Longrightarrow> raft_handle_apply_cfg_change c me ety i = Some me"
  by (auto simp: fixed_membership_def raft_handle_apply_cfg_change_def)

context raft_on_log
begin

lemma raft_apply_entry_returns:
  assumes "linv (log_st me)" "base_of (log_st me) \<le> last_applied_idx me" "last_applied_idx me < commit_idx me"
    and "commit_idx me \<le> base_of (log_st me) + int (length (ents (log_st me)))"
    and "raft_is_apply_allowed me" "accepts_all c" "fixed_membership c (ents (log_st me))"
  shows "\<exists>me'. raft_apply_entry c me = Some (0, me') \<and> last_applied_idx me' = last_applied_idx me + 1 \<and>
    commit_idx me' = commit_idx me \<and> log_st me' = log_st me \<and> exec_deadline me' = exec_deadline me \<and>
    raft_is_apply_allowed me'"
proof -
  obtain ety where ety: "ent_at (base_of (log_st me)) (ents (log_st me)) (last_applied_idx me + 1) = Some ety"
    using ent_at_Some[of "base_of (log_st me)" "last_applied_idx me + 1" "ents (log_st me)"] assms by auto
  have cfg: "raft_handle_apply_cfg_change c m ety i = Some m" for m i
    using fixed_membership_apply[OF assms(7) ent_at_set[OF ety]] .
  show ?thesis
  proof (cases "cb_applylog c")
    case None
    then show ?thesis using assms ety get[OF assms(1)] cfg
      by (auto simp: raft_apply_entry_def raft_get_entry_from_idx_def raft_is_apply_allowed_def Let_def)
  next
    case (Some f)
    then obtain u where "f me ety (last_applied_idx me + 1) = (0, u)"
      using assms(6) by (metis accepts_all_def prod.collapse)
    with Some show ?thesis using assms ety get[OF assms(1)] cfg
      by (auto simp: raft_apply_entry_def raft_get_entry_from_idx_def raft_is_apply_allowed_def Let_def)
  qed
qed

lemma raft_apply_all_loop_returns:
  assumes "linv (log_st me)" "base_of (log_st me) \<le> last_applied_idx me" "last_applied_idx me \<le> commit_idx me"
    and "commit_idx me \<le> base_of (log_st me) + int (length (ents (log_st me)))"
    and "raft_is_apply_allowed me" "accepts_all c" "fixed_membership c (ents (log_st me))"
  shows "\<exists>me'. raft_apply_all_loop c me = Some (0, me') \<and> commit_idx me' = commit_idx me \<and>
    log_st me' = log_st me \<and> (last_applied_idx me' = commit_idx me \<or> pending_operations me') \<and>
    (cb_timestamp c = None \<longrightarrow> 0 \<le> exec_deadline me \<longrightarrow> last_applied_idx me' = commit_idx me)"
  using assms
proof (induction "nat (commit_idx me - last_applied_idx me)" arbitrary: me)
  case 0
  then show ?case by (subst raft_apply_all_loop.simps) auto
next
  case (Suc k)
  obtain t u where t: "raft_time_millis c me = (t, me\<lparr>udata := u\<rparr>)" "cb_timestamp c = None \<Longrightarrow> t = 0"
    using raft_time_millis_frame[of c me] raft_time_millis_None[of c me] by (metis prod.inject surj_pair)
  let ?me = "me\<lparr>udata := u\<rparr>"
  have lt: "last_applied_idx me < commit_idx me" using Suc by linarith
  show ?case
  proof (cases "exec_deadline me < t")
    case True
    then have "raft_apply_all_loop c me = Some (0, raft_set_pending ?me)"
      using lt t(1) by (subst raft_apply_all_loop.simps) simp
    then show ?thesis using True t(2) by (auto simp: raft_set_pending_def count_stat_def)
  next
    case False
    obtain me' where me': "raft_apply_entry c ?me = Some (0, me')" "last_applied_idx me' = last_applied_idx me + 1"
      "commit_idx me' = commit_idx me" "log_st me' = log_st me" "exec_deadline me' = exec_deadline me"
      "raft_is_apply_allowed me'"
      using raft_apply_entry_returns[of ?me] Suc.prems lt by (auto simp: raft_is_apply_allowed_def)
    have "raft_apply_all_loop c me = raft_apply_all_loop c me'"
      using lt t(1) False me'(1) by (subst raft_apply_all_loop.simps) simp
    then show ?thesis using Suc.hyps(1)[of me'] Suc.hyps(2) Suc.prems lt me' by auto
  qed
qed

lemma raft_restore_log_loop_returns:
  assumes "linv (log_st me)" "base_of (log_st me) < i" "fixed_membership c (ents (log_st me))"
  shows "\<exists>me'. raft_restore_log_loop c me i = Some (0, me') \<and>
    me' = me\<lparr>voting_cfg_change_log_idx := voting_cfg_change_log_idx me'\<rparr> \<and>
    voting_cfg_change_log_idx me' =
      fold (\<lambda>k v. if raft_entry_is_voting_cfg_change (ents (log_st me) ! nat (k - base_of (log_st me) - 1)) then k else v)
        [i..base_of (log_st me) + int (length (ents (log_st me)))] (voting_cfg_change_log_idx me)"
  using assms
proof (induction "nat (base_of (log_st me) + int (length (ents (log_st me))) + 1 - i)" arbitrary: me i)
  case 0
  then have "ent_at (base_of (log_st me)) (ents (log_st me)) i = None" by (simp add: ent_at_def)
  with 0 get[of "log_st me" i] show ?case
    by (subst raft_restore_log_loop.simps) auto
next
  case (Suc k)
  let ?b = "base_of (log_st me)" and ?es = "ents (log_st me)"
  let ?ety = "?es ! nat (i - ?b - 1)"
  let ?me = "if raft_entry_is_voting_cfg_change ?ety then me\<lparr>voting_cfg_change_log_idx := i\<rparr> else me"
  have i: "i \<le> ?b + int (length ?es)" using Suc.hyps(2) by linarith
  then have ety: "ent_at ?b ?es i = Some ?ety" using Suc.prems by (auto simp: ent_at_def)
  with get[of "log_st me" i] Suc.prems have "raft_restore_log_loop c me i = raft_restore_log_loop c ?me (i + 1)"
    by (subst raft_restore_log_loop.simps) (simp add: fixed_membership_append[OF Suc.prems(3) ent_at_set[OF ety]])
  with Suc.hyps(1)[of ?me "i + 1"] Suc.hyps(2) Suc.prems i show ?case
    by (auto simp: upto_rec1[of i] split: if_splits)
qed

end

text \<open>
  C16. Applying. When applying is allowed, the state machine accepts entries and the membership is
  fixed, \<open>raft_apply_all\<close> returns 0, without touching the log or the commit index, and either every
  committed entry has been applied or the time budget is used up and the server says that work is
  pending. Without a clock every committed entry is applied.
\<close>

theorem apply_all_completes:
  assumes "srv_ok log_inv lbase log_ents me" "raft_is_apply_allowed me"
    and "accepts_all c" "fixed_membership c (log_ents (log_st me))"
  shows "\<exists>me'. raft_apply_all (internal_ctx calloc c) me = Some (0, me') \<and> commit_idx me' = commit_idx me \<and>
    log_st me' = log_st me \<and> (last_applied_idx me' = commit_idx me \<or> pending_operations me') \<and>
    (cb_timestamp c = None \<longrightarrow> 0 \<le> exec_deadline me \<longrightarrow> last_applied_idx me' = commit_idx me)"
  using internal_raft.raft_apply_all_loop_returns[of me calloc c] assms
  by (simp add: raft_apply_all_def srv_ok_def accepts_all_def fixed_membership_def internal_ctx_def)


section \<open>Sending entries\<close>

lemma raft_get_node_upd:
  "upd_node i f me = Some me' \<Longrightarrow> (\<And>n. node_id (f n) = node_id n) \<Longrightarrow>
   raft_get_node me' i = map_option f (raft_get_node me i) \<and>
   (raft_get_nodeid me' = None) = (raft_get_nodeid me = None)"
proof -
  assume u: "upd_node i f me = Some me'" and f: "\<And>n. node_id (f n) = node_id n"
  have me': "me' = me\<lparr>nodes := map (\<lambda>n. if node_id n = i then f n else n) (nodes me)\<rparr>"
    using u by (auto simp: upd_node_def split: option.splits)
  have "find (\<lambda>n. j = node_id n) (map (\<lambda>n. if node_id n = i then f n else n) ns) =
      map_option (\<lambda>n. if node_id n = i then f n else n) (find (\<lambda>n. j = node_id n) ns)" for j ns
    by (induction ns) (auto simp: f)
  moreover have "find (\<lambda>n. i = node_id n) ns = Some n \<Longrightarrow> node_id n = i" for ns n
    by (induction ns) (auto split: if_splits)
  ultimately show ?thesis
    by (auto simp: me' raft_get_node_def raft_get_nodeid_def map_option_case split: option.splits)
qed

lemma upd_node_exists: "raft_get_node me i = Some n \<Longrightarrow> \<exists>me'. upd_node i f me = Some me'"
  by (simp add: upd_node_def)

lemma sent_node_updated:
  assumes "raft_get_node me i = Some n" "0 < next_idx n"
  shows "\<exists>me3 me4 n4. upd_node i (raft_node_set_next_idx (next_idx n + int k)) me = Some me3 \<and>
    upd_node i (raft_node_set_next_msgid m) me3 = Some me4 \<and>
    raft_get_node me4 i = Some n4 \<and> next_idx n4 = next_idx n + int k \<and>
    (raft_get_nodeid me4 = None) = (raft_get_nodeid me = None) \<and> log_st me4 = log_st me \<and> udata me4 = udata me"
proof -
  obtain me3 where me3: "upd_node i (raft_node_set_next_idx (next_idx n + int k)) me = Some me3"
    using upd_node_exists[OF assms(1)] by blast
  then have n3: "raft_get_node me3 i = Some (raft_node_set_next_idx (next_idx n + int k) n)"
      "(raft_get_nodeid me3 = None) = (raft_get_nodeid me = None)"
    using raft_get_node_upd[OF me3] assms(1) by auto
  obtain me4 where me4: "upd_node i (raft_node_set_next_msgid m) me3 = Some me4"
    using upd_node_exists[OF n3(1)] by blast
  have "log_st me4 = log_st me" "udata me4 = udata me"
    using me3 me4 by (auto simp: upd_node_def split: option.splits)
  with me3 me4 n3 raft_get_node_upd[OF me4] assms(2) show ?thesis
    by (auto simp: raft_node_set_next_idx_def raft_node_set_next_msgid_def)
qed

text \<open>\<open>tr u\<close> is the list of the requests handed to the transport, which only sending extends.\<close>

definition records_sent ::
  "('l, 'u) raft_ctx \<Rightarrow> (('l, 'u) raft_server \<Rightarrow> raft_node \<Rightarrow> raft_appendentries_req \<Rightarrow> int \<times> 'u) \<Rightarrow>
   ('u \<Rightarrow> raft_appendentries_req list) \<Rightarrow> bool" where
  "records_sent c f tr \<longleftrightarrow>
     (\<forall>me n r. tr (snd (f me n r)) = tr (udata me) @ [r]) \<and>
     (\<forall>g me n. cb_backpressure c = Some g \<longrightarrow> tr (snd (g me n)) = tr (udata me))"

lemma call_backpressure_record:
  assumes "records_sent c f tr"
  shows "\<exists>bp u. call_backpressure c me n = (bp, me\<lparr>udata := u\<rparr>) \<and> tr u = tr (udata me) \<and>
    (cb_backpressure c = None \<longrightarrow> bp = 0)"
proof (cases "cb_backpressure c")
  case None
  then show ?thesis by (intro exI[of _ 0] exI[of _ "udata me"]) (simp add: call_backpressure_def)
next
  case (Some g)
  obtain bp u where "g me n = (bp, u)" by fastforce
  moreover from this Some assms have "tr u = tr (udata me)" unfolding records_sent_def by (metis snd_conv)
  ultimately show ?thesis using Some by (intro exI[of _ bp] exI[of _ u]) (simp add: call_backpressure_def)
qed

text \<open>A request that says what the log with base \<open>b\<close> and entries \<open>es\<close> holds at its place.\<close>

definition describes :: "raft_index_t \<Rightarrow> raft_entry list \<Rightarrow> raft_appendentries_req \<Rightarrow> bool" where
  "describes b es r \<longleftrightarrow>
     b \<le> ae_prev_log_idx r \<and>
     ae_entries r = take (length (ae_entries r)) (drop (nat (ae_prev_log_idx r - b)) es) \<and>
     (\<forall>ety. ent_at b es (ae_prev_log_idx r) = Some ety \<longrightarrow> ae_prev_log_term r = ety_term ety)"

context raft_on_log
begin

lemma raft_get_entries_from_idx_eq:
  assumes "linv (log_st me)" "base_of (log_st me) < i"
  shows "\<exists>k. raft_get_entries_from_idx c me i =
      Some (take k (drop (nat (i - 1 - base_of (log_st me))) (ents (log_st me)))) \<and>
    (i \<le> raft_get_current_idx c me \<longrightarrow> 1 \<le> k)"
proof (cases "raft_get_current_idx c me < i")
  case True
  then show ?thesis by (intro exI[of _ 0]) (simp add: raft_get_entries_from_idx_def)
next
  case False
  have cur: "raft_get_current_idx c me = base_of (log_st me) + int (length (ents (log_st me)))"
    using current_idx[OF assms(1)] by (simp add: raft_get_current_idx_def)
  obtain k where k: "1 \<le> k" "k \<le> raft_get_current_idx c me - i + 1"
    "li_get_batch (impl c) (log_st me) i (raft_get_current_idx c me - i + 1) =
       Some (k, take (nat k) (drop (nat (i - 1 - base_of (log_st me))) (ents (log_st me))))"
    using get_batch[OF assms, of "raft_get_current_idx c me - i + 1"] False cur by auto
  moreover have "k \<le> int (length (ents (log_st me)) - nat (i - 1 - base_of (log_st me)))"
    using k cur False assms(2) by linarith
  ultimately show ?thesis using False
    by (intro exI[of _ "nat k"]) (simp add: raft_get_entries_from_idx_def)
qed

lemma send_loop_step:
  assumes "linv (log_st me)" "raft_get_node me i = Some n" "base_of (log_st me) < next_idx n"
    and "raft_get_nodeid me \<noteq> None" "cb_get_entries_to_send c = None" "records_sent c f tr"
  shows "(\<exists>me'. raft_send_appendentries_loop c f me i = Some (0, me') \<and> cb_backpressure c \<noteq> None \<and>
      log_st me' = log_st me \<and> tr (udata me') = tr (udata me)) \<or>
    (\<exists>e me' n' r. raft_send_appendentries_loop c f me i =
        (if e = 0 \<and> next_idx n' \<le> raft_get_current_idx c me then raft_send_appendentries_loop c f me' i else Some (e, me')) \<and>
      log_st me' = log_st me \<and> raft_get_nodeid me' \<noteq> None \<and> raft_get_node me' i = Some n' \<and>
      tr (udata me') = tr (udata me) @ [r] \<and> ae_prev_log_idx r = next_idx n - 1 \<and>
      describes (base_of (log_st me)) (ents (log_st me)) r \<and> next_idx n' = next_idx n + int (length (ae_entries r)) \<and>
      (next_idx n \<le> raft_get_current_idx c me \<longrightarrow> ae_entries r \<noteq> []))"
proof -
  obtain bp u where bp: "call_backpressure c me n = (bp, me\<lparr>udata := u\<rparr>)" "tr u = tr (udata me)"
      "cb_backpressure c = None \<Longrightarrow> bp = 0"
    using call_backpressure_record[OF assms(6)] by blast
  show ?thesis
  proof (cases "bp = 0")
    case False
    then have "raft_send_appendentries_loop c f me i = Some (0, me\<lparr>udata := u\<rparr>)"
      using assms(2) bp(1) by (subst raft_send_appendentries_loop.simps) simp
    with False bp show ?thesis by auto
  next
    case True
    let ?me1 = "me\<lparr>udata := u, msg_id := msg_id me + 1\<rparr>"
    obtain my_id where id: "raft_get_nodeid me = Some my_id" using assms(4) by blast
    have id1: "raft_get_nodeid (me\<lparr>udata := u\<rparr>) = Some my_id"
      using id by simp
    have pos: "0 < next_idx n" using base_nonneg[OF assms(1)] assms(3) by linarith
    let ?pt = "case ent_at (base_of (log_st me)) (ents (log_st me)) (next_idx n - 1) of
      None \<Rightarrow> snapshot_last_term me | Some e \<Rightarrow> ety_term e"
    have prev: "raft_get_previous_log_term c ?me1 (next_idx n) = Some ?pt"
      using get[OF assms(1), of "next_idx n - 1"] pos
      by (simp add: raft_get_previous_log_term_def raft_get_entry_from_idx_def cong: option.case_cong)
    obtain k where k: "raft_get_entries_from_idx c ?me1 (next_idx n) =
        Some (take k (drop (nat (next_idx n - 1 - base_of (log_st me))) (ents (log_st me))))"
      "next_idx n \<le> raft_get_current_idx c me \<longrightarrow> 1 \<le> k"
      using raft_get_entries_from_idx_eq[of ?me1 "next_idx n"] assms(1,3) by (auto simp: raft_get_current_idx_def)
    let ?es = "take k (drop (nat (next_idx n - 1 - base_of (log_st me))) (ents (log_st me)))"
    let ?r = "\<lparr>ae_leader_id = my_id, ae_msg_id = msg_id me + 1, ae_term = current_term me,
       ae_prev_log_idx = next_idx n - 1, ae_prev_log_term = ?pt, ae_leader_commit = commit_idx me, ae_entries = ?es\<rparr>"
    let ?me2 = "count_stat appendentries_req_sent_update ?me1"
    obtain e u2 where fr: "f ?me2 n ?r = (e, u2)" by fastforce
    have "tr (snd (f ?me2 n ?r)) = tr (udata ?me2) @ [?r]"
      using assms(6) unfolding records_sent_def by blast
    then have tr2: "tr u2 = tr (udata me) @ [?r]"
      unfolding fr by (simp add: count_stat_def bp(2))
    obtain me3 me4 n4 where n4: "upd_node i (raft_node_set_next_idx (next_idx n + int (length ?es))) (?me2\<lparr>udata := u2\<rparr>) = Some me3"
      "upd_node i (raft_node_set_next_msgid (msg_id me + 1 + 1)) me3 = Some me4" "raft_get_node me4 i = Some n4"
      "next_idx n4 = next_idx n + int (length ?es)" "raft_get_nodeid me4 \<noteq> None" "log_st me4 = log_st me" "udata me4 = u2"
      using sent_node_updated[of "?me2\<lparr>udata := u2\<rparr>" i n "length ?es" "msg_id me + 1 + 1"] assms(2,4) pos
      by (auto simp: count_stat_def)
    have "raft_get_current_idx c me4 = raft_get_current_idx c me" using n4 by (simp add: raft_get_current_idx_def)
    then have "raft_send_appendentries_loop c f me i =
        (if e = 0 \<and> next_idx n4 \<le> raft_get_current_idx c me then raft_send_appendentries_loop c f me4 i else Some (e, me4))"
      using assms(2,5) bp(1) True id1 prev k(1) fr n4
      by (subst raft_send_appendentries_loop.simps) (simp add: raft_get_entries_def Let_def)
    moreover have "describes (base_of (log_st me)) (ents (log_st me)) ?r"
      using assms(3) by (auto simp: describes_def min_def)
    moreover have "next_idx n \<le> raft_get_current_idx c me \<longrightarrow> ?es \<noteq> []"
      using k(2) current_idx[OF assms(1)] assms(3) by (auto simp: raft_get_current_idx_def)
    ultimately show ?thesis using n4 tr2
      by (intro disjI2 exI[of _ e] exI[of _ me4] exI[of _ n4] exI[of _ ?r]) simp
  qed
qed

text \<open>The requests of a whole run of the loop.\<close>

lemma send_loop_returns:
  assumes "linv (log_st me)" "raft_get_node me i = Some n" "base_of (log_st me) < next_idx n"
    and "raft_get_nodeid me \<noteq> None" "cb_get_entries_to_send c = None" "records_sent c f tr"
  shows "\<exists>e me' reqs. raft_send_appendentries_loop c f me i = Some (e, me') \<and>
    tr (udata me') = tr (udata me) @ reqs \<and> list_all (describes (base_of (log_st me)) (ents (log_st me))) reqs \<and>
    (e = 0 \<longrightarrow> cb_backpressure c = None \<longrightarrow>
       concat (map ae_entries reqs) = drop (nat (next_idx n - 1 - base_of (log_st me))) (ents (log_st me)))"
  using assms
proof (induction "nat (raft_get_current_idx c me + 1 - next_idx n)" arbitrary: me n rule: less_induct)
  case less
  let ?b = "base_of (log_st me)" and ?es = "ents (log_st me)"
  note cur = current_idx[OF less.prems(1), folded raft_get_current_idx_def]
  from send_loop_step[OF less.prems] show ?case
  proof (elim disjE exE conjE)
    fix me' assume "raft_send_appendentries_loop c f me i = Some (0, me')" "cb_backpressure c \<noteq> None" "tr (udata me') = tr (udata me)"
    then show ?case by (intro exI[of _ 0] exI[of _ me'] exI[of _ "[]"]) auto
  next
    fix e me' n' r assume run: "raft_send_appendentries_loop c f me i =
        (if e = 0 \<and> next_idx n' \<le> raft_get_current_idx c me then raft_send_appendentries_loop c f me' i else Some (e, me'))"
      and me': "log_st me' = log_st me" "raft_get_nodeid me' \<noteq> None" "raft_get_node me' i = Some n'"
      and r: "tr (udata me') = tr (udata me) @ [r]" "ae_prev_log_idx r = next_idx n - 1" "describes ?b ?es r"
        "next_idx n' = next_idx n + int (length (ae_entries r))"
        "next_idx n \<le> raft_get_current_idx c me \<longrightarrow> ae_entries r \<noteq> []"
    have es: "ae_entries r = take (length (ae_entries r)) (drop (nat (next_idx n - 1 - ?b)) ?es)"
      using r(2,3) unfolding describes_def by simp
    show ?case
    proof (cases "e = 0 \<and> next_idx n' \<le> raft_get_current_idx c me")
      case True
      then have "next_idx n < next_idx n'" using r(4,5) by simp
      moreover have "raft_get_current_idx c me' = raft_get_current_idx c me" using me' by (simp add: raft_get_current_idx_def)
      ultimately obtain e2 me2 reqs where "raft_send_appendentries_loop c f me' i = Some (e2, me2)"
        "tr (udata me2) = tr (udata me') @ reqs" "list_all (describes ?b ?es) reqs"
        "e2 = 0 \<longrightarrow> cb_backpressure c = None \<longrightarrow> concat (map ae_entries reqs) = drop (nat (next_idx n' - 1 - ?b)) ?es"
        using less.hyps[of me' n'] less.prems True me' by auto
      moreover have "drop (nat (next_idx n' - 1 - ?b)) ?es = drop (length (ae_entries r)) (drop (nat (next_idx n - 1 - ?b)) ?es)"
        unfolding drop_drop using r(4) less.prems(3) by (intro arg_cong2[where f = drop]) auto
      moreover have "ae_entries r @ drop (length (ae_entries r)) (drop (nat (next_idx n - 1 - ?b)) ?es) = drop (nat (next_idx n - 1 - ?b)) ?es"
        by (metis append_take_drop_id es)
      ultimately show ?thesis using True run r
        by (intro exI[of _ e2] exI[of _ me2] exI[of _ "r # reqs"]) simp
    next
      case False
      then have "raft_send_appendentries_loop c f me i = Some (e, me')" using run by auto
      moreover have "ae_entries r = drop (nat (next_idx n - 1 - ?b)) ?es" if "e = 0"
      proof -
        have "length ?es - nat (next_idx n - 1 - ?b) \<le> length (ae_entries r)" using that False r(4) cur by auto
        with es show ?thesis by (metis length_drop take_all)
      qed
      ultimately show ?thesis using r by (intro exI[of _ e] exI[of _ me'] exI[of _ "[r]"]) simp
    qed
  qed
qed

end

text \<open>
  C15. Sending entries. With the server's own way of fetching entries, sending to a node returns,
  whatever the transport answers. If every request is handed over and nothing holds it back, the
  requests together carry all the entries from the node's next index to the end of the log, in
  order and each once; every single request describes the log: its entries are the log's entries
  behind its previous index, and its previous term is the term of the log's entry there.
\<close>

theorem send_appendentries_covers:
  assumes "log_inv (log_st me)" "raft_get_node me i = Some n" "my_node me \<noteq> Some i" "raft_get_nodeid me \<noteq> None"
    and "lbase (log_st me) < next_idx n" "snapshot_last_idx me < next_idx n" "raft_node_is_active n"
    and "cb_get_entries_to_send c = None" "cb_send_appendentries c = Some f" "records_sent c f tr"
  shows "\<exists>e me' reqs. raft_send_appendentries (internal_ctx calloc c) me i = Some (e, me') \<and>
    tr (udata me') = tr (udata me) @ reqs \<and> list_all (describes (lbase (log_st me)) (log_ents (log_st me))) reqs \<and>
    (e = 0 \<longrightarrow> cb_backpressure c = None \<longrightarrow>
       concat (map ae_entries reqs) = drop (nat (next_idx n - 1 - lbase (log_st me))) (log_ents (log_st me)))"
proof -
  have "0 < next_idx n" using internal_log.base_nonneg[where l = "log_st me", OF assms(1)] assms(5) by linarith
  then show ?thesis
    using internal_raft.send_loop_returns[of me i n calloc c f tr] assms
    by (simp add: raft_send_appendentries_def internal_ctx_def records_sent_def)
qed

lemma send_loop_diverges_step:
  "raft_send_appendentries_loop c f me i = Some r \<Longrightarrow> cb_backpressure c = None \<Longrightarrow>
   cb_get_entries_to_send c = Some g \<Longrightarrow> (\<And>me n k s. fst (g me n k s) \<le> 0) \<Longrightarrow> (\<And>me n r. fst (f me n r) = 0) \<Longrightarrow>
   raft_get_node me i = Some n \<Longrightarrow> 0 < next_idx n \<Longrightarrow> next_idx n \<le> raft_get_current_idx c me \<Longrightarrow> False"
proof (induction arbitrary: n rule: raft_send_appendentries_loop.raw_induct[rotated, consumes 1, case_names loop])
  case (loop rec c f me i r)
  let ?me1 = "me\<lparr>msg_id := msg_id me + 1\<rparr>"
  let ?size = "min MAX_ENTRIES_IN_APPEND_REQ (raft_get_current_idx c me - next_idx n + 1)"
  have cur: "raft_get_current_idx c ?me1 = raft_get_current_idx c me" by (simp add: raft_get_current_idx_def)
  obtain k xs u where g: "g ?me1 n (next_idx n) ?size = (k, xs, u)" by (metis prod_cases3)
  moreover from this have "k \<le> 0" using loop.prems(3)[of ?me1 n "next_idx n" ?size] by simp
  moreover have "(if x > y then y else x) = min y x" for x y :: int by (simp add: min_def)
  ultimately have "raft_get_entries c ?me1 n (next_idx n) = Some ([], ?me1\<lparr>udata := snd (snd (g ?me1 n (next_idx n) ?size))\<rparr>)"
    using loop.prems(2,7) by (simp add: raft_get_entries_def cur Let_def)
  note es = this
  have bp: "call_backpressure c me n = (0, me)" using loop.prems(1) by (simp add: call_backpressure_def)
  from loop.hyps obtain my_id pt where
    id: "raft_get_nodeid me = Some my_id" and pt: "raft_get_previous_log_term c ?me1 (next_idx n) = Some pt"
    unfolding loop.prems(5) bind.bind_lunit Let_def bp case_prod_conv
    by (cases "raft_get_nodeid me"; cases "raft_get_previous_log_term c ?me1 (next_idx n)") auto
  let ?me2 = "?me1\<lparr>udata := snd (snd (g ?me1 n (next_idx n) ?size))\<rparr>"
  let ?req = "\<lparr>ae_leader_id = my_id, ae_msg_id = msg_id me + 1, ae_term = current_term me,
     ae_prev_log_idx = next_idx n - 1, ae_prev_log_term = pt, ae_leader_commit = commit_idx me, ae_entries = []\<rparr>"
  define m where "m = count_stat appendentries_req_sent_update ?me2"
  define req where "req = ?req"
  have m: "log_st m = log_st me" "raft_get_node m i = Some n"
    using loop.prems(5) by (simp_all add: m_def count_stat_def)
  have f: "f m n req = (0, snd (f m n req))" using loop.prems(4)[of m n req] by (metis prod.collapse)
  have run: "do { m3 \<leftarrow> upd_node i (raft_node_set_next_idx (next_idx n)) (m\<lparr>udata := snd (f m n req)\<rparr>);
          m4 \<leftarrow> upd_node i (raft_node_set_next_msgid (ae_msg_id req + 1)) m3;
          n4 \<leftarrow> raft_get_node m4 i;
          if next_idx n4 \<le> raft_get_current_idx c m4 then rec c f m4 i else Some (0, m4) } = Some r"
  proof -
    have q: "req = \<lparr>ae_leader_id = my_id, ae_msg_id = msg_id ?me2, ae_term = current_term ?me2,
        ae_prev_log_idx = next_idx n - 1, ae_prev_log_term = pt, ae_leader_commit = commit_idx ?me2, ae_entries = []\<rparr>"
      by (simp add: req_def)
    show ?thesis
      using loop.hyps unfolding loop.prems(5) bind.bind_lunit Let_def bp case_prod_conv id pt es
      unfolding m_def[symmetric] q[symmetric] 
      apply (subst (asm) f)
      by simp
  qed
  obtain m3 m4 n4 where "upd_node i (raft_node_set_next_idx (next_idx n)) (m\<lparr>udata := snd (f m n req)\<rparr>) = Some m3"
    "upd_node i (raft_node_set_next_msgid (ae_msg_id req + 1)) m3 = Some m4" "raft_get_node m4 i = Some n4"
    "next_idx n4 = next_idx n" "log_st m4 = log_st me"
    using sent_node_updated[of "m\<lparr>udata := snd (f m n req)\<rparr>" i n 0 "ae_msg_id req + 1"] m loop.prems(6) by auto
  with run loop.prems(7) have "rec c f m4 i = Some r" "raft_get_node m4 i = Some n4" "0 < next_idx n4"
      "next_idx n4 \<le> raft_get_current_idx c m4"
    using loop.prems(6) by (auto simp: raft_get_current_idx_def)
  with loop.IH loop.prems(1-4) show False by blast
qed

text \<open>
  C20. Sending can hang. If the application's callback that fetches the entries to send returns no
  entry for a node that is behind, which its documentation allows (it may fill the array partially),
  and the transport accepts the empty requests, sending to that node never returns.
\<close>

theorem send_appendentries_hangs:
  assumes "raft_get_node me i = Some n" "snapshot_last_idx me < next_idx n" "raft_node_is_active n"
    and "0 < next_idx n" "next_idx n \<le> raft_get_current_idx c me"
    and "cb_backpressure c = None" "cb_get_entries_to_send c = Some g" "\<And>me n k s. fst (g me n k s) = 0"
    and "cb_send_appendentries c = Some f" "\<And>me n r. fst (f me n r) = 0"
  shows "raft_send_appendentries c me i = None"
proof -
  have "raft_send_appendentries_loop c f me i = None"
    using send_loop_diverges_step[OF _ assms(6,7) _ assms(10,1,4,5)] assms(8)
    by (cases "raft_send_appendentries_loop c f me i") auto
  with assms show ?thesis by (simp add: raft_send_appendentries_def)
qed

section \<open>Witnesses\<close>

text \<open>
  A leader of a cluster of three nodes in an environment that keeps the answered reads and the
  requests handed to the transport.
\<close>

type_synonym ex_tape = "(nat \<times> bool) list \<times> raft_appendentries_req list"

definition ex_tape_ctx :: "(ex_log, ex_tape) raft_ctx" where
  "ex_tape_ctx =
     \<lparr>impl = raft_log_internal_impl (\<lambda>_. True),
      cb_send_requestvote = None,
      cb_send_appendentries = Some (\<lambda>me n req. (0, (fst (udata me), snd (udata me) @ [req]))),
      cb_send_snapshot = None,
      cb_send_timeoutnow = None,
      cb_load_snapshot = None,
      cb_get_snapshot_chunk = None,
      cb_store_snapshot_chunk = None,
      cb_clear_snapshot = None,
      cb_applylog = Some (\<lambda>me ety i. (0, udata me)),
      cb_persist_metadata = None,
      cb_get_node_id = None,
      cb_node_has_sufficient_logs = None,
      cb_timestamp = None,
      cb_notify_membership_event = None,
      cb_notify_state_event = None,
      cb_notify_transfer_event = None,
      cb_backpressure = None,
      cb_get_entries_to_send = None,
      c_call_read = (\<lambda>p b u. (fst u @ [(p, b)], snd u)),
      c_rand = (\<lambda>u. (7, u)),
      c_calloc = (\<lambda>_. True),
      c_realloc = (\<lambda>_. True)\<rparr>"

text \<open>Leader of term 1 with three entries in its log, and two reads in its queue.\<close>

definition ex_reader :: "(ex_log, ex_tape) raft_server" where
  "ex_reader =
     the (do {
       m \<leftarrow> raft_new_with_log ex_tape_ctx (log_init (\<lambda>_. True) () None) ([], []);
       me \<leftarrow> m;
       (_, me) \<leftarrow> raft_add_node ex_tape_ctx me 0 1 True;
       (_, me) \<leftarrow> raft_periodic_internal ex_tape_ctx me 0;
       (_, me) \<leftarrow> raft_add_node ex_tape_ctx me 0 2 False;
       (_, me) \<leftarrow> raft_add_node ex_tape_ctx me 0 3 False;
       (_, _, me) \<leftarrow> raft_recv_entry ex_tape_ctx (me\<lparr>auto_flush := False\<rparr>) ((ex_entry 0 8)\<lparr>ety_type := RAFT_LOGTYPE_ADD_NODE\<rparr>);
       (_, _, me) \<leftarrow> raft_recv_entry ex_tape_ctx me (ex_entry 0 9);
       (_, me) \<leftarrow> raft_recv_read_request ex_tape_ctx me 21;
       (_, me) \<leftarrow> raft_recv_read_request ex_tape_ctx me 22;
       Some me
     })"

definition ex_reader_acked :: "(ex_log, ex_tape) raft_server" where
  "ex_reader_acked =
     the (do {
       me \<leftarrow> upd_node 2 (raft_node_set_match_msgid 1) ex_reader;
       me \<leftarrow> upd_node 2 (raft_node_set_match_idx 3) me;
       me \<leftarrow> upd_node 1 (raft_node_set_match_idx 3) me;
       me \<leftarrow> raft_update_commit_idx ex_tape_ctx me;
       (_, me) \<leftarrow> raft_apply_all ex_tape_ctx me;
       Some me
     })"

lemma ex_tape_sel:
  "cb_send_appendentries ex_tape_ctx = Some (\<lambda>me n req. (0, (fst (udata me), snd (udata me) @ [req])))"
  "cb_applylog ex_tape_ctx = Some (\<lambda>me ety i. (0, udata me))"
  "cb_get_node_id ex_tape_ctx = None" "cb_timestamp ex_tape_ctx = None" "cb_backpressure ex_tape_ctx = None"
  "cb_get_entries_to_send ex_tape_ctx = None" "c_call_read ex_tape_ctx = (\<lambda>p b u. (fst u @ [(p, b)], snd u))"
  by (simp_all add: ex_tape_ctx_def)

lemma ex_tape_internal: "internal_ctx (\<lambda>_. True) ex_tape_ctx = ex_tape_ctx"
  by (simp add: internal_ctx_def ex_tape_ctx_def)

theorem reads_served_in_order_witness:
  "\<exists>me'. raft_process_read_queue ex_tape_ctx ex_reader_acked = Some me' \<and> fst (udata me') = [(21, True)]"
proof -
  have tr: "records_reads ex_tape_ctx fst" by (simp add: records_reads_def ex_tape_sel)
  have vals: "raft_is_leader ex_reader_acked" "current_term ex_reader_acked \<le> last_applied_term ex_reader_acked"
    "quorum_msg_id ex_reader_acked = Some 1" "fst (udata ex_reader_acked) = []" "\<not> pending_operations ex_reader_acked"
    "map rr_cb (read_queue ex_reader_acked) = [21, 22]" "map rr_msg_id (read_queue ex_reader_acked) = [1, 2]"
    "map rr_read_idx (read_queue ex_reader_acked) = [3, 3]" "last_applied_idx ex_reader_acked = 3" "0 \<le> exec_deadline ex_reader_acked"
    by code_simp+
  obtain p q where q: "read_queue ex_reader_acked = [p, q]" "rr_cb p = 21" "rr_msg_id p = 1" "rr_read_idx p = 3" "rr_msg_id q = 2"
    using vals(6-8) by (auto simp: map_eq_Cons_conv)
  obtain n me' where run: "raft_process_read_queue ex_tape_ctx ex_reader_acked = Some me'" "n \<le> length [p, q]"
    "read_queue me' = drop n [p, q]" "\<forall>r \<in> set (take n [p, q]). rr_msg_id r \<le> 1 \<and> rr_read_idx r \<le> 3"
    "fst (udata me') = [] @ map (\<lambda>p. (rr_cb p, True)) (take n [p, q])"
    "pending_operations me' \<and> ((None :: (((ex_log, ex_tape) raft_server \<Rightarrow> raft_time_t \<times> ex_tape) option)) \<noteq> None \<or> exec_deadline ex_reader_acked < 0) \<or>
     read_queue me' = [] \<or> \<not> (rr_msg_id (hd (read_queue me')) \<le> 1 \<and> rr_read_idx (hd (read_queue me')) \<le> 3)"
    using reads_served_in_order[OF tr vals(1-3), unfolded q(1) vals(4) vals(9) ex_tape_sel] by (elim exE conjE)
  have "n = 0 \<or> n = 1 \<or> n = 2" using run(2) by auto
  moreover have "\<not> (2 :: 64 word) \<le> 1" by code_simp
  ultimately show ?thesis using run q vals(10) by auto
qed

theorem reads_refused_witness:
  "\<exists>u. raft_process_read_queue ex_tape_ctx (ex_reader\<lparr>state := RAFT_STATE_FOLLOWER\<rparr>) =
     Some (ex_reader\<lparr>state := RAFT_STATE_FOLLOWER, udata := u, read_queue := []\<rparr>) \<and> fst u = [(21, False), (22, False)]"
proof -
  have tr: "records_reads ex_tape_ctx fst" by (simp add: records_reads_def ex_tape_sel)
  have "fst (udata ex_reader) = []" "map (\<lambda>p. (rr_cb p, False)) (read_queue ex_reader) = [(21, False), (22, False)]" by code_simp+
  with reads_refused[OF tr, of "ex_reader\<lparr>state := RAFT_STATE_FOLLOWER\<rparr>"] show ?thesis by simp
qed

lemma ex_reader_log: "log_inv (log_st ex_reader)"
proof -
  have "\<forall>k. 0 \<le> k \<and> k < 3 \<longrightarrow> k = 0 \<or> k = 1 \<or> k = (2::int)" by auto
  moreover have "lsize (log_st ex_reader) = 10" "length (lentries (log_st ex_reader)) = 10" "lcount (log_st ex_reader) = 3"
    "lfront (log_st ex_reader) = 0" "lback (log_st ex_reader) = 3" "lbase (log_st ex_reader) = 0"
    "\<forall>k \<in> {0, 1, 2}. lentries (log_st ex_reader) ! k \<noteq> None" by code_simp+
  moreover have "Option.is_none (log_offer (lcb (log_st ex_reader)))" "Option.is_none (log_poll_cb (lcb (log_st ex_reader)))" by code_simp+
  ultimately show ?thesis by (auto simp: log_inv_def log_cbs_ok_def slot_def Option.is_none_def split: option.splits)
qed

theorem apply_all_completes_witness:
  "\<exists>me'. raft_apply_all ex_tape_ctx (ex_reader\<lparr>commit_idx := 3\<rparr>) = Some (0, me') \<and> last_applied_idx ex_reader = 1 \<and>
    last_applied_idx me' = 3"
proof -
  have "last_applied_idx ex_reader = 1" "lbase (log_st ex_reader) = 0" "lcount (log_st ex_reader) = 3"
    "snapshot_last_idx ex_reader \<le> 1" "next_snapshot_last_idx ex_reader \<le> 1" "\<forall>ety \<in> set (log_ents (log_st ex_reader)). ety_term ety \<le> current_term ex_reader"
    "last_applied_term ex_reader \<le> current_term ex_reader" "snapshot_last_term ex_reader \<le> current_term ex_reader"
    "next_snapshot_last_term ex_reader \<le> current_term ex_reader" "nodes_ok (nodes ex_reader)"
    "0 \<le> exec_deadline ex_reader" "raft_is_apply_allowed (ex_reader\<lparr>commit_idx := 3\<rparr>)" by code_simp+
  moreover from this have "srv_ok log_inv lbase log_ents (ex_reader\<lparr>commit_idx := 3\<rparr>)"
    using ex_reader_log by (simp add: srv_ok_def)
  ultimately show ?thesis
    using apply_all_completes[of "ex_reader\<lparr>commit_idx := 3\<rparr>" ex_tape_ctx "\<lambda>_. True", unfolded ex_tape_internal]
    by (auto simp: accepts_all_def fixed_membership_def ex_tape_sel)
qed


lemma ex_reader_node:
  "\<exists>n. raft_get_node ex_reader 2 = Some n \<and> next_idx n = 1 \<and> raft_node_is_active n \<and> my_node ex_reader \<noteq> Some 2 \<and>
   raft_get_nodeid ex_reader \<noteq> None \<and> snapshot_last_idx ex_reader = 0"
proof -
  have "\<not> Option.is_none (raft_get_node ex_reader 2)" "next_idx (the (raft_get_node ex_reader 2)) = 1"
    "raft_node_is_active (the (raft_get_node ex_reader 2))" "my_node ex_reader \<noteq> Some 2" "raft_get_nodeid ex_reader \<noteq> None"
    "snapshot_last_idx ex_reader = 0" by code_simp+
  then show ?thesis by (intro exI[of _ "the (raft_get_node ex_reader 2)"]) (simp add: Option.is_none_def)
qed

theorem send_appendentries_covers_witness:
  "\<exists>e me' reqs. raft_send_appendentries ex_tape_ctx ex_reader 2 = Some (e, me') \<and> snd (udata me') = reqs \<and>
    list_all (describes 0 (log_ents (log_st ex_reader))) reqs"
proof -
  obtain n where n: "raft_get_node ex_reader 2 = Some n" "next_idx n = 1" "raft_node_is_active n" "my_node ex_reader \<noteq> Some 2"
    "raft_get_nodeid ex_reader \<noteq> None" "snapshot_last_idx ex_reader = 0" using ex_reader_node by blast
  have vals: "lbase (log_st ex_reader) = 0" "snd (udata ex_reader) = []" by code_simp+
  have "records_sent ex_tape_ctx (\<lambda>me n req. (0, (fst (udata me), snd (udata me) @ [req]))) snd"
    by (simp add: records_sent_def ex_tape_sel)
  from send_appendentries_covers[OF ex_reader_log n(1,4,5) _ _ n(3) ex_tape_sel(6,1) this, of "\<lambda>_. True", unfolded ex_tape_internal] n vals
  show ?thesis by auto
qed

theorem send_appendentries_hangs_witness:
  "raft_send_appendentries (ex_tape_ctx\<lparr>cb_get_entries_to_send := Some (\<lambda>me n i k. (0, [], udata me))\<rparr>) ex_reader 2 = None"
proof -
  obtain n where n: "raft_get_node ex_reader 2 = Some n" "next_idx n = 1" "raft_node_is_active n"
    "snapshot_last_idx ex_reader = 0" using ex_reader_node by blast
  have "raft_get_current_idx ex_tape_ctx ex_reader = 3" by code_simp
  then show ?thesis
    by (intro send_appendentries_hangs[OF n(1), where g = "\<lambda>me n i k. (0, [], udata me)" and
          f = "\<lambda>me n req. (0, (fst (udata me), snd (udata me) @ [req]))"])
      (use n in \<open>simp_all add: ex_tape_sel raft_get_current_idx_def\<close>)
qed

end
