(* ===== verification/Raft_Replication.thy ===== *)
theory Raft_Replication
  imports Raft_Loops
begin

text \<open>
  Replication on the follower: what an append-entries request that is answered with success has
  done to the log and to the commit index, and that a request of an old leader does nothing; and what the handler of a client request stores and reports.
\<close>

section \<open>What the steps of the handler do to the log\<close>

lemma raft_handle_append_cfg_change_frame:
  assumes "raft_handle_append_cfg_change c me ety i = Some me'"
  shows "commit_idx me' = commit_idx me \<and> log_st me' = log_st me \<and> current_term me' = current_term me"
proof -
  have upd: "commit_idx y = commit_idx x \<and> log_st y = log_st x \<and> current_term y = current_term x"
    if "upd_node n f x = Some y" for n f x y
    using that by (auto simp: upd_node_def split: option.splits)
  have add: "commit_idx y = commit_idx x \<and> log_st y = log_st x \<and> current_term y = current_term x"
    if "raft_add_node_internal c x e u n s v = Some (p, y)" for x y e u n s v p
    using that by (auto simp: raft_add_node_internal_def call_notify_membership_def Let_def
        split: option.splits if_splits dest!: upd elim!: bind_SomeE)
  from assms show ?thesis
    by (auto simp: raft_handle_append_cfg_change_def Let_def elim!: do_elims dest!: upd add)
qed

text \<open>The fields that following another leader leaves alone.\<close>

definition kept :: "('l, 'u) raft_server \<Rightarrow> ('l, 'u) raft_server \<Rightarrow> bool" where
  "kept me me' \<longleftrightarrow>
     log_st me' = log_st me \<and> commit_idx me' = commit_idx me \<and> snapshot_last_idx me' = snapshot_last_idx me \<and>
     snapshot_last_term me' = snapshot_last_term me \<and> current_term me' = current_term me"

lemma kept_clear: "raft_clear_incoming_snapshot c me i = Some (e, me') \<Longrightarrow> kept me me'"
  by (auto simp: raft_clear_incoming_snapshot_def kept_def split: if_splits elim!: do_elims)

lemma kept_follower: "raft_become_follower c me = Some me' \<Longrightarrow> kept me me'"
  by (auto simp: raft_become_follower_def raft_set_state_def raft_randomize_election_timeout_def call_notify_state_def
      kept_def Let_def split: option.splits elim!: do_elims dest!: kept_clear)

lemma kept_reset: "kept me (raft_reset_transfer_leader c me b)"
  by (simp add: raft_reset_transfer_leader_def kept_def Let_def split: option.split)

lemma raft_accept_leader_frame:
  assumes "raft_accept_leader c me i = Some me'"
  shows "kept me me'"
proof -
  obtain me1 me2 where 1: "(if \<not> raft_is_follower me then raft_become_follower c me else Some me) = Some me1"
    and 2: "(if leader_id me1 \<noteq> i then do { (_, me) \<leftarrow> raft_clear_incoming_snapshot c me1 0; Some me } else Some me1) = Some me2"
    and 3: "me' = raft_reset_transfer_leader c (me2\<lparr>timeout_elapsed := 0, leader_id := i\<rparr>) False"
    using assms unfolding raft_accept_leader_def Let_def by (elim bind_SomeE) simp
  have "kept me me1" using 1 kept_follower[of c me me1] by (auto simp: kept_def split: if_splits)
  moreover have "kept me1 me2" using 2 by (auto simp: kept_def split: if_splits elim!: bind_SomeE dest!: kept_clear)
  moreover have "kept me2 me'" using 3 kept_reset[of "me2\<lparr>timeout_elapsed := 0, leader_id := i\<rparr>" c False] by (simp add: kept_def)
  ultimately show ?thesis by (simp add: kept_def)
qed

context raft_on_log
begin

lemma raft_append_entry_log:
  assumes "raft_append_entry c me ety = Some (0, me')" "linv (log_st me)"
  shows "linv (log_st me') \<and> base_of (log_st me') = base_of (log_st me) \<and>
    ents (log_st me') = ents (log_st me) @ [ety] \<and> commit_idx me' = commit_idx me \<and>
    current_term me' = current_term me"
  using assms append[OF assms(2), of ety]
  by (auto simp: raft_append_entry_def Let_def split: if_splits elim!: bind_SomeE
      dest!: raft_handle_append_cfg_change_frame)

lemma raft_recv_ae_append_log:
  "raft_recv_ae_append c me idx cur es = Some (0, cur', me') \<Longrightarrow> linv (log_st me) \<Longrightarrow>
   linv (log_st me') \<and> base_of (log_st me') = base_of (log_st me) \<and> ents (log_st me') = ents (log_st me) @ es \<and>
   commit_idx me' = commit_idx me \<and> cur' = (if es = [] then cur else idx + int (length es) - 1)"
proof (induction es arbitrary: me idx cur)
  case (Cons ety es)
  from Cons.prems obtain me1 where me1: "raft_append_entry c me ety = Some (0, me1)"
    "raft_recv_ae_append c me1 (idx + 1) idx es = Some (0, cur', me')"
    by (auto elim!: do_elims)
  with Cons.IH[OF me1(2)] raft_append_entry_log[OF me1(1) Cons.prems(2)] show ?case by simp
qed simp

lemma raft_delete_entry_loop_log:
  "raft_delete_entry_loop c me idx k = Some (0, me') \<Longrightarrow> linv (log_st me) \<Longrightarrow> base_of (log_st me) < idx \<Longrightarrow>
   k = base_of (log_st me) + int (length (ents (log_st me))) \<Longrightarrow> idx \<le> k + 1 \<Longrightarrow>
   linv (log_st me') \<and> base_of (log_st me') = base_of (log_st me) \<and> commit_idx me' = commit_idx me \<and>
   ents (log_st me') = take (nat (idx - 1 - base_of (log_st me))) (ents (log_st me))"
proof (induction "nat (k + 1 - idx)" arbitrary: me k)
  case 0
  then show ?case using sync[OF "0.prems"(2)]
    by (auto simp: raft_delete_entry_loop.simps[of c me] elim!: bind_SomeE)
next
  case (Suc j)
  let ?b = "base_of (log_st me)" and ?es = "ents (log_st me)"
  have k: "idx \<le> k" using Suc.hyps(2) by linarith
  obtain e l where l: "li_pop (impl c) (log_st me) k = Some (e, l)" "linv l" "base_of l = ?b"
      "e = 0 \<longrightarrow> ents l = take (nat (k - 1 - ?b)) ?es"
    using pop[OF Suc.prems(2), of k] Suc.prems(3) k by auto
  obtain ety me1 where "e = 0" and me1: "raft_handle_remove_cfg_change c (me\<lparr>log_st := l\<rparr>) ety k = Some me1"
    "raft_delete_entry_loop c (if voting_cfg_change_log_idx me1 = k then me1\<lparr>voting_cfg_change_log_idx := - 1\<rparr> else me1)
       idx (k - 1) = Some (0, me')"
    using Suc.prems(1)[unfolded raft_delete_entry_loop.simps[of c me]] k l(1)
    by (auto simp: Let_def split: if_splits elim!: bind_SomeE)
  let ?me2 = "if voting_cfg_change_log_idx me1 = k then me1\<lparr>voting_cfg_change_log_idx := - 1\<rparr> else me1"
  have f: "log_st ?me2 = l" "commit_idx ?me2 = commit_idx me"
    using raft_handle_remove_cfg_change_frame[OF me1(1)] by auto
  have len: "length (ents l) = nat (k - 1 - ?b)" using l \<open>e = 0\<close> Suc.prems(4) by simp
  have "linv (log_st me') \<and> base_of (log_st me') = base_of (log_st ?me2) \<and> commit_idx me' = commit_idx ?me2 \<and>
      ents (log_st me') = take (nat (idx - 1 - base_of (log_st ?me2))) (ents (log_st ?me2))"
  proof (rule Suc.hyps(1)[OF _ me1(2)])
    show "j = nat (k - 1 + 1 - idx)" using Suc.hyps(2) by linarith
    show "k - 1 = base_of (log_st ?me2) + int (length (ents (log_st ?me2)))"
      unfolding f(1) using len l(3) k Suc.prems(3) by simp
  qed (use f l k Suc.prems in auto)
  moreover have "nat (idx - 1 - ?b) \<le> nat (k - 1 - ?b)" using k by simp
  ultimately show ?case using f l \<open>e = 0\<close> by (simp add: min_def)
qed

lemma raft_delete_entry_from_idx_log:
  assumes "raft_delete_entry_from_idx c me idx = Some (0, me')" "linv (log_st me)" "base_of (log_st me) < idx"
    and "idx \<le> base_of (log_st me) + int (length (ents (log_st me)))"
  shows "linv (log_st me') \<and> base_of (log_st me') = base_of (log_st me) \<and> commit_idx me' = commit_idx me \<and>
   ents (log_st me') = take (nat (idx - 1 - base_of (log_st me))) (ents (log_st me))"
  using assms raft_delete_entry_loop_log[of me idx _ me'] first_idx[OF assms(2)] current_idx[OF assms(2)] count[OF assms(2)]
  by (auto simp: raft_delete_entry_from_idx_def Let_def split: if_splits)

text \<open>
  The entries of a request against the log: \<open>pre\<close> are those that the log already had, with the
  same terms, and \<open>rest\<close> those that are new; if there are new ones, the log ends before them.
\<close>

lemma raft_recv_ae_match_log:
  "raft_recv_ae_match c me idx (idx - 1) es = Some (0, cur, rest, me') \<Longrightarrow> linv (log_st me) \<Longrightarrow>
   base_of (log_st me) < idx \<Longrightarrow> idx \<le> base_of (log_st me) + int (length (ents (log_st me))) + 1 \<Longrightarrow>
   \<exists>pre n. es = pre @ rest \<and> cur = idx - 1 + int (length pre) \<and> linv (log_st me') \<and>
     base_of (log_st me') = base_of (log_st me) \<and> commit_idx me' = commit_idx me \<and>
     ents (log_st me') = take n (ents (log_st me)) \<and> nat (idx - 1 - base_of (log_st me)) + length pre \<le> n \<and>
     nat (idx - 1 - base_of (log_st me)) + length pre \<le> length (ents (log_st me)) \<and>
     map ety_term pre = map ety_term (take (length pre) (drop (nat (idx - 1 - base_of (log_st me))) (ents (log_st me)))) \<and>
     (rest \<noteq> [] \<longrightarrow> length (ents (log_st me')) = nat (idx - 1 - base_of (log_st me)) + length pre)"
proof (induction es arbitrary: idx)
  case Nil
  then show ?case by (intro exI[of _ "[]"] exI[of _ "length (ents (log_st me))"]) auto
next
  case (Cons ety es)
  let ?b = "base_of (log_st me)" and ?es = "ents (log_st me)"
  let ?d = "nat (idx - 1 - ?b)"
  have g: "raft_get_entry_from_idx c me idx = Some (ent_at ?b ?es idx)"
    using get[OF Cons.prems(2)] by (simp add: raft_get_entry_from_idx_def)
  show ?case
  proof (cases "ent_at ?b ?es idx")
    case None
    then have "idx = ?b + int (length ?es) + 1" using Cons.prems(3,4) by (auto simp: ent_at_def split: if_splits)
    with None g Cons.prems show ?thesis by (intro exI[of _ "[]"] exI[of _ "length ?es"]) auto
  next
    case (Some x)
    then have d: "?d < length ?es" "?es ! ?d = x"
      using Cons.prems(3) by (auto simp: ent_at_def split: if_splits simp: algebra_simps)
    show ?thesis
    proof (cases "ety_term ety = ety_term x")
      case True
      have idx': "nat (idx + 1 - 1 - ?b) = Suc ?d" using Cons.prems(3) by linarith
      have run: "raft_recv_ae_match c me (idx + 1) (idx + 1 - 1) es = Some (0, cur, rest, me')"
        using Cons.prems(1) g Some True by simp
      have le: "idx + 1 \<le> ?b + int (length ?es) + 1" using d(1) by linarith
      obtain pre n where pre: "es = pre @ rest" "cur = idx + int (length pre)" "linv (log_st me')"
        "base_of (log_st me') = ?b" "commit_idx me' = commit_idx me" "ents (log_st me') = take n ?es"
        "Suc ?d + length pre \<le> n" "Suc ?d + length pre \<le> length ?es"
        "map ety_term pre = map ety_term (take (length pre) (drop (Suc ?d) ?es))"
        "rest \<noteq> [] \<longrightarrow> length (ents (log_st me')) = Suc ?d + length pre"
        using Cons.IH[OF run Cons.prems(2), unfolded idx'] le Cons.prems(3) by auto
      have "take (Suc (length pre)) (drop ?d ?es) = x # take (length pre) (drop (Suc ?d) ?es)"
        using d by (metis Cons_nth_drop_Suc take_Suc_Cons)
      with pre True show ?thesis by (intro exI[of _ "ety # pre"] exI[of _ n]) auto
    next
      case False
      then have "raft_delete_entry_from_idx c me idx = Some (0, me')" "cur = idx - 1" "rest = ety # es"
        using Cons.prems(1) g Some by (auto split: if_splits elim!: bind_SomeE)
      with raft_delete_entry_from_idx_log[of me idx me'] Cons.prems d(1) show ?thesis
        by (intro exI[of _ "[]"] exI[of _ ?d]) auto
    qed
  qed
qed

lemma raft_recv_ae_store_log:
  assumes "raft_recv_ae_store c me req = Some (0, cur, me')" "linv (log_st me)"
    and "base_of (log_st me) \<le> ae_prev_log_idx req"
    and "ae_prev_log_idx req \<le> base_of (log_st me) + int (length (ents (log_st me)))"
  shows "\<exists>pre rest n. ae_entries req = pre @ rest \<and> linv (log_st me') \<and> base_of (log_st me') = base_of (log_st me) \<and>
    cur = ae_prev_log_idx req + int (length (ae_entries req)) \<and>
    ents (log_st me') = take n (ents (log_st me)) @ rest \<and>
    nat (ae_prev_log_idx req - base_of (log_st me)) + length pre \<le> n \<and>
    nat (ae_prev_log_idx req - base_of (log_st me)) + length pre \<le> length (ents (log_st me)) \<and>
    map ety_term pre = map ety_term (take (length pre) (drop (nat (ae_prev_log_idx req - base_of (log_st me))) (ents (log_st me)))) \<and>
    (rest \<noteq> [] \<longrightarrow> n = nat (ae_prev_log_idx req - base_of (log_st me)) + length pre) \<and>
    commit_idx me' = (if commit_idx me < ae_leader_commit req
       then min (max (raft_get_current_idx c me') 1) (ae_leader_commit req) else commit_idx me)"
proof -
  define me0 where "me0 = (if msg_id me < ae_msg_id req then me\<lparr>msg_id := ae_msg_id req\<rparr> else me)"
  have me0: "log_st me0 = log_st me" "commit_idx me0 = commit_idx me" by (simp_all add: me0_def)
  let ?p = "ae_prev_log_idx req"
  obtain cur1 rest me1 me2 me3 e3 where
    m: "raft_recv_ae_match c me0 (?p + 1) (?p + 1 - 1) (ae_entries req) = Some (0, cur1, rest, me1)"
    and a: "raft_recv_ae_append c me1 (?p + 1 + (int (length (ae_entries req)) - int (length rest))) cur1 rest = Some (0, cur, me2)"
    and sy: "(if ae_entries req \<noteq> [] then do { (e, l) \<leftarrow> li_sync (impl c) (log_st me2); Some (e, me2\<lparr>log_st := l\<rparr>) }
       else Some (0, me2)) = Some (0, me3)"
    and cm: "(if commit_idx me3 < ae_leader_commit req then
       raft_set_commit_idx c me3 (min (max (raft_get_current_idx c me3) 1) (ae_leader_commit req)) else Some me3) = Some me'"
    using assms(1) unfolding raft_recv_ae_store_def me0_def[symmetric] Let_def
    by (auto split: if_splits elim!: bind_SomeE simp del: raft_recv_ae_match.simps raft_recv_ae_append.simps)
  from raft_recv_ae_match_log[OF m] me0 assms(2-4) obtain pre n where
    pre: "ae_entries req = pre @ rest" "cur1 = ?p + int (length pre)" "linv (log_st me1)"
      "base_of (log_st me1) = base_of (log_st me)" "commit_idx me1 = commit_idx me"
      "ents (log_st me1) = take n (ents (log_st me))" "nat (?p - base_of (log_st me)) + length pre \<le> n"
      "nat (?p - base_of (log_st me)) + length pre \<le> length (ents (log_st me))"
      "map ety_term pre = map ety_term (take (length pre) (drop (nat (?p - base_of (log_st me))) (ents (log_st me))))"
      "rest \<noteq> [] \<longrightarrow> length (ents (log_st me1)) = nat (?p - base_of (log_st me)) + length pre"
    by auto
  define n' where "n' = (if rest = [] then n else nat (?p - base_of (log_st me)) + length pre)"
  have n': "take n' (ents (log_st me)) = take n (ents (log_st me))"
    using pre(6,7,10) by (auto simp: n'_def min_def split: if_splits)
  note app = raft_recv_ae_append_log[OF a pre(3)]
  have s3: "linv (log_st me3)" "base_of (log_st me3) = base_of (log_st me)" "ents (log_st me3) = ents (log_st me2)"
      "commit_idx me3 = commit_idx me"
    using sy sync[of "log_st me2"] app pre(4,5) by (auto split: if_splits elim!: bind_SomeE)
  have "log_st me' = log_st me3" "commit_idx me' = (if commit_idx me < ae_leader_commit req
       then min (max (raft_get_current_idx c me3) 1) (ae_leader_commit req) else commit_idx me)"
    using cm s3(4) by (auto simp: raft_set_commit_idx_def split: if_splits)
  then show ?thesis
    using s3 app pre n'
    by (intro exI[of _ pre] exI[of _ rest] exI[of _ n']) (auto simp: n'_def raft_get_current_idx_def)
qed

end

lemma raft_recv_ae_prev_ok:
  "raft_recv_ae_prev c me req = Some (e, True, me') \<Longrightarrow> me' = me \<and>
   (ae_prev_log_idx req = snapshot_last_idx me \<and> ae_prev_log_term req = snapshot_last_term me \<or>
    (\<exists>x. raft_get_entry_from_idx c me (ae_prev_log_idx req) = Some (Some x) \<and> ety_term x = ae_prev_log_term req))"
  by (auto simp: raft_recv_ae_prev_def split: if_splits option.splits elim!: bind_SomeE)

lemma update_leader_msg_id_frame:
  "update_leader_msg_id i m me = Some me' \<Longrightarrow>
   log_st me' = log_st me \<and> commit_idx me' = commit_idx me \<and> current_term me' = current_term me"
  by (auto simp: update_leader_msg_id_def upd_node_def split: option.splits)

lemma raft_set_current_term_exact:
  "raft_set_current_term c me t = (0, me') \<Longrightarrow> current_term me' = max (current_term me) t \<and>
   snapshot_last_term me' = snapshot_last_term me"
  by (auto simp: raft_set_current_term_def call_persist_metadata_def split: option.splits if_splits prod.splits)

lemma raft_recv_appendentries_accepted:
  assumes "raft_recv_appendentries c me req = Some (0, resp, me')" "aer_success resp"
  shows "\<exists>me1 me2. raft_recv_ae_store c me1 req = Some (0, aer_current_idx resp, me2) \<and>
    log_st me1 = log_st me \<and> commit_idx me1 = commit_idx me \<and> log_st me' = log_st me2 \<and> commit_idx me' = commit_idx me2 \<and>
    current_term me1 = ae_term req \<and>
    (ae_prev_log_idx req = snapshot_last_idx me \<and> ae_prev_log_term req = snapshot_last_term me \<or>
     (\<exists>x. raft_get_entry_from_idx c me (ae_prev_log_idx req) = Some (Some x) \<and> ety_term x = ae_prev_log_term req))"
proof -
  define me0 where "me0 = (if ae_entries req \<noteq> [] then count_stat appendentries_req_with_entry_update
      (count_stat appendentries_req_received_update me) else count_stat appendentries_req_received_update me)"
  have me0: "log_st me0 = log_st me" "commit_idx me0 = commit_idx me" "snapshot_last_idx me0 = snapshot_last_idx me"
      "snapshot_last_term me0 = snapshot_last_term me" "current_term me0 = current_term me"
    by (simp_all add: me0_def count_stat_def)
  obtain cur me2 where b: "raft_recv_appendentries_body c me0 req = Some (0, Some cur, me2)"
    and u: "update_leader_msg_id (ae_leader_id req) (ae_msg_id req) me2 = Some me'" and cur: "aer_current_idx resp = cur"
    using assms unfolding raft_recv_appendentries_def Let_def me0_def[symmetric]
    by (auto elim!: bind_SomeE)
  obtain mt ma mp e where t: "\<not> ae_term req < current_term me0"
    "(if ae_term req > current_term me0 then raft_set_current_term c me0 (ae_term req) else (0, me0)) = (0, mt)"
    and a: "raft_accept_leader c mt (ae_leader_id req) = Some ma"
    and p: "raft_recv_ae_prev c ma req = Some (e, True, mp)"
    and st: "raft_recv_ae_store c mp req = Some (0, cur, me2)"
    using b unfolding raft_recv_appendentries_body_def
    by (auto simp: Let_def split: if_splits prod.splits elim!: bind_SomeE)
  have mt: "log_st mt = log_st me" "commit_idx mt = commit_idx me" "snapshot_last_idx mt = snapshot_last_idx me"
      "snapshot_last_term mt = snapshot_last_term me" "current_term mt = ae_term req"
    using t me0 raft_set_current_term_frame[of c me0 "ae_term req" 0 mt] raft_set_current_term_exact[of c me0 "ae_term req" mt]
    by (auto split: if_splits)
  note ma = raft_accept_leader_frame[OF a, unfolded kept_def]
  from raft_recv_ae_prev_ok[OF p] ma mt have "ae_prev_log_idx req = snapshot_last_idx me \<and> ae_prev_log_term req = snapshot_last_term me \<or>
     (\<exists>x. raft_get_entry_from_idx c me (ae_prev_log_idx req) = Some (Some x) \<and> ety_term x = ae_prev_log_term req)"
    by (auto simp: raft_get_entry_from_idx_def)
  then show ?thesis
    using st raft_recv_ae_prev_ok[OF p] ma mt cur update_leader_msg_id_frame[OF u] by (intro exI[of _ ma] exI[of _ me2]) auto
qed


lemma stored_entries_view:
  assumes "b \<le> p" "d = nat (p - b)" "d + length pre \<le> n" "d + length pre \<le> length L"
    and terms: "map ety_term pre = map ety_term (take (length pre) (drop d L))"
    and "rest \<noteq> [] \<longrightarrow> n = d + length pre"
  shows "k < length (pre @ rest) \<Longrightarrow> \<exists>x. ent_at b (take n L @ rest) (p + 1 + int k) = Some x \<and>
      ety_term x = ety_term ((pre @ rest) ! k) \<and> (x = (pre @ rest) ! k \<or> ent_at b L (p + 1 + int k) = Some x)"
    and "i \<le> p \<Longrightarrow> ent_at b (take n L @ rest) i = ent_at b L i"
proof -
  have at: "nat (p + 1 + int k - b - 1) = d + k" using assms(1,2) by linarith
  assume k: "k < length (pre @ rest)"
  show "\<exists>x. ent_at b (take n L @ rest) (p + 1 + int k) = Some x \<and>
      ety_term x = ety_term ((pre @ rest) ! k) \<and> (x = (pre @ rest) ! k \<or> ent_at b L (p + 1 + int k) = Some x)"
  proof (cases "k < length pre")
    case True
    then have "ety_term (pre ! k) = ety_term (L ! (d + k))"
      using arg_cong[OF terms, of "\<lambda>xs. xs ! k"] assms(4) by simp
    moreover have "ent_at b L (p + 1 + int k) = Some (L ! (d + k))"
      using assms(1,2,4) True at by (auto simp: ent_at_def)
    moreover have "ent_at b (take n L @ rest) (p + 1 + int k) = Some (L ! (d + k))"
      using assms(1-4) True at by (auto simp: ent_at_def nth_append)
    ultimately show ?thesis using True by (simp add: nth_append)
  next
    case False
    then have n: "n = d + length pre" using k assms(6) by auto
    have "ent_at b (take n L @ rest) (p + 1 + int k) = Some (rest ! (k - length pre))"
      using assms(1,2,4) False k at n by (auto simp: ent_at_def nth_append)
    then show ?thesis using False by (simp add: nth_append)
  qed
next
  assume "i \<le> p"
  with assms(1-4) show "ent_at b (take n L @ rest) i = ent_at b L i"
    by (auto simp: ent_at_def nth_append)
qed

text \<open>
  C21. Log matching on the follower. If a request is answered with success and no error, then the log
  had the entry before the new ones (or its snapshot ends there) with the term that the request
  names; the answered index is that of the last entry of the request; at every index of the request
  the log now holds an entry of the same term as the request's, and it is the request's entry or the
  one that was there before; the entries up to the previous index are untouched; the server is in
  the term of the request; and the commit index only moves to the leader's, as far as the log goes.
\<close>

theorem append_entries_success:
  assumes ok: "srv_ok log_inv lbase log_ents me" and base: "lbase (log_st me) \<le> snapshot_last_idx me"
    and run: "raft_recv_appendentries (internal_ctx calloc c) me req = Some (0, resp, me')" and "aer_success resp"
  shows "(ae_prev_log_idx req = snapshot_last_idx me \<and> ae_prev_log_term req = snapshot_last_term me \<or>
      (\<exists>x. log_get (log_st me) (ae_prev_log_idx req) = Some (Some x) \<and> ety_term x = ae_prev_log_term req)) \<and>
    aer_current_idx resp = ae_prev_log_idx req + int (length (ae_entries req)) \<and>
    (\<forall>k < length (ae_entries req). \<exists>x. log_get (log_st me') (ae_prev_log_idx req + 1 + int k) = Some (Some x) \<and>
       ety_term x = ety_term (ae_entries req ! k) \<and>
       (x = ae_entries req ! k \<or> log_get (log_st me) (ae_prev_log_idx req + 1 + int k) = Some (Some x))) \<and>
    (\<forall>i \<le> ae_prev_log_idx req. log_get (log_st me') i = log_get (log_st me) i) \<and>
    commit_idx me' = (if commit_idx me < ae_leader_commit req
      then min (max (log_current_idx (log_st me')) 1) (ae_leader_commit req) else commit_idx me)"
proof -
  let ?b = "lbase (log_st me)" and ?es = "log_ents (log_st me)" and ?p = "ae_prev_log_idx req"
  let ?c = "internal_ctx calloc c"
  have im: "impl ?c = raft_log_internal_impl calloc" by (simp add: internal_ctx_def)
  obtain me1 me2 where st: "raft_recv_ae_store ?c me1 req = Some (0, aer_current_idx resp, me2)"
    and fr: "log_st me1 = log_st me" "commit_idx me1 = commit_idx me" "log_st me' = log_st me2" "commit_idx me' = commit_idx me2"
    and prev: "?p = snapshot_last_idx me \<and> ae_prev_log_term req = snapshot_last_term me \<or>
      (\<exists>x. raft_get_entry_from_idx ?c me ?p = Some (Some x) \<and> ety_term x = ae_prev_log_term req)"
    using raft_recv_appendentries_accepted[OF run assms(4)] by blast
  have inv: "log_inv (log_st me)" and snap: "snapshot_last_idx me \<le> ?b + int (length ?es)"
    using ok unfolding srv_ok_def by linarith+
  note get = internal_log.get[where l = "log_st me" and c = calloc, simplified, OF inv]
  have prev': "?p = snapshot_last_idx me \<and> ae_prev_log_term req = snapshot_last_term me \<or>
      (\<exists>x. log_get (log_st me) ?p = Some (Some x) \<and> ety_term x = ae_prev_log_term req)"
    using prev by (simp add: raft_get_entry_from_idx_def im)
  have range: "?b \<le> ?p" "?p \<le> ?b + int (length ?es)"
    using prev' base snap get[of ?p] by (auto simp: ent_at_def simp del: length_log_ents split: if_splits)
  obtain pre rest n where s: "ae_entries req = pre @ rest" "log_inv (log_st me')" "lbase (log_st me') = ?b"
    "aer_current_idx resp = ?p + int (length (ae_entries req))" "log_ents (log_st me') = take n ?es @ rest"
    and v: "nat (?p - ?b) + length pre \<le> n" "nat (?p - ?b) + length pre \<le> length ?es"
    "map ety_term pre = map ety_term (take (length pre) (drop (nat (?p - ?b)) ?es))"
    "rest \<noteq> [] \<longrightarrow> n = nat (?p - ?b) + length pre"
    and cm: "commit_idx me2 = (if commit_idx me < ae_leader_commit req
       then min (max (raft_get_current_idx ?c me2) 1) (ae_leader_commit req) else commit_idx me)"
    using internal_raft.raft_recv_ae_store_log[OF st, unfolded fr(1,2), OF inv range] unfolding fr(3) by blast
  note get' = internal_log.get[where l = "log_st me'" and c = calloc, simplified, OF s(2), unfolded s(3,5)]
  note view = stored_entries_view[OF range(1) refl v]
  have "commit_idx me' = (if commit_idx me < ae_leader_commit req
      then min (max (log_current_idx (log_st me')) 1) (ae_leader_commit req) else commit_idx me)"
    using cm fr by (simp add: raft_get_current_idx_def im)
  then show ?thesis
    using prev' s(4) view unfolding get get' s(1) option.inject by blast
qed

text \<open>
  C23. Old leaders. A request whose term is older than the server's is answered without success, with
  the server's term, so that its sender steps down; neither the log, the term, the vote, the commit
  index nor the role changes.
\<close>

theorem stale_leader_rejected:
  assumes "ae_term req < current_term me"
  shows "\<exists>resp me'. raft_recv_appendentries c me req = Some (0, resp, me') \<and> \<not> aer_success resp \<and>
    aer_term resp = current_term me \<and> aer_msg_id resp = ae_msg_id req \<and> log_st me' = log_st me \<and> commit_idx me' = commit_idx me \<and>
    current_term me' = current_term me \<and> voted_for me' = voted_for me \<and> state me' = state me \<and> leader_id me' = leader_id me"
  using assms
  by (auto simp: raft_recv_appendentries_def raft_recv_appendentries_body_def update_leader_msg_id_def upd_node_def
      count_stat_def Let_def split: option.splits)

section \<open>Flushing leaves the log alone\<close>

named_theorems log_frame \<open>calls that do not change the log\<close>

lemma log_count_stat [simp]: "log_st (count_stat f me) = log_st me"
  by (simp add: count_stat_def)

lemma log_upd_node [log_frame]: "upd_node i f me = Some me' \<Longrightarrow> log_st me' = log_st me"
  by (auto dest: upd_node_frame)

lemma log_send_snapshot_loop: "raft_send_snapshot_loop c f me i = Some r \<Longrightarrow> log_st (snd r) = log_st me"
proof (induction rule: raft_send_snapshot_loop.raw_induct[rotated, consumes 1, case_names loop])
  case (loop rec c f me i r)
  from loop.hyps show ?case
    by (auto simp: Let_def elim!: do_elims dest!: loop.IH log_upd_node)
qed

lemma log_send_snapshot [log_frame]: "raft_send_snapshot c me i = Some (e, me') \<Longrightarrow> log_st me' = log_st me"
  by (auto simp: raft_send_snapshot_def split: option.splits dest: log_send_snapshot_loop)

lemma log_get_entries [log_frame]: "raft_get_entries c me n i = Some (es, me') \<Longrightarrow> log_st me' = log_st me"
  by (auto simp: raft_get_entries_def Let_def elim!: do_elims)

lemma log_backpressure [log_frame]: "call_backpressure c me n = (r, me') \<Longrightarrow> log_st me' = log_st me"
  by (auto simp: call_backpressure_def split: option.splits prod.splits)

lemma log_send_appendentries_loop: "raft_send_appendentries_loop c f me i = Some r \<Longrightarrow> log_st (snd r) = log_st me"
proof (induction rule: raft_send_appendentries_loop.raw_induct[rotated, consumes 1, case_names loop])
  case (loop rec c f me i r)
  from loop.hyps show ?case
    by (auto simp: Let_def elim!: do_elims dest!: loop.IH log_frame)
qed

lemma log_send_appendentries [log_frame]: "raft_send_appendentries c me i = Some (e, me') \<Longrightarrow> log_st me' = log_st me"
  by (auto simp: raft_send_appendentries_def elim!: do_elims dest!: log_send_appendentries_loop log_frame)

lemma log_time_millis [log_frame]: "raft_time_millis c me = (t, me') \<Longrightarrow> log_st me' = log_st me"
  by (auto dest: raft_time_millis_frame)

lemma log_remove_node [log_frame]: "raft_remove_node c me n = Some me' \<Longrightarrow> log_st me' = log_st me"
  by (auto simp: raft_remove_node_def call_notify_membership_def Let_def split: option.splits elim!: do_elims)

lemma log_apply_cfg_change [log_frame]:
  "raft_handle_apply_cfg_change c me ety i = Some me' \<Longrightarrow> log_st me' = log_st me"
  by (auto simp: raft_handle_apply_cfg_change_def Let_def elim!: do_elims dest!: log_frame)

lemma log_apply_entry [log_frame]: "raft_apply_entry c me = Some (e, me') \<Longrightarrow> log_st me' = log_st me"
  by (auto simp: raft_apply_entry_def Let_def split: if_splits elim!: do_elims dest!: log_frame)

lemma log_apply_all_loop: "raft_apply_all_loop c me = Some r \<Longrightarrow> log_st (snd r) = log_st me"
proof (induction rule: raft_apply_all_loop.raw_induct[rotated, consumes 1, case_names loop])
  case (loop rec c me r)
  from loop.hyps show ?case
    by (auto simp: Let_def raft_set_pending_def elim!: do_elims dest!: loop.IH log_frame)
qed

lemma log_pop_read_queue [log_frame]: "pop_read_queue c me b = Some me' \<Longrightarrow> log_st me' = log_st me"
  by (auto simp: pop_read_queue_def split: list.splits)

lemma log_drop_reads [log_frame]: "raft_drop_reads c me = Some me' \<Longrightarrow> log_st me' = log_st me"
proof (induction rule: raft_drop_reads.raw_induct[rotated, consumes 1, case_names loop])
  case (loop rec c me me')
  from loop.hyps show ?case by (auto elim!: do_elims dest!: loop.IH log_frame)
qed

lemma log_serve_reads [log_frame]: "raft_serve_reads c k me = Some me' \<Longrightarrow> log_st me' = log_st me"
proof (induction rule: raft_serve_reads.raw_induct[rotated, consumes 1, case_names loop])
  case (loop rec c k me me')
  from loop.hyps show ?case by (auto simp: raft_set_pending_def elim!: do_elims dest!: loop.IH log_frame)
qed

lemma log_exec_operations [log_frame]: "raft_exec_operations c me = Some (e, me') \<Longrightarrow> log_st me' = log_st me"
  by (auto simp: raft_exec_operations_def raft_apply_all_def raft_process_read_queue_def raft_unset_pending_def Let_def
      elim!: do_elims dest!: log_apply_all_loop log_frame)

lemma log_update_commit_idx [log_frame]: "raft_update_commit_idx c me = Some me' \<Longrightarrow> log_st me' = log_st me"
  by (auto simp: raft_update_commit_idx_def raft_set_commit_idx_def Let_def elim!: do_elims)

lemma log_flush [log_frame]:
  assumes "raft_flush c me i = Some (e, me')"
  shows "log_st me' = log_st me"
proof -
  have loop: "log_st y = log_st x"
    if "for_nodes (\<lambda>me i. if my_node me = Some i then Some me
               else do {
                 n \<leftarrow> raft_get_node me i;
                 if next_msgid n > t \<and> next_idx n > raft_get_current_idx c me then Some me
                 else do { (_, me) \<leftarrow> raft_send_appendentries c me i; Some me }
               }) ns x = Some y" for x y ns t
    by (rule for_nodes_inv[OF that, of "\<lambda>z. log_st z = log_st x"])
      (auto split: if_splits elim!: do_elims dest!: log_send_appendentries)
  from assms show ?thesis
    unfolding raft_flush_def Let_def by (auto elim!: do_elims dest!: loop log_frame)
qed

section \<open>Client requests\<close>

lemma raft_recv_entry_appended:
  assumes "raft_recv_entry c me ety = Some (e, Some r, me')"
  shows "\<exists>me1. raft_is_leader me \<and> raft_append_entry c me (ety\<lparr>ety_term := current_term me\<rparr>) = Some (0, me1) \<and>
    r = \<lparr>er_id = ety_id ety, er_term = current_term me1, er_idx = raft_get_current_idx c me1\<rparr> \<and>
    (me' = me1 \<or> (\<exists>e. li_sync (impl c) (log_st me1) = Some (e, log_st me')))"
proof -
  define K where "K = (\<lambda>(e1, me1). if e1 \<noteq> 0 then Some (e1, None, me1)
        else do {
          let r = Some \<lparr>er_id = ety_id (ety\<lparr>ety_term := current_term me\<rparr>), er_term = current_term me1, er_idx = raft_get_current_idx c me1\<rparr>;
          if auto_flush me1 then
            do {
              (e, l) \<leftarrow> li_sync (impl c) (log_st me1);
              let me = me1\<lparr>log_st := l\<rparr>;
              if e \<noteq> 0 then Some (e, r, me)
              else do {
                (e, me) \<leftarrow> raft_flush c me (raft_get_current_idx c me);
                Some (e, r, me)
              }
            }
          else Some (0, r, me1)
        })"
  have lead: "raft_is_leader me"
    and "Option.bind (raft_append_entry c me (ety\<lparr>ety_term := current_term me\<rparr>)) K = Some (e, Some r, me')"
    using assms unfolding raft_recv_entry_def K_def Let_def by (simp_all split: if_split_asm)
  then obtain e1 me1 where app: "raft_append_entry c me (ety\<lparr>ety_term := current_term me\<rparr>) = Some (e1, me1)"
    and run: "K (e1, me1) = Some (e, Some r, me')"
    by (auto elim!: bind_SomeE)
  note run = run[unfolded K_def prod.case, simplified]
  have "e1 = 0" using run by (cases "e1 = 0") auto
  show ?thesis
  proof (cases "auto_flush me1")
    case False
    with run \<open>e1 = 0\<close> lead app show ?thesis by (auto simp: Let_def)
  next
    case True
    with run \<open>e1 = 0\<close> obtain e2 l where l: "li_sync (impl c) (log_st me1) = Some (e2, l)" "log_st me' = l"
      and "r = \<lparr>er_id = ety_id ety, er_term = current_term me1, er_idx = raft_get_current_idx c me1\<rparr>"
      by (auto simp: Let_def split: if_splits elim!: bind_SomeE dest!: log_flush)
    with lead app \<open>e1 = 0\<close> show ?thesis by blast
  qed
qed

text \<open>
  C22. Storing a client's entry. When the handler of a client request fills in its response, the
  server was the leader, the response names the entry's identifier, the server's term and the index
  behind the old end of the log, and the log has grown by exactly that entry, stamped with the
  server's term, whether or not the changes were flushed and whatever the flush returned.
\<close>

theorem client_entry_stored:
  assumes "log_inv (log_st me)"
    and run: "raft_recv_entry (internal_ctx calloc c) me ety = Some (e, Some r, me')"
  shows "raft_is_leader me \<and> er_id r = ety_id ety \<and> er_term r = current_term me \<and>
    er_idx r = log_current_idx (log_st me) + 1 \<and> log_current_idx (log_st me') = er_idx r \<and>
    log_get (log_st me') (er_idx r) = Some (Some (ety\<lparr>ety_term := er_term r\<rparr>)) \<and>
    (\<forall>i < er_idx r. log_get (log_st me') i = log_get (log_st me) i)"
proof -
  let ?c = "internal_ctx calloc c" and ?ety = "ety\<lparr>ety_term := current_term me\<rparr>"
  have im: "impl ?c = raft_log_internal_impl calloc" by (simp add: internal_ctx_def)
  obtain me1 where me1: "raft_append_entry ?c me ?ety = Some (0, me1)" "raft_is_leader me"
    and r: "r = \<lparr>er_id = ety_id ety, er_term = current_term me1, er_idx = raft_get_current_idx ?c me1\<rparr>"
    and fl: "me' = me1 \<or> (\<exists>e. li_sync (impl ?c) (log_st me1) = Some (e, log_st me'))"
    using raft_recv_entry_appended[OF run] by blast
  have st: "log_inv (log_st me1)" "lbase (log_st me1) = lbase (log_st me)" "log_ents (log_st me1) = log_ents (log_st me) @ [?ety]"
      "current_term me1 = current_term me"
    using internal_raft.raft_append_entry_log[OF me1(1) assms(1)] by auto
  have fin: "log_inv (log_st me')" "lbase (log_st me') = lbase (log_st me)" "log_ents (log_st me') = log_ents (log_st me) @ [?ety]"
    using fl st internal_log.sync[where l = "log_st me1" and c = calloc, OF st(1)] im by auto
  have "ent_at (lbase (log_st me)) (log_ents (log_st me) @ [?ety]) i = (if i = lbase (log_st me) + int (length (log_ents (log_st me))) + 1 then Some ?ety
      else ent_at (lbase (log_st me)) (log_ents (log_st me)) i)" for i
    by (auto simp: ent_at_def nth_append nat_less_iff simp del: length_log_ents)
  moreover have "log_current_idx x = lbase x + int (length (log_ents x))" if "log_inv x" for x :: "'a raft_log"
    using internal_log.current_idx[where l = x and c = calloc, OF that] by simp
  moreover have "log_get x i = Some (ent_at (lbase x) (log_ents x) i)" if "log_inv x" for x :: "'a raft_log" and i
    using internal_log.get[where l = x and c = calloc, OF that] by simp
  ultimately show ?thesis using me1(2) r st fin assms(1)
    by (simp add: raft_get_current_idx_def im del: length_log_ents)
qed


text \<open>
  C25. Compacted entries are no longer confirmed. For the response to an entry that has been compacted
  into a snapshot, and hence was committed, \<open>raft_msg_entry_response_committed\<close> answers 0, which is
  the answer for an entry that is not committed yet.
\<close>

theorem compacted_entry_unconfirmed:
  assumes "srv_ok log_inv lbase log_ents me" "er_idx r \<le> lbase (log_st me)"
  shows "er_idx r \<le> commit_idx me \<and> raft_msg_entry_response_committed (internal_ctx calloc c) me r = Some 0"
  using assms internal_log.get[where l = "log_st me" and i = "er_idx r" and c = calloc]
  by (auto simp: srv_ok_def raft_msg_entry_response_committed_def raft_get_entry_from_idx_def internal_ctx_def ent_at_def)

text \<open>
  C26. A commit index without entries. The handler takes the larger of the last index and 1 as the end
  of the log. For a follower whose log is empty, a heartbeat of a leader that has committed entries
  makes it set the commit index to 1, and the assertion that the commit index is within the log
  fails.
\<close>

theorem heartbeat_on_empty_log_aborts:
  assumes "log_inv (log_st me)" "log_current_idx (log_st me) = 0" "commit_idx me = 0" "snapshot_last_idx me = 0"
    and "snapshot_last_term me = ae_prev_log_term req" "current_term me = ae_term req" "raft_is_follower me"
    and "leader_id me = ae_leader_id req" "ae_prev_log_idx req = 0" "ae_entries req = []" "0 < ae_leader_commit req"
  shows "raft_recv_appendentries (internal_ctx calloc c) me req = None"
proof -
  have idx: "raft_get_current_idx (internal_ctx calloc c) m = log_current_idx (log_st m)" for m :: "('a raft_log, 'b) raft_server"
    by (simp add: raft_get_current_idx_def internal_ctx_def)
  define me0 where "me0 = count_stat appendentries_req_received_update me"
  define me1 where "me1 = raft_reset_transfer_leader (internal_ctx calloc c) (me0\<lparr>timeout_elapsed := 0, leader_id := ae_leader_id req\<rparr>) False"
  have "raft_is_follower me0" "leader_id me0 = ae_leader_id req" "current_term me0 = ae_term req"
    using assms by (simp_all add: me0_def count_stat_def)
  then have acc: "raft_accept_leader (internal_ctx calloc c) me0 (ae_leader_id req) = Some me1"
    by (simp add: raft_accept_leader_def me1_def)
  have "kept me0 me1"
    using kept_reset[of "me0\<lparr>timeout_elapsed := 0, leader_id := ae_leader_id req\<rparr>" "internal_ctx calloc c" False]
    by (simp add: me1_def kept_def)
  then have me1: "log_st me1 = log_st me" "commit_idx me1 = 0" "snapshot_last_idx me1 = 0" "snapshot_last_term me1 = ae_prev_log_term req"
    using assms by (simp_all add: kept_def me0_def count_stat_def)
  have prev: "raft_recv_ae_prev (internal_ctx calloc c) me1 req = Some (0, True, me1)"
    using me1 assms by (simp add: raft_recv_ae_prev_def)
  have "raft_recv_ae_store (internal_ctx calloc c) me1 req = None"
    using me1 assms by (simp add: raft_recv_ae_store_def raft_set_commit_idx_def idx Let_def)
  then have "raft_recv_appendentries_body (internal_ctx calloc c) me0 req = None"
    using acc prev \<open>current_term me0 = ae_term req\<close> by (simp add: raft_recv_appendentries_body_def)
  then show ?thesis using assms by (simp add: raft_recv_appendentries_def me0_def Let_def)
qed

section \<open>Witnesses\<close>

definition ex_append_req :: raft_appendentries_req where
  "ex_append_req = \<lparr>ae_leader_id = 2, ae_msg_id = 1, ae_term = 1, ae_prev_log_idx = 0, ae_prev_log_term = 0,
     ae_leader_commit = 1, ae_entries = [ex_entry 1 8, ex_entry 1 9]\<rparr>"

definition ex_appended :: "int \<times> raft_appendentries_resp \<times> (ex_log, ex_env) raft_server" where
  "ex_appended = the (raft_recv_appendentries ex_ctx ex_fresh ex_append_req)"

lemma ex_fresh_ok: "srv_ok log_inv lbase log_ents ex_fresh"
  using raft_new_ok[OF ex_fresh_new] by blast

lemma ex_fresh_log: "log_inv (log_st ex_fresh)"
  using ex_fresh_ok by (simp add: srv_ok_def)

theorem append_entries_success_witness:
  "aer_current_idx (fst (snd ex_appended)) = 2 \<and> commit_idx (snd (snd ex_appended)) = 1 \<and>
   (\<exists>x. log_get (log_st (snd (snd ex_appended))) 2 = Some (Some x) \<and> ety_term x = 1)"
proof -
  have "fst ex_appended = 0" by code_simp
  then have run: "raft_recv_appendentries ex_ctx ex_fresh ex_append_req = Some (0, fst (snd ex_appended), snd (snd ex_appended))"
    unfolding ex_appended_def by (subst run3) (code_simp, simp)
  have vals: "lbase (log_st ex_fresh) \<le> snapshot_last_idx ex_fresh" "aer_success (fst (snd ex_appended))"
    "commit_idx ex_fresh < 1" "log_current_idx (log_st (snd (snd ex_appended))) = 2" by code_simp+
  note s = append_entries_success[OF ex_fresh_ok vals(1), where calloc = "\<lambda>_. True" and c = ex_ctx, unfolded ex_ctx_internal, OF run vals(2)]
  then have "\<exists>x. log_get (log_st (snd (snd ex_appended))) (0 + 1 + int 1) = Some (Some x) \<and> ety_term x = ety_term ([ex_entry 1 8, ex_entry 1 9] ! 1)"
    by (auto simp: ex_append_req_def)
  with s vals show ?thesis by (simp add: ex_append_req_def ex_entry_def)
qed

theorem stale_leader_rejected_witness:
  "\<exists>resp me'. raft_recv_appendentries ex_ctx ex_voted (ex_append_req\<lparr>ae_term := 4\<rparr>) = Some (0, resp, me') \<and>
     \<not> aer_success resp \<and> aer_term resp = 5"
proof -
  have "current_term ex_voted = 5" by code_simp
  with stale_leader_rejected[of "ex_append_req\<lparr>ae_term := 4\<rparr>" ex_voted ex_ctx] show ?thesis by auto
qed

theorem client_entry_stored_witness:
  "\<exists>r. fst (snd (the (raft_recv_entry ex_ctx ex_leader (ex_entry 0 9)))) = Some r \<and> er_idx r = 2 \<and>
     log_get (log_st ex_leader2) 2 = Some (Some (ex_entry 1 9))"
proof -
  have "\<not> Option.is_none (raft_recv_entry ex_ctx ex_leader (ex_entry 0 9))"
    "\<not> Option.is_none (fst (snd (the (raft_recv_entry ex_ctx ex_leader (ex_entry 0 9)))))" by code_simp+
  then obtain r where run: "raft_recv_entry ex_ctx ex_leader (ex_entry 0 9) =
      Some (fst (the (raft_recv_entry ex_ctx ex_leader (ex_entry 0 9))), Some r, ex_leader2)"
    unfolding ex_leader2_def by (auto simp: Option.is_none_def)
  have vals: "current_term ex_leader = 1" "log_current_idx (log_st ex_leader) = 1" by code_simp+
  have "log_inv (log_st ex_leader)" using ex_leader_ok by (simp add: srv_ok_def)
  from client_entry_stored[OF this, where calloc = "\<lambda>_. True" and c = ex_ctx, unfolded ex_ctx_internal, OF run] vals
    arg_cong[OF run, of "\<lambda>m. fst (snd (the m))"]
  show ?thesis by (auto simp: ex_entry_def)
qed

definition ex_resp :: raft_entry_resp where
  "ex_resp = \<lparr>er_id = 7, er_term = 1, er_idx = 1\<rparr>"


definition ex_compacted :: "(ex_log, ex_env) raft_server" where
  "ex_compacted = snd (the (raft_end_snapshot ex_ctx (snd (the (raft_begin_snapshot ex_ctx ex_leader2)))))"

lemma ex_compacted_ok: "srv_ok log_inv lbase log_ents ex_compacted"
proof -
  have "raft_api ex_ctx ex_leader2 (snd (the (raft_begin_snapshot ex_ctx ex_leader2)))"
    by (rule api_op, rule op_begin_snapshot, rule run2) code_simp
  moreover have "raft_api ex_ctx (snd (the (raft_begin_snapshot ex_ctx ex_leader2))) ex_compacted"
    unfolding ex_compacted_def by (rule api_op, rule op_end_snapshot, rule run2) code_simp
  ultimately have "(raft_api ex_ctx)\<^sup>*\<^sup>* ex_leader ex_compacted"
    using ex_leader2_api by (meson r_into_rtranclp rtranclp.rtrancl_into_rtrancl)
  from internal_raft.srv_steps_ok[of "\<lambda>_. True" ex_ctx, unfolded ex_ctx_internal, OF raft_api_star_steps[OF this ex_loads] ex_leader_ok]
  show ?thesis by blast
qed

theorem compacted_entry_unconfirmed_witness:
  "commit_idx ex_compacted = 2 \<and> raft_msg_entry_response_committed ex_ctx ex_compacted ex_resp = Some 0"
proof -
  have vals: "er_idx ex_resp \<le> lbase (log_st ex_compacted)" "commit_idx ex_compacted = 2" by code_simp+
  from compacted_entry_unconfirmed[OF ex_compacted_ok vals(1), of "\<lambda>_. True" ex_ctx] vals(2)
  show ?thesis by simp
qed

theorem heartbeat_on_empty_log_aborts_witness:
  "raft_recv_appendentries ex_ctx (ex_fresh\<lparr>leader_id := 2\<rparr>) (ex_append_req\<lparr>ae_term := 0, ae_entries := []\<rparr>) = None"
proof -
  have vals: "log_current_idx (log_st ex_fresh) = 0" "commit_idx ex_fresh = 0" "snapshot_last_idx ex_fresh = 0"
    "snapshot_last_term ex_fresh = 0" "current_term ex_fresh = 0" "raft_is_follower ex_fresh" by code_simp+
  show ?thesis
    by (rule heartbeat_on_empty_log_aborts[where calloc = "\<lambda>_. True" and c = ex_ctx, unfolded ex_ctx_internal])
      (use vals ex_fresh_log in \<open>simp_all add: ex_append_req_def\<close>)
qed

end
