(* ===== verification/Ddb_Lock.thy ===== *)
theory Ddb_Lock
  imports Main
begin

text \<open>
  The reader-writer spin lock of the thread tracker, \<open>libddb/include/ddb/lock.h\<close>. Each atomic
  access to the counter is one step of a thread; the threads interleave in any way.

  \<^item> A thread is at one of the points \<open>rw_pc\<close>: outside the lock, before the load or before the
    compare-and-exchange of the three acquiring functions (with the loaded value), or inside.
  \<^item> The strong exchange fails only when the counter differs; the weak one may fail at any time.
  \<^item> The counter is an unbounded integer: fewer than \<open>INT_MAX\<close> threads hold the lock.
\<close>

section \<open>The lock\<close>

datatype rw_pc =
  Outside
| Get_rlock_load | Get_rlock_cas int
| Try_rlock_load | Try_rlock_cas int
| Get_wlock_cas
| Reading
| Writing

record 't ddb_rwlock =
  counter :: int
  pc :: "'t \<Rightarrow> rw_pc"

definition goto :: "'t \<Rightarrow> rw_pc \<Rightarrow> 't ddb_rwlock \<Rightarrow> 't ddb_rwlock" where
  "goto t p s = s\<lparr>pc := (pc s)(t := p)\<rparr>"

inductive rw_step :: "'t ddb_rwlock \<Rightarrow> 't ddb_rwlock \<Rightarrow> bool" where
  call_get_rlock: "pc s t = Outside \<Longrightarrow> rw_step s (goto t Get_rlock_load s)"
| get_rlock_spin: "pc s t = Get_rlock_load \<Longrightarrow> counter s < 0 \<Longrightarrow> rw_step s s"
| get_rlock_load: "pc s t = Get_rlock_load \<Longrightarrow> \<not> counter s < 0 \<Longrightarrow> rw_step s (goto t (Get_rlock_cas (counter s)) s)"
| get_rlock_done: "pc s t = Get_rlock_cas n \<Longrightarrow> counter s = n \<Longrightarrow> rw_step s (goto t Reading (s\<lparr>counter := n + 1\<rparr>))"
| get_rlock_retry: "pc s t = Get_rlock_cas n \<Longrightarrow> rw_step s (goto t Get_rlock_load s)"
| call_try_get_rlock: "pc s t = Outside \<Longrightarrow> rw_step s (goto t Try_rlock_load s)"
| try_rlock_busy: "pc s t = Try_rlock_load \<Longrightarrow> counter s < 0 \<Longrightarrow> rw_step s (goto t Outside s)"
| try_rlock_load: "pc s t = Try_rlock_load \<Longrightarrow> \<not> counter s < 0 \<Longrightarrow> rw_step s (goto t (Try_rlock_cas (counter s)) s)"
| try_rlock_done: "pc s t = Try_rlock_cas n \<Longrightarrow> counter s = n \<Longrightarrow> rw_step s (goto t Reading (s\<lparr>counter := n + 1\<rparr>))"
| try_rlock_fail: "pc s t = Try_rlock_cas n \<Longrightarrow> counter s \<noteq> n \<Longrightarrow> rw_step s (goto t Outside s)"
| rel_rlock: "pc s t = Reading \<Longrightarrow> rw_step s (goto t Outside (s\<lparr>counter := counter s - 1\<rparr>))"
| call_get_wlock: "pc s t = Outside \<Longrightarrow> rw_step s (goto t Get_wlock_cas s)"
| get_wlock_spin: "pc s t = Get_wlock_cas \<Longrightarrow> counter s \<noteq> 0 \<Longrightarrow> rw_step s s"
| get_wlock_done: "pc s t = Get_wlock_cas \<Longrightarrow> counter s = 0 \<Longrightarrow> rw_step s (goto t Writing (s\<lparr>counter := - 1\<rparr>))"
| rel_wlock: "pc s t = Writing \<Longrightarrow> rw_step s (goto t Outside (s\<lparr>counter := 0\<rparr>))"

text \<open>A lock that has been zeroed out, with no thread in it.\<close>

definition rw_init :: "'t ddb_rwlock" where
  "rw_init = \<lparr>counter = 0, pc = (\<lambda>_. Outside)\<rparr>"

section \<open>Exclusion\<close>

definition readers :: "'t ddb_rwlock \<Rightarrow> 't set" where
  "readers s = {t. pc s t = Reading}"

definition writers :: "'t ddb_rwlock \<Rightarrow> 't set" where
  "writers s = {t. pc s t = Writing}"

definition rw_inv :: "'t ddb_rwlock \<Rightarrow> bool" where
  "rw_inv s \<longleftrightarrow> finite (readers s) \<and> (\<forall>t n. pc s t = Get_rlock_cas n \<or> pc s t = Try_rlock_cas n \<longrightarrow> 0 \<le> n) \<and>
     (counter s = - 1 \<and> readers s = {} \<and> (\<exists>t. writers s = {t}) \<or>
      counter s = int (card (readers s)) \<and> writers s = {})"

lemma readers_goto [simp]:
  "readers (goto t p s) = (if p = Reading then insert t (readers s) else readers s - {t})"
  by (auto simp: readers_def goto_def)

lemma writers_goto [simp]:
  "writers (goto t p s) = (if p = Writing then insert t (writers s) else writers s - {t})"
  by (auto simp: writers_def goto_def)

lemma holders_counter [simp]:
  "readers (s\<lparr>counter := n\<rparr>) = readers s" "writers (s\<lparr>counter := n\<rparr>) = writers s"
  "counter (goto t p s) = counter s"
  by (simp_all add: readers_def writers_def goto_def)

lemma mem_holders: "t \<in> readers s \<longleftrightarrow> pc s t = Reading" "t \<in> writers s \<longleftrightarrow> pc s t = Writing"
  by (simp_all add: readers_def writers_def)

lemma not_holder: "pc s t \<noteq> Reading \<Longrightarrow> readers s - {t} = readers s" "pc s t \<noteq> Writing \<Longrightarrow> writers s - {t} = writers s"
  by (auto simp: mem_holders)

lemma pc_goto [simp]: "pc (goto t p s) u = (if u = t then p else pc s u)"
  by (simp add: goto_def)

lemma rw_inv_parts:
  assumes "rw_inv s"
  shows "finite (readers s)" "pc s t = Get_rlock_cas n \<Longrightarrow> 0 \<le> n" "pc s t = Try_rlock_cas n \<Longrightarrow> 0 \<le> n"
    "0 \<le> counter s \<Longrightarrow> counter s = int (card (readers s)) \<and> writers s = {}"
    "pc s t = Reading \<Longrightarrow> counter s = int (card (readers s)) \<and> writers s = {} \<and> 0 < card (readers s)"
    "pc s t = Writing \<Longrightarrow> readers s = {} \<and> writers s = {t}"
  using assms by (auto simp: rw_inv_def mem_holders[symmetric] card_gt_0_iff)

lemma rw_inv_goto:
  assumes "rw_inv s" and "pc s t \<noteq> Reading" "pc s t \<noteq> Writing" and "p \<noteq> Reading" "p \<noteq> Writing"
    and "\<And>n. p = Get_rlock_cas n \<or> p = Try_rlock_cas n \<Longrightarrow> 0 \<le> n"
  shows "rw_inv (goto t p s)"
  using assms by (auto simp: rw_inv_def not_holder)

lemma rw_inv_read:
  assumes "rw_inv s" and "pc s t \<noteq> Reading" and "0 \<le> counter s"
  shows "rw_inv (goto t Reading (s\<lparr>counter := counter s + 1\<rparr>))"
proof -
  have "writers s - {t} = {}" "t \<notin> readers s" using assms rw_inv_parts[OF assms(1)] by (auto simp: mem_holders)
  then show ?thesis using assms rw_inv_parts[OF assms(1)] by (simp add: rw_inv_def)
qed

lemma rw_step_inv: "rw_step s s' \<Longrightarrow> rw_inv s \<Longrightarrow> rw_inv s'"
proof (induction rule: rw_step.induct)
  case (get_rlock_done s t n)
  then show ?case using rw_inv_read[of s t] rw_inv_parts(2)[of s t n] by simp
next
  case (try_rlock_done s t n)
  then show ?case using rw_inv_read[of s t] rw_inv_parts(3)[of s t n] by simp
next
  case (rel_rlock s t)
  have "t \<in> readers s" using rel_rlock by (simp add: mem_holders)
  then show ?case using rw_inv_parts[OF rel_rlock(2)] rel_rlock by (simp add: rw_inv_def of_nat_diff Suc_le_eq)
next
  case (rel_wlock s t)
  then show ?case using rw_inv_parts[OF rel_wlock(2)] by (simp add: rw_inv_def)
next
  case (get_wlock_done s t)
  then show ?case using rw_inv_parts(4)[OF get_wlock_done(3)] rw_inv_parts[OF get_wlock_done(3)] by (simp add: rw_inv_def)
qed (auto intro!: rw_inv_goto)

lemma rw_reach_inv: "rw_step\<^sup>*\<^sup>* rw_init s \<Longrightarrow> rw_inv s"
proof (induction rule: rtranclp_induct)
  case base
  show ?case by (simp add: rw_inv_def rw_init_def readers_def writers_def)
qed (rule rw_step_inv)

text \<open>
  C27. Exclusion. In every interleaving of any number of threads that acquire and release the lock
  in both modes, a thread that holds it for writing is the only one that holds it, and otherwise
  the counter is the number of threads that hold it for reading.
\<close>

theorem rwlock_exclusion:
  assumes "rw_step\<^sup>*\<^sup>* rw_init s"
  shows "(pc s t = Writing \<longrightarrow> (\<forall>u. u \<noteq> t \<longrightarrow> pc s u \<noteq> Writing \<and> pc s u \<noteq> Reading) \<and> pc s t \<noteq> Reading \<and> counter s = - 1) \<and>
    ((\<forall>u. pc s u \<noteq> Writing) \<longrightarrow> finite {u. pc s u = Reading} \<and> counter s = int (card {u. pc s u = Reading}))"
proof (intro conjI impI allI)
  note inv = rw_reach_inv[OF assms]
  show "pc s u \<noteq> Writing" "pc s u \<noteq> Reading" if "pc s t = Writing" "u \<noteq> t" for u
    using rw_inv_parts(6)[OF inv that(1)] that(2) mem_holders[of u s] by auto
  show "pc s t \<noteq> Reading" if "pc s t = Writing" using that by simp
  show "counter s = - 1" if "pc s t = Writing"
    using rw_inv_parts(6)[OF inv that] inv by (auto simp: rw_inv_def)
  show "finite {u. pc s u = Reading}" using rw_inv_parts(1)[OF inv] by (simp add: readers_def)
  show "counter s = int (card {u. pc s u = Reading})" if "\<forall>u. pc s u \<noteq> Writing"
    using that inv mem_holders(2)[of _ s] by (auto simp: rw_inv_def readers_def[symmetric])
qed

theorem rwlock_exclusion_witness:
  "\<exists>s. rw_step\<^sup>*\<^sup>* rw_init s \<and> pc s (1 :: nat) = Writing \<and> pc s 2 = Get_rlock_load \<and> counter s = - 1"
proof -
  let ?s1 = "goto 1 Get_wlock_cas rw_init :: nat ddb_rwlock"
  let ?s2 = "goto 2 Get_rlock_load ?s1"
  let ?s3 = "goto 1 Writing (?s2\<lparr>counter := - 1\<rparr>)"
  have "rw_step rw_init ?s1" by (rule call_get_wlock) (simp add: rw_init_def)
  moreover have "rw_step ?s1 ?s2" by (rule call_get_rlock) (simp add: rw_init_def goto_def)
  moreover have "rw_step ?s2 ?s3" by (rule get_wlock_done) (simp_all add: rw_init_def goto_def)
  ultimately have run: "rw_step\<^sup>*\<^sup>* rw_init ?s3" by (meson rtranclp.rtrancl_into_rtrancl rtranclp.rtrancl_refl)
  have "pc ?s3 1 = Writing" "pc ?s3 2 = Get_rlock_load" by (simp_all add: goto_def)
  with run rwlock_exclusion[OF run, of 1] show ?thesis by blast
qed

end
