(* ===== verification/Ddb_Shim.thy ===== *)
theory Ddb_Shim
  imports Prelude
begin

text \<open>
  The thread and lock tracker that is preloaded into every debugged process, \<open>libddb\<close>
  (\<open>shim.c\<close>, \<open>hook.c\<close>, \<open>common.h\<close>): a shared segment with a table of threads, a table of lock
  owners and, for each thread, a buffer of the locks it waits for, and the interposed
  \<open>pthread_*\<close> functions that keep them up to date.

  \<^item> Pointers to mutexes, stacks and thread control blocks are 64-bit words. A wait buffer belongs to
    one thread record and is a value of it, \<open>None\<close> for NULL.
  \<^item> The arrays have the length they are allocated with; an access outside is \<open>None\<close>, as is a
    dereference of NULL. An array that \<open>malloc\<close> did not return is empty.
  \<^item> Each critical section under a lock of the tracker is one function; the real \<open>pthread\<close>
    functions are arguments. \<open>dlfail\<close> says that looking the real function up fails.
\<close>

section \<open>Types\<close>

abbreviation LDB_MAX_NTHREAD :: nat where "LDB_MAX_NTHREAD \<equiv> 128"
abbreviation DDB_MAX_NLOCK :: nat where "DDB_MAX_NLOCK \<equiv> 2048"
abbreviation DDB_MAX_NWAIT :: nat where "DDB_MAX_NWAIT \<equiv> 128"

datatype ddb_wait_type = WAIT_NONE | DDB_WAIT_MUTEX | DDB_WAIT_THREAD | DDB_WAIT_JOIN

record ddb_wait_entry =
  w_valid :: bool
  w_type :: ddb_wait_type
  w_identifier :: "64 word"

record ddb_wait_buffer =
  w_n :: int
  w_max_n :: int
  wait_entries :: "ddb_wait_entry list"

record ddb_thread_info =
  t_valid :: bool
  t_id :: int
  fsbase :: "64 word"
  stackbase :: "64 word"
  wbuf :: "ddb_wait_buffer option"

record ddb_lowner_entry =
  o_valid :: bool
  lid :: "64 word"
  owner_tid :: int

record ddb_lowner =
  o_n :: int
  o_max_n :: int
  lowner_entries :: "ddb_lowner_entry list"

record ddb_shmseg =
  ddb_thread_infos :: "ddb_thread_info list"
  ddb_lowners :: ddb_lowner
  ddb_nthread :: int
  ddb_max_idx :: int

text \<open>The entries after \<open>memset\<close> to zero.\<close>

definition zero_wait :: ddb_wait_entry where
  "zero_wait = \<lparr>w_valid = False, w_type = WAIT_NONE, w_identifier = 0\<rparr>"

definition zero_owner :: ddb_lowner_entry where
  "zero_owner = \<lparr>o_valid = False, lid = 0, owner_tid = 0\<rparr>"

definition zero_thread :: ddb_thread_info where
  "zero_thread = \<lparr>t_valid = False, t_id = 0, fsbase = 0, stackbase = 0, wbuf = None\<rparr>"

section \<open>Slots\<close>

text \<open>
  The three tables hand out slots in the same way. \<open>free_slot\<close> is their scan for a slot that is
  not in use, \<open>slot_get\<close> the whole function on the two counters and the array (the slot and the new
  counters), \<open>slot_put\<close> the release of a slot (the new counters and array).
\<close>

function free_slot :: "('e \<Rightarrow> bool) \<Rightarrow> 'e list \<Rightarrow> int \<Rightarrow> int \<Rightarrow> int option option" where
  "free_slot used es max_n i =
     (if i < max_n then do {
        e \<leftarrow> arr_get es i;
        if \<not> used e then Some (Some i) else free_slot used es max_n (i + 1)
      } else Some None)"
  by pat_completeness auto
termination by (relation "measure (\<lambda>(used, es, max_n, i). nat (max_n - i))") auto

declare free_slot.simps [simp del]

definition slot_get :: "('e \<Rightarrow> bool) \<Rightarrow> int \<Rightarrow> int \<Rightarrow> 'e list \<Rightarrow> (int \<times> int \<times> int) option" where
  "slot_get used n max_n es = do {
     r \<leftarrow> (if n \<noteq> max_n then free_slot used es max_n 0 else Some None);
     (case r of
        Some i \<Rightarrow> Some (i, n + 1, max_n)
      | None \<Rightarrow> Some (max_n, n + 1, max_n + 1))
   }"

definition slot_put :: "'e \<Rightarrow> int \<Rightarrow> int \<Rightarrow> int \<Rightarrow> 'e list \<Rightarrow> (int \<times> int \<times> 'e list) option" where
  "slot_put z idx n max_n es = do {
     es \<leftarrow> arr_set es idx z;
     Some (n - 1, if idx = max_n - 1 then max_n - 1 else max_n, es)
   }"

definition get_lowner_idx :: "ddb_lowner \<Rightarrow> (int \<times> ddb_lowner) option" where
  "get_lowner_idx lo = do {
     (i, n, m) \<leftarrow> slot_get o_valid (o_n lo) (o_max_n lo) (lowner_entries lo);
     Some (i, lo\<lparr>o_n := n, o_max_n := m\<rparr>)
   }"

definition put_lowner_idx :: "ddb_lowner \<Rightarrow> int \<Rightarrow> ddb_lowner option" where
  "put_lowner_idx lo idx = do {
     (n, m, es) \<leftarrow> slot_put zero_owner idx (o_n lo) (o_max_n lo) (lowner_entries lo);
     Some (lo\<lparr>o_n := n, o_max_n := m, lowner_entries := es\<rparr>)
   }"

definition get_wait_idx :: "ddb_wait_buffer \<Rightarrow> (int \<times> ddb_wait_buffer) option" where
  "get_wait_idx wb = do {
     (i, n, m) \<leftarrow> slot_get w_valid (w_n wb) (w_max_n wb) (wait_entries wb);
     Some (i, wb\<lparr>w_n := n, w_max_n := m\<rparr>)
   }"

definition put_wait_idx :: "ddb_wait_buffer \<Rightarrow> int \<Rightarrow> ddb_wait_buffer option" where
  "put_wait_idx wb idx = do {
     (n, m, es) \<leftarrow> slot_put zero_wait idx (w_n wb) (w_max_n wb) (wait_entries wb);
     Some (wb\<lparr>w_n := n, w_max_n := m, wait_entries := es\<rparr>)
   }"

definition in_table :: "ddb_thread_info \<Rightarrow> bool" where
  "in_table ti \<longleftrightarrow> fsbase ti \<noteq> 0"

definition get_tidx :: "ddb_shmseg \<Rightarrow> (int \<times> ddb_shmseg) option" where
  "get_tidx sh = do {
     (i, n, m) \<leftarrow> slot_get in_table (ddb_nthread sh) (ddb_max_idx sh) (ddb_thread_infos sh);
     Some (i, sh\<lparr>ddb_nthread := n, ddb_max_idx := m\<rparr>)
   }"

definition put_tidx :: "ddb_shmseg \<Rightarrow> int \<Rightarrow> ddb_shmseg option" where
  "put_tidx sh tidx = do {
     (n, m, es) \<leftarrow> slot_put zero_thread tidx (ddb_nthread sh) (ddb_max_idx sh) (ddb_thread_infos sh);
     Some (sh\<lparr>ddb_nthread := n, ddb_max_idx := m, ddb_thread_infos := es\<rparr>)
   }"

section \<open>Start and end\<close>

text \<open>
  \<open>raw\<close> is the memory \<open>malloc\<close> returned for the wait entries of the thread, \<open>tid\<close>, \<open>fs\<close> and \<open>rbp\<close>
  are the identifier, the segment base and the frame of the thread that runs the function.
\<close>

definition ddbInit :: "ddb_wait_entry list \<Rightarrow> int \<Rightarrow> 64 word \<Rightarrow> 64 word \<Rightarrow> ddb_shmseg" where
  "ddbInit raw tid fs rbp =
     \<lparr>ddb_thread_infos = (replicate LDB_MAX_NTHREAD zero_thread)[0 :=
        \<lparr>t_valid = True, t_id = tid, fsbase = fs, stackbase = rbp,
         wbuf = Some \<lparr>w_n = 0, w_max_n = 0, wait_entries = raw\<rparr>\<rparr>],
      ddb_lowners = \<lparr>o_n = 0, o_max_n = 0, lowner_entries = replicate DDB_MAX_NLOCK zero_owner\<rparr>,
      ddb_nthread = 1, ddb_max_idx = 1\<rparr>"

definition thread_start_tracking ::
  "ddb_shmseg \<Rightarrow> ddb_wait_entry list \<Rightarrow> int \<Rightarrow> 64 word \<Rightarrow> 64 word \<Rightarrow> (int \<times> ddb_shmseg) option" where
  "thread_start_tracking sh raw tid fs rbp = do {
     (tidx, sh) \<leftarrow> get_tidx sh;
     infos \<leftarrow> arr_set (ddb_thread_infos sh) tidx
       \<lparr>t_valid = True, t_id = tid, fsbase = fs, stackbase = rbp,
        wbuf = Some \<lparr>w_n = 0, w_max_n = 0, wait_entries = raw\<rparr>\<rparr>;
     Some (tidx, sh\<lparr>ddb_thread_infos := infos\<rparr>)
   }"

definition thread_stop_tracking :: "ddb_shmseg \<Rightarrow> int \<Rightarrow> ddb_shmseg option" where
  "thread_stop_tracking sh tidx = do {
     ti \<leftarrow> arr_get (ddb_thread_infos sh) tidx;
     infos \<leftarrow> arr_set (ddb_thread_infos sh) tidx (ti\<lparr>t_valid := False\<rparr>);
     put_tidx (sh\<lparr>ddb_thread_infos := infos\<rparr>) tidx
   }"

section \<open>Mutexes\<close>

text \<open>
  \<open>lock_enter\<close>, \<open>lock_leave\<close> and \<open>unlock_leave\<close> are the blocks of the two functions before and after
  the call of the real one.
\<close>

definition lock_enter :: "ddb_shmseg \<Rightarrow> int \<Rightarrow> 64 word \<Rightarrow> (int \<times> int \<times> ddb_shmseg) option" where
  "lock_enter sh tidx mutex = do {
     ti \<leftarrow> arr_get (ddb_thread_infos sh) tidx;
     wb \<leftarrow> wbuf ti;
     (widx, wb) \<leftarrow> get_wait_idx wb;
     es \<leftarrow> arr_set (wait_entries wb) widx
       \<lparr>w_valid = True, w_type = DDB_WAIT_MUTEX, w_identifier = mutex\<rparr>;
     infos \<leftarrow> arr_set (ddb_thread_infos sh) tidx (ti\<lparr>wbuf := Some (wb\<lparr>wait_entries := es\<rparr>)\<rparr>);
     Some (t_id ti, widx, sh\<lparr>ddb_thread_infos := infos\<rparr>)
   }"

definition unset_wait :: "ddb_shmseg \<Rightarrow> int \<Rightarrow> int \<Rightarrow> ddb_shmseg option" where
  "unset_wait sh tidx widx = do {
     ti \<leftarrow> arr_get (ddb_thread_infos sh) tidx;
     wb \<leftarrow> wbuf ti;
     e \<leftarrow> arr_get (wait_entries wb) widx;
     es \<leftarrow> arr_set (wait_entries wb) widx (e\<lparr>w_valid := False\<rparr>);
     wb \<leftarrow> put_wait_idx (wb\<lparr>wait_entries := es\<rparr>) widx;
     infos \<leftarrow> arr_set (ddb_thread_infos sh) tidx (ti\<lparr>wbuf := Some wb\<rparr>);
     Some (sh\<lparr>ddb_thread_infos := infos\<rparr>)
   }"

definition register_owner :: "ddb_lowner \<Rightarrow> 64 word \<Rightarrow> int \<Rightarrow> ddb_lowner option" where
  "register_owner lo mutex tid = do {
     (lidx, lo) \<leftarrow> get_lowner_idx lo;
     es \<leftarrow> arr_set (lowner_entries lo) lidx \<lparr>o_valid = True, lid = mutex, owner_tid = tid\<rparr>;
     Some (lo\<lparr>lowner_entries := es\<rparr>)
   }"

definition lock_leave :: "ddb_shmseg \<Rightarrow> int \<Rightarrow> 64 word \<Rightarrow> int \<Rightarrow> int \<Rightarrow> ddb_shmseg option" where
  "lock_leave sh tidx mutex tid widx =
     (if tid \<noteq> - 1 then do {
        sh \<leftarrow> unset_wait sh tidx widx;
        lo \<leftarrow> register_owner (ddb_lowners sh) mutex tid;
        Some (sh\<lparr>ddb_lowners := lo\<rparr>)
      } else Some sh)"

function unregister_owner :: "ddb_lowner \<Rightarrow> 64 word \<Rightarrow> int \<Rightarrow> ddb_lowner option" where
  "unregister_owner lo mutex i =
     (if i < o_max_n lo then do {
        e \<leftarrow> arr_get (lowner_entries lo) i;
        if o_valid e \<and> lid e = mutex then do {
          es \<leftarrow> arr_set (lowner_entries lo) i \<lparr>o_valid = False, lid = 0, owner_tid = - 1\<rparr>;
          put_lowner_idx (lo\<lparr>lowner_entries := es\<rparr>) i
        } else unregister_owner lo mutex (i + 1)
      } else Some lo)"
  by pat_completeness auto
termination by (relation "measure (\<lambda>(lo, mutex, i). nat (o_max_n lo - i))") auto

declare unregister_owner.simps [simp del]

definition unlock_leave :: "ddb_shmseg \<Rightarrow> 64 word \<Rightarrow> ddb_shmseg option" where
  "unlock_leave sh mutex = do {
     lo \<leftarrow> unregister_owner (ddb_lowners sh) mutex 0;
     Some (sh\<lparr>ddb_lowners := lo\<rparr>)
   }"

text \<open>The whole functions. The shared segment is \<open>None\<close> before \<open>ddbInit\<close> has run.\<close>

definition pthread_mutex_lock ::
  "bool \<Rightarrow> ('s \<Rightarrow> 64 word \<Rightarrow> (int \<times> 's) option) \<Rightarrow> int \<Rightarrow> 64 word \<Rightarrow> ddb_shmseg option \<times> 's \<Rightarrow>
     (int \<times> ddb_shmseg option \<times> 's) option" where
  "pthread_mutex_lock dlfail real_pthread_mutex_lock tidx mutex = (\<lambda>(shared, s).
     if dlfail then Some (- 1, shared, s)
     else (case shared of
        None \<Rightarrow> do {
          (ret, s) \<leftarrow> real_pthread_mutex_lock s mutex;
          Some (ret, None, s)
        }
      | Some sh \<Rightarrow> do {
          (tid, widx, sh) \<leftarrow> lock_enter sh tidx mutex;
          (ret, s) \<leftarrow> real_pthread_mutex_lock s mutex;
          sh \<leftarrow> lock_leave sh tidx mutex tid widx;
          Some (ret, Some sh, s)
        }))"

definition pthread_mutex_unlock ::
  "bool \<Rightarrow> ('s \<Rightarrow> 64 word \<Rightarrow> (int \<times> 's) option) \<Rightarrow> 64 word \<Rightarrow> ddb_shmseg option \<times> 's \<Rightarrow>
     (int \<times> ddb_shmseg option \<times> 's) option" where
  "pthread_mutex_unlock dlfail real_pthread_mutex_unlock mutex = (\<lambda>(shared, s).
     if dlfail then Some (- 1, shared, s)
     else do {
       (ret, s) \<leftarrow> real_pthread_mutex_unlock s mutex;
       (case shared of
          None \<Rightarrow> Some (ret, None, s)
        | Some sh \<Rightarrow> do {
            sh \<leftarrow> unlock_leave sh mutex;
            Some (ret, Some sh, s)
          })
     })"

text \<open>\<open>pthread_mutex_trylock\<close> and \<open>pthread_cond_wait\<close> pass the call on.\<close>

definition pthread_mutex_trylock ::
  "bool \<Rightarrow> ('s \<Rightarrow> 64 word \<Rightarrow> (int \<times> 's) option) \<Rightarrow> 64 word \<Rightarrow> ddb_shmseg option \<times> 's \<Rightarrow>
     (int \<times> ddb_shmseg option \<times> 's) option" where
  "pthread_mutex_trylock dlfail real_pthread_mutex_trylock mutex = (\<lambda>(shared, s).
     if dlfail then Some (- 1, shared, s)
     else do {
       (ret, s) \<leftarrow> real_pthread_mutex_trylock s mutex;
       Some (ret, shared, s)
     })"

section \<open>The slot discipline\<close>

text \<open>The number of slots in use is the first counter; they lie below the second.\<close>

definition slots_ok :: "('e \<Rightarrow> bool) \<Rightarrow> int \<Rightarrow> int \<Rightarrow> 'e list \<Rightarrow> bool" where
  "slots_ok used n max_n es \<longleftrightarrow>
     0 \<le> max_n \<and> max_n \<le> int (length es) \<and> n = int (length (filter used (take (nat max_n) es)))"

definition in_use :: "('e \<Rightarrow> bool) \<Rightarrow> int \<Rightarrow> 'e list \<Rightarrow> 'e multiset" where
  "in_use used max_n es = filter_mset used (mset (take (nat max_n) es))"

lemma slots_ok_size:
  "slots_ok used n max_n es \<longleftrightarrow>
     0 \<le> max_n \<and> max_n \<le> int (length es) \<and> n = int (size (in_use used max_n es))"
  by (simp add: slots_ok_def in_use_def flip: mset_filter)

lemma in_use_update:
  assumes "i < nat max_n" "max_n \<le> int (length es)"
  shows "in_use used max_n (es[i := e]) =
    filter_mset used (add_mset e (mset (take (nat max_n) es) - {#es ! i#}))"
  using assms by (simp add: in_use_def take_update_swap mset_update)

lemma in_use_fill:
  assumes "i < nat max_n" "max_n \<le> int (length es)" "\<not> used (es ! i)" "used e"
  shows "in_use used max_n (es[i := e]) = add_mset e (in_use used max_n es)"
  using assms by (simp add: in_use_update) (simp add: in_use_def)

lemma in_use_clear:
  assumes "i < nat max_n" "max_n \<le> int (length es)" "used (es ! i)" "\<not> used z"
  shows "in_use used max_n (es[i := z]) = in_use used max_n es - {#es ! i#}"
  using assms by (simp add: in_use_update) (simp add: in_use_def)

lemma in_use_grow:
  assumes "0 \<le> max_n" "max_n < int (length es)"
  shows "in_use used (max_n + 1) es = (if used (es ! nat max_n) then {#es ! nat max_n#} else {#}) + in_use used max_n es"
proof -
  have "nat (max_n + 1) = Suc (nat max_n)" using assms by simp
  then show ?thesis using assms by (simp add: in_use_def take_Suc_conv_app_nth)
qed

lemma in_use_beyond: "nat max_n \<le> i \<Longrightarrow> in_use used max_n (es[i := e]) = in_use used max_n es"
  by (simp add: in_use_def take_update_cancel)

lemma free_slot_Some:
  assumes "free_slot used es max_n i = Some (Some j)" "0 \<le> i"
  shows "i \<le> j \<and> j < max_n \<and> j < int (length es) \<and> \<not> used (es ! nat j)"
  using assms
proof (induction used es max_n i rule: free_slot.induct)
  case (1 used es max_n i)
  show ?case
  proof (cases "used (es ! nat i)")
    case True
    with 1(2) have "free_slot used es max_n (i + 1) = Some (Some j)" "i < max_n" "i < int (length es)"
      by (subst (asm) free_slot.simps; auto simp: arr_get_def split: if_splits)+
    with 1(1)[of "es ! nat i"] 1(3) True show ?thesis by (auto simp: arr_get_def)
  next
    case False
    with 1(2,3) show ?thesis by (subst (asm) free_slot.simps) (auto simp: arr_get_def split: if_splits)
  qed
qed

lemma free_slot_finds:
  assumes "0 \<le> i" "i \<le> j" "j < max_n" "max_n \<le> int (length es)" "\<not> used (es ! nat j)"
  shows "\<exists>k. free_slot used es max_n i = Some (Some k)"
  using assms
proof (induction "nat (j - i)" arbitrary: i)
  case 0
  then show ?case by (subst free_slot.simps) (auto simp: arr_get_def)
next
  case (Suc x)
  then have "i + 1 \<le> j" "x = nat (j - (i + 1))" by auto
  then obtain k where "free_slot used es max_n (i + 1) = Some (Some k)" using Suc.hyps(1)[of "i + 1"] Suc.prems by auto
  then show ?case using Suc.prems by (subst free_slot.simps) (auto simp: arr_get_def)
qed

lemma slots_some_free:
  assumes "slots_ok used n max_n es" "n \<noteq> max_n"
  shows "\<exists>j. 0 \<le> j \<and> j < max_n \<and> \<not> used (es ! nat j)"
proof (rule ccontr)
  assume none: "\<not> ?thesis"
  have "\<forall>x \<in> set (take (nat max_n) es). used x"
  proof
    fix x assume "x \<in> set (take (nat max_n) es)"
    then obtain k where k: "k < length es" "k < nat max_n" "x = es ! k" by (auto simp: in_set_conv_nth)
    then have "int k < max_n" "x = es ! nat (int k)" by (simp_all add: zless_nat_eq_int_zless)
    with none show "used x" by (meson of_nat_0_le_iff)
  qed
  then have "filter used (take (nat max_n) es) = take (nat max_n) es" by (simp add: filter_id_conv)
  then show False using assms by (auto simp: slots_ok_def min_def split: if_splits)
qed

lemma slots_le: "slots_ok used n max_n es \<Longrightarrow> 0 \<le> n \<and> n \<le> max_n"
proof -
  assume ok: "slots_ok used n max_n es"
  have "length (filter used (take (nat max_n) es)) \<le> nat max_n"
    using length_filter_le[of used "take (nat max_n) es"] by simp
  then show ?thesis using ok by (auto simp: slots_ok_def)
qed

text \<open>
  A slot that \<open>slot_get\<close> hands out is free, and once it has been filled the tables account for it;
  it lies in the array as long as the array has a free slot, and right behind it otherwise.
\<close>

lemma slot_get_free:
  assumes ok: "slots_ok used n max_n es" and "n < int (length es)"
  obtains i n' m where "slot_get used n max_n es = Some (i, n', m)" "0 \<le> i" "i < int (length es)" "i < m"
    "max_n \<le> m" "m \<le> int (length es)" "i < max_n \<longrightarrow> \<not> used (es ! nat i)"
    "\<And>j. max_n \<le> j \<Longrightarrow> j < m \<Longrightarrow> j = i"
    "\<And>e. used e \<Longrightarrow> slots_ok used n' m (es[nat i := e])"
    "\<And>e. used e \<Longrightarrow> in_use used m (es[nat i := e]) = add_mset e (in_use used max_n es)"
proof (cases "n = max_n")
  case True
  have "slot_get used n max_n es = Some (max_n, n + 1, max_n + 1)" using True by (simp add: slot_get_def)
  moreover have "in_use used (max_n + 1) (es[nat max_n := e]) = add_mset e (in_use used max_n es)" if "used e" for e
    using that ok assms(2) True by (subst in_use_grow) (auto simp: slots_ok_def in_use_beyond)
  ultimately show ?thesis using that[of max_n "n + 1" "max_n + 1"] ok assms(2) True by (auto simp: slots_ok_size)
next
  case False
  obtain j where j: "0 \<le> j" "j < max_n" "\<not> used (es ! nat j)" using slots_some_free[OF ok False] by blast
  have len: "max_n \<le> int (length es)" using ok by (simp add: slots_ok_def)
  obtain i where i: "free_slot used es max_n 0 = Some (Some i)" using free_slot_finds[of 0 j max_n es used] j len by auto
  note f = free_slot_Some[OF i]
  have "slot_get used n max_n es = Some (i, n + 1, max_n)" using False i by (simp add: slot_get_def)
  moreover have "in_use used max_n (es[nat i := e]) = add_mset e (in_use used max_n es)" if "used e" for e
    using f len that by (intro in_use_fill) auto
  ultimately show ?thesis using that[of i "n + 1" max_n] ok f by (auto simp: slots_ok_size)
qed

lemma slot_get_full:
  assumes "slots_ok used n max_n es" and "n = int (length es)"
  shows "slot_get used n max_n es = Some (int (length es), n + 1, max_n + 1)"
proof -
  have "max_n = n" using slots_le[OF assms(1)] assms by (simp add: slots_ok_def)
  then show ?thesis using assms(2) by (simp add: slot_get_def)
qed

lemma slot_put_ok:
  assumes ok: "slots_ok used n max_n es" and i: "0 \<le> i" "i < max_n" "used (es ! nat i)" and z: "\<not> used z"
  obtains m where "slot_put z i n max_n (es[nat i := x]) = Some (n - 1, m, es[nat i := z])"
    "m \<le> max_n" "slots_ok used (n - 1) m (es[nat i := z])"
    "in_use used m (es[nat i := z]) = in_use used max_n es - {#es ! nat i#}"
    "\<And>j. m \<le> j \<Longrightarrow> j < max_n \<Longrightarrow> j = i"
proof -
  let ?m = "if i = max_n - 1 then max_n - 1 else max_n"
  have len: "max_n \<le> int (length es)" using ok by (simp add: slots_ok_def)
  have clear: "in_use used max_n (es[nat i := z]) = in_use used max_n es - {#es ! nat i#}"
    using i len z by (intro in_use_clear) auto
  have "in_use used max_n (es[nat i := z]) = in_use used ?m (es[nat i := z])"
    using in_use_grow[of "max_n - 1" "es[nat i := z]" used] i len z by auto
  then have use: "in_use used ?m (es[nat i := z]) = in_use used max_n es - {#es ! nat i#}" using clear by simp
  have "es ! nat i \<in># in_use used max_n es"
    using i len by (auto simp: in_use_def in_set_conv_nth intro!: exI[of _ "nat i"])
  then have "int (size (in_use used max_n es - {#es ! nat i#})) = int (size (in_use used max_n es)) - 1"
    by (cases "size (in_use used max_n es)") (auto simp: size_Diff_singleton)
  then have "slots_ok used (n - 1) ?m (es[nat i := z])"
    using use ok i by (auto simp: slots_ok_size)
  then show ?thesis using that[of ?m] use i len by (auto simp: slot_put_def arr_set_def split: if_splits)
qed

section \<open>The owner table\<close>

definition owners_ok :: "ddb_lowner \<Rightarrow> bool" where
  "owners_ok lo \<longleftrightarrow> slots_ok o_valid (o_n lo) (o_max_n lo) (lowner_entries lo)"

text \<open>The pairs of a mutex and a thread identifier that the table shows.\<close>

definition owners :: "ddb_lowner \<Rightarrow> (64 word \<times> int) multiset" where
  "owners lo = image_mset (\<lambda>e. (lid e, owner_tid e)) (in_use o_valid (o_max_n lo) (lowner_entries lo))"

lemma register_owner_ok:
  assumes "owners_ok lo" and "o_n lo < int (length (lowner_entries lo))"
  obtains lo' where "register_owner lo mutex tid = Some lo'" "owners_ok lo'"
    "owners lo' = add_mset (mutex, tid) (owners lo)" "length (lowner_entries lo') = length (lowner_entries lo)"
    "o_n lo' = o_n lo + 1"
proof -
  let ?e = "\<lparr>o_valid = True, lid = mutex, owner_tid = tid\<rparr>"
  obtain i n' m where g: "slot_get o_valid (o_n lo) (o_max_n lo) (lowner_entries lo) = Some (i, n', m)"
      "0 \<le> i" "i < int (length (lowner_entries lo))" "slots_ok o_valid n' m ((lowner_entries lo)[nat i := ?e])"
      "in_use o_valid m ((lowner_entries lo)[nat i := ?e]) = add_mset ?e (in_use o_valid (o_max_n lo) (lowner_entries lo))"
    using slot_get_free[OF assms(1)[unfolded owners_ok_def] assms(2)] by (metis ddb_lowner_entry.select_convs(1))
  have "n' = o_n lo + 1" using g(1) by (auto simp: slot_get_def elim!: do_elims split: option.splits)
  then show ?thesis using g that[of "lo\<lparr>o_n := n', o_max_n := m, lowner_entries := (lowner_entries lo)[nat i := ?e]\<rparr>"]
    by (simp add: register_owner_def get_lowner_idx_def arr_set_def owners_ok_def owners_def)
qed

lemma register_owner_full:
  assumes "owners_ok lo" and "o_n lo = int (length (lowner_entries lo))"
  shows "register_owner lo mutex tid = None"
  using slot_get_full[OF assms(1)[unfolded owners_ok_def] assms(2)]
  by (simp add: register_owner_def get_lowner_idx_def arr_set_def)

lemma owners_ok_le: "owners_ok lo \<Longrightarrow> o_n lo \<le> int (length (lowner_entries lo))"
  using slots_le unfolding owners_ok_def by (fastforce simp: slots_ok_def)

lemma owners_size: "owners_ok lo \<Longrightarrow> o_n lo = int (size (owners lo))"
  by (simp add: owners_ok_def owners_def slots_ok_size)

lemma put_owner_ok:
  assumes "owners_ok lo" and i: "0 \<le> i" "i < o_max_n lo" "o_valid (lowner_entries lo ! nat i)"
  obtains lo' where "put_lowner_idx (lo\<lparr>lowner_entries := (lowner_entries lo)[nat i := x]\<rparr>) i = Some lo'" "owners_ok lo'"
    "owners lo' = owners lo - {#(lid (lowner_entries lo ! nat i), owner_tid (lowner_entries lo ! nat i))#}"
    "length (lowner_entries lo') = length (lowner_entries lo)"
proof -
  let ?es = "lowner_entries lo"
  have z: "\<not> o_valid zero_owner" by (simp add: zero_owner_def)
  obtain m where m: "slot_put zero_owner i (o_n lo) (o_max_n lo) (?es[nat i := x]) = Some (o_n lo - 1, m, ?es[nat i := zero_owner])"
      "slots_ok o_valid (o_n lo - 1) m (?es[nat i := zero_owner])"
      "in_use o_valid m (?es[nat i := zero_owner]) = in_use o_valid (o_max_n lo) ?es - {#?es ! nat i#}"
    using slot_put_ok[OF assms(1)[unfolded owners_ok_def] i z, where x = x] by metis
  have "?es ! nat i \<in># in_use o_valid (o_max_n lo) ?es"
    using i assms(1) by (auto simp: in_use_def in_set_conv_nth owners_ok_def slots_ok_def intro!: exI[of _ "nat i"])
  then show ?thesis
    using m that[of "lo\<lparr>o_n := o_n lo - 1, o_max_n := m, lowner_entries := ?es[nat i := zero_owner]\<rparr>"]
    by (simp add: put_lowner_idx_def owners_ok_def owners_def image_mset_Diff)
qed

text \<open>The scan of the unlock removes one entry of the mutex, the first one, if the table has any.\<close>

lemma unregister_owner_step:
  assumes "owners_ok lo" "0 \<le> i"
  shows "unregister_owner lo mutex i =
    (if i < o_max_n lo then
       (if o_valid (lowner_entries lo ! nat i) \<and> lid (lowner_entries lo ! nat i) = mutex
        then put_lowner_idx (lo\<lparr>lowner_entries := (lowner_entries lo)[nat i := \<lparr>o_valid = False, lid = 0, owner_tid = - 1\<rparr>]\<rparr>) i
        else unregister_owner lo mutex (i + 1))
     else Some lo)"
  using assms by (subst unregister_owner.simps) (auto simp: arr_get_def arr_set_def owners_ok_def slots_ok_def)

lemma unregister_owner_ok:
  assumes "owners_ok lo" "0 \<le> i"
  shows "\<exists>lo'. unregister_owner lo mutex i = Some lo' \<and> owners_ok lo' \<and>
     length (lowner_entries lo') = length (lowner_entries lo) \<and>
     (owners lo' = owners lo \<and> (\<forall>j. i \<le> j \<and> j < o_max_n lo \<longrightarrow> \<not> (o_valid (lowner_entries lo ! nat j) \<and> lid (lowner_entries lo ! nat j) = mutex)) \<or>
      (\<exists>t. (mutex, t) \<in># owners lo \<and> owners lo' = owners lo - {#(mutex, t)#}))"
  using assms
proof (induction "nat (o_max_n lo - i)" arbitrary: i)
  case 0
  then show ?case by (subst unregister_owner_step) auto
next
  case (Suc x)
  let ?e = "lowner_entries lo ! nat i"
  have i: "i < o_max_n lo" "x = nat (o_max_n lo - (i + 1))" using Suc.hyps(2) by auto
  show ?case
  proof (cases "o_valid ?e \<and> lid ?e = mutex")
    case True
    have "?e \<in># in_use o_valid (o_max_n lo) (lowner_entries lo)"
      using i True Suc.prems by (auto simp: in_use_def in_set_conv_nth owners_ok_def slots_ok_def intro!: exI[of _ "nat i"])
    then have mem: "(mutex, owner_tid ?e) \<in># owners lo" using True by (auto simp: owners_def)
    obtain lo' where "put_lowner_idx (lo\<lparr>lowner_entries := (lowner_entries lo)[nat i := \<lparr>o_valid = False, lid = 0, owner_tid = - 1\<rparr>]\<rparr>) i = Some lo'"
        "owners_ok lo'" "owners lo' = owners lo - {#(mutex, owner_tid ?e)#}" "length (lowner_entries lo') = length (lowner_entries lo)"
      using put_owner_ok[of lo i] Suc.prems i True by metis
    then show ?thesis using i True mem Suc.prems by (subst unregister_owner_step) auto
  next
    case False
    have step: "unregister_owner lo mutex i = unregister_owner lo mutex (i + 1)"
      using i False Suc.prems by (subst unregister_owner_step) auto
    have "\<forall>j. i \<le> j \<longleftrightarrow> j = i \<or> i + 1 \<le> j" by auto
    then show ?thesis using Suc.hyps(1)[OF i(2) Suc.prems(1)] Suc.prems False unfolding step by auto
  qed
qed

lemma unregister_removes:
  assumes "owners_ok lo"
  obtains lo' where "unregister_owner lo mutex 0 = Some lo'" "owners_ok lo'"
    "length (lowner_entries lo') = length (lowner_entries lo)"
    "owners lo' = owners lo \<and> (\<forall>t. (mutex, t) \<notin># owners lo) \<or>
     (\<exists>t. (mutex, t) \<in># owners lo \<and> owners lo' = owners lo - {#(mutex, t)#})"
proof -
  have "\<forall>t. (mutex, t) \<notin># owners lo"
    if "\<forall>j. 0 \<le> j \<and> j < o_max_n lo \<longrightarrow> \<not> (o_valid (lowner_entries lo ! nat j) \<and> lid (lowner_entries lo ! nat j) = mutex)"
  proof -
    have "\<not> (o_valid e \<and> lid e = mutex)" if "e \<in> set (take (nat (o_max_n lo)) (lowner_entries lo))" for e
    proof -
      obtain k where "k < nat (o_max_n lo)" "e = lowner_entries lo ! nat (int k)"
        using \<open>e \<in> _\<close> by (auto simp: in_set_conv_nth)
      then show ?thesis using spec[OF \<open>\<forall>j. _ j\<close>, of "int k"] by (simp add: zless_nat_eq_int_zless)
    qed
    then show ?thesis by (auto simp: owners_def in_use_def)
  qed
  then show ?thesis using unregister_owner_ok[OF assms, of 0 mutex] that by auto
qed

section \<open>Interleaved calls\<close>

text \<open>
  A process of several threads, named by their slots in the thread table: what the shared segment
  holds, which thread holds each real mutex, and where each running thread is. \<open>Locking\<close> is
  inside the real lock function, \<open>Locked\<close> and \<open>Unlocking\<close> are right after the real call, before
  the block that follows it; the first two carry the local variables of the function. The real
  mutexes are normal ones: locking waits until the mutex is free, and only its holder unlocks it.
  Threads start and, when they hold no mutex, end.
\<close>

datatype shim_pc =
  App
| Locking "64 word" int int
| Locked "64 word" int int
| Unlocking "64 word"

record process =
  shared :: ddb_shmseg
  holder :: "64 word \<Rightarrow> int option"
  calls :: "int \<Rightarrow> shim_pc option"

inductive shim_step :: "process \<Rightarrow> process \<Rightarrow> bool" where
  thread_starts: "thread_start_tracking (shared p) raw tid fs rbp = Some (t, sh) \<Longrightarrow> fs \<noteq> 0 \<Longrightarrow> tid \<noteq> - 1 \<Longrightarrow>
    length raw = DDB_MAX_NWAIT \<Longrightarrow> shim_step p (p\<lparr>shared := sh, calls := (calls p)(t \<mapsto> App)\<rparr>)"
| thread_ends: "calls p t = Some App \<Longrightarrow> \<forall>m. holder p m \<noteq> Some t \<Longrightarrow> thread_stop_tracking (shared p) t = Some sh \<Longrightarrow>
    shim_step p (p\<lparr>shared := sh, calls := (calls p)(t := None)\<rparr>)"
| lock_called: "calls p t = Some App \<Longrightarrow> lock_enter (shared p) t m = Some (tid, widx, sh) \<Longrightarrow>
    shim_step p (p\<lparr>shared := sh, calls := (calls p)(t \<mapsto> Locking m tid widx)\<rparr>)"
| lock_acquired: "calls p t = Some (Locking m tid widx) \<Longrightarrow> holder p m = None \<Longrightarrow>
    shim_step p (p\<lparr>holder := (holder p)(m \<mapsto> t), calls := (calls p)(t \<mapsto> Locked m tid widx)\<rparr>)"
| lock_returns: "calls p t = Some (Locked m tid widx) \<Longrightarrow> lock_leave (shared p) t m tid widx = Some sh \<Longrightarrow>
    shim_step p (p\<lparr>shared := sh, calls := (calls p)(t \<mapsto> App)\<rparr>)"
| unlock_released: "calls p t = Some App \<Longrightarrow> holder p m = Some t \<Longrightarrow>
    shim_step p (p\<lparr>holder := (holder p)(m := None), calls := (calls p)(t \<mapsto> Unlocking m)\<rparr>)"
| unlock_returns: "calls p t = Some (Unlocking m) \<Longrightarrow> unlock_leave (shared p) m = Some sh \<Longrightarrow>
    shim_step p (p\<lparr>shared := sh, calls := (calls p)(t \<mapsto> App)\<rparr>)"

definition process_init :: "ddb_wait_entry list \<Rightarrow> int \<Rightarrow> 64 word \<Rightarrow> 64 word \<Rightarrow> process" where
  "process_init raw tid fs rbp = \<lparr>shared = ddbInit raw tid fs rbp, holder = (\<lambda>_. None), calls = [0 \<mapsto> App]\<rparr>"

text \<open>The mutexes that the segment shows a thread to wait for.\<close>

definition waits :: "ddb_wait_buffer \<Rightarrow> 64 word multiset" where
  "waits wb = image_mset w_identifier (in_use w_valid (w_max_n wb) (wait_entries wb))"

fun awaited :: "shim_pc \<Rightarrow> 64 word option" where
  "awaited (Locking m _ _) = Some m"
| "awaited (Locked m _ _) = Some m"
| "awaited _ = None"

fun locals_ok :: "ddb_thread_info \<Rightarrow> shim_pc \<Rightarrow> bool" where
  "locals_ok ti (Locking _ tid widx) \<longleftrightarrow> tid = t_id ti \<and> widx = 0"
| "locals_ok ti (Locked _ tid widx) \<longleftrightarrow> tid = t_id ti \<and> widx = 0"
| "locals_ok _ _ \<longleftrightarrow> True"

definition wait_ok :: "ddb_wait_buffer \<Rightarrow> 64 word option \<Rightarrow> bool" where
  "wait_ok wb w \<longleftrightarrow> length (wait_entries wb) = DDB_MAX_NWAIT \<and>
     (case w of
        None \<Rightarrow> w_n wb = 0 \<and> w_max_n wb = 0
      | Some m \<Rightarrow> w_n wb = 1 \<and> w_max_n wb = 1 \<and>
          wait_entries wb ! 0 = \<lparr>w_valid = True, w_type = DDB_WAIT_MUTEX, w_identifier = m\<rparr>)"

definition thread_ok :: "ddb_thread_info \<Rightarrow> shim_pc \<Rightarrow> bool" where
  "thread_ok ti c \<longleftrightarrow> t_id ti \<noteq> - 1 \<and> locals_ok ti c \<and>
     (case wbuf ti of None \<Rightarrow> False | Some wb \<Rightarrow> wait_ok wb (awaited c))"

definition threads_ok :: "ddb_shmseg \<Rightarrow> (int \<Rightarrow> shim_pc option) \<Rightarrow> bool" where
  "threads_ok sh cs \<longleftrightarrow> slots_ok in_table (ddb_nthread sh) (ddb_max_idx sh) (ddb_thread_infos sh) \<and>
     (\<forall>t. cs t \<noteq> None \<longleftrightarrow> 0 \<le> t \<and> t < ddb_max_idx sh \<and> in_table (ddb_thread_infos sh ! nat t)) \<and>
     (\<forall>t c. cs t = Some c \<longrightarrow> thread_ok (ddb_thread_infos sh ! nat t) c)"

lemma waits_wait_ok: "wait_ok wb w \<Longrightarrow> waits wb = (case w of None \<Rightarrow> {#} | Some m \<Rightarrow> {#m#})"
  by (cases "wait_entries wb") (auto simp: wait_ok_def waits_def in_use_def split: option.splits)

lemma threads_ok_index:
  assumes "threads_ok sh cs" "cs t = Some c"
  shows "0 \<le> t" "t < ddb_max_idx sh" "t < int (length (ddb_thread_infos sh))" "in_table (ddb_thread_infos sh ! nat t)"
    "thread_ok (ddb_thread_infos sh ! nat t) c"
proof -
  have "cs t \<noteq> None" using assms(2) by simp
  then show "0 \<le> t" "t < ddb_max_idx sh" "in_table (ddb_thread_infos sh ! nat t)"
    using assms(1) unfolding threads_ok_def by blast+
  then show "t < int (length (ddb_thread_infos sh))" using assms(1) by (simp add: threads_ok_def slots_ok_def)
  show "thread_ok (ddb_thread_infos sh ! nat t) c" using assms by (simp add: threads_ok_def)
qed

lemma threads_ok_update:
  assumes ok: "threads_ok sh cs" and t: "cs t = Some c" and ti: "fsbase ti = fsbase (ddb_thread_infos sh ! nat t)" "thread_ok ti c'"
  shows "threads_ok (sh\<lparr>ddb_thread_infos := (ddb_thread_infos sh)[nat t := ti]\<rparr>) (cs(t \<mapsto> c'))"
proof -
  let ?es = "ddb_thread_infos sh"
  note i = threads_ok_index[OF ok t]
  have len: "ddb_max_idx sh \<le> int (length ?es)" using ok by (simp add: threads_ok_def slots_ok_def)
  have "in_table ti" using ti i by (simp add: in_table_def)
  then have "size (in_use in_table (ddb_max_idx sh) (?es[nat t := ti])) = size (in_use in_table (ddb_max_idx sh) ?es)"
  proof -
    have "?es ! nat t \<in># in_use in_table (ddb_max_idx sh) ?es"
      using i by (auto simp: in_use_def in_set_conv_nth intro!: exI[of _ "nat t"])
    then show ?thesis using i len \<open>in_table ti\<close>
      by (simp add: in_use_update) (simp add: in_use_def size_Suc_Diff1)
  qed
  then have slots: "slots_ok in_table (ddb_nthread sh) (ddb_max_idx sh) (?es[nat t := ti])"
    using ok by (simp add: threads_ok_def slots_ok_size)
  have nth: "?es[nat t := ti] ! nat u = (if u = t then ti else ?es ! nat u)" if "0 \<le> u" for u
    using that i by (auto simp: nth_list_update eq_nat_nat_iff)
  have dom: "(cs(t \<mapsto> c')) u \<noteq> None \<longleftrightarrow> 0 \<le> u \<and> u < ddb_max_idx sh \<and> in_table (?es[nat t := ti] ! nat u)" for u
    using ok nth[of u] i \<open>in_table ti\<close> by (auto simp: threads_ok_def)
  have "thread_ok (?es[nat t := ti] ! nat u) d" if d: "(cs(t \<mapsto> c')) u = Some d" for u d
  proof -
    have "0 \<le> u" using d dom by blast
    then show ?thesis using nth[of u] d ok ti by (auto simp: threads_ok_def split: if_splits)
  qed
  then show ?thesis using slots dom by (simp add: threads_ok_def)
qed

definition same_ids :: "ddb_shmseg \<Rightarrow> ddb_shmseg \<Rightarrow> bool" where
  "same_ids sh sh' \<longleftrightarrow> map t_id (ddb_thread_infos sh') = map t_id (ddb_thread_infos sh)"

lemma same_ids_update:
  "t_id ti = t_id (ddb_thread_infos sh ! i) \<Longrightarrow> same_ids sh (sh\<lparr>ddb_thread_infos := (ddb_thread_infos sh)[i := ti]\<rparr>)"
  by (cases "i < length (ddb_thread_infos sh)")
     (simp_all add: same_ids_def map_update list_update_beyond, metis list_update_id nth_map)

lemma thread_ok_cong: "thread_ok ti c \<Longrightarrow> awaited c' = awaited c \<Longrightarrow> locals_ok ti c' \<Longrightarrow> thread_ok ti c'"
  by (auto simp: thread_ok_def split: option.splits)

lemma threads_ok_move:
  assumes "threads_ok sh cs" "cs t = Some c" "awaited c' = awaited c"
    "locals_ok (ddb_thread_infos sh ! nat t) c'"
  shows "threads_ok sh (cs(t \<mapsto> c'))"
  using threads_ok_update[OF assms(1,2) _ thread_ok_cong[OF threads_ok_index(5)[OF assms(1,2)] assms(3,4)]] by simp

lemma lock_enter_ok:
  assumes ok: "threads_ok sh cs" and t: "cs t = Some App"
  obtains tid sh' where "lock_enter sh t m = Some (tid, 0, sh')" "threads_ok sh' (cs(t \<mapsto> Locking m tid 0))"
    "ddb_lowners sh' = ddb_lowners sh" "tid = t_id (ddb_thread_infos sh ! nat t)" "same_ids sh sh'"
proof -
  let ?ti = "ddb_thread_infos sh ! nat t"
  note i = threads_ok_index[OF ok t]
  obtain wb where wb: "wbuf ?ti = Some wb" "wait_ok wb None" using i(5) by (auto simp: thread_ok_def split: option.splits)
  let ?e = "\<lparr>w_valid = True, w_type = DDB_WAIT_MUTEX, w_identifier = m\<rparr>"
  let ?wb = "wb\<lparr>w_n := 1, w_max_n := 1, wait_entries := (wait_entries wb)[0 := ?e]\<rparr>"
  have ne: "wait_entries wb \<noteq> []" using wb(2) by (auto simp: wait_ok_def)
  have "thread_ok (?ti\<lparr>wbuf := Some ?wb\<rparr>) (Locking m (t_id ?ti) 0)"
    using i(5) wb ne by (auto simp: thread_ok_def wait_ok_def)
  note upd = threads_ok_update[OF ok t _ this]
  have "lock_enter sh t m = Some (t_id ?ti, 0, sh\<lparr>ddb_thread_infos := (ddb_thread_infos sh)[nat t := ?ti\<lparr>wbuf := Some ?wb\<rparr>]\<rparr>)"
    using i wb ne by (simp add: lock_enter_def arr_get_def arr_set_def get_wait_idx_def slot_get_def wait_ok_def)
  then show ?thesis using that[OF _ upd] same_ids_update by simp
qed

lemma unset_wait_ok:
  assumes ok: "threads_ok sh cs" and t: "cs t = Some (Locked m tid widx)"
  obtains sh' where "unset_wait sh t widx = Some sh'" "threads_ok sh' (cs(t \<mapsto> App))"
    "ddb_lowners sh' = ddb_lowners sh" "same_ids sh sh'"
proof -
  let ?ti = "ddb_thread_infos sh ! nat t"
  note i = threads_ok_index[OF ok t]
  obtain wb where wb: "wbuf ?ti = Some wb" "wait_ok wb (Some m)" "widx = 0"
    using i(5) by (auto simp: thread_ok_def split: option.splits)
  let ?wb = "wb\<lparr>w_n := 0, w_max_n := 0, wait_entries := (wait_entries wb)[0 := zero_wait]\<rparr>"
  have ne: "wait_entries wb \<noteq> []" using wb(2) by (auto simp: wait_ok_def)
  have "thread_ok (?ti\<lparr>wbuf := Some ?wb\<rparr>) App"
    using i(5) wb ne by (auto simp: thread_ok_def wait_ok_def)
  note upd = threads_ok_update[OF ok t _ this]
  have "unset_wait sh t widx = Some (sh\<lparr>ddb_thread_infos := (ddb_thread_infos sh)[nat t := ?ti\<lparr>wbuf := Some ?wb\<rparr>]\<rparr>)"
    using i wb ne by (simp add: unset_wait_def arr_get_def arr_set_def put_wait_idx_def slot_put_def wait_ok_def)
  then show ?thesis using that[OF _ upd] same_ids_update by simp
qed

text \<open>
  The block after the real lock function succeeds exactly when the owner table has a free slot.
\<close>

lemma lock_leave_ok:
  assumes ok: "threads_ok sh cs" and t: "cs t = Some (Locked m tid widx)" and lo: "owners_ok (ddb_lowners sh)"
    and room: "o_n (ddb_lowners sh) < int (length (lowner_entries (ddb_lowners sh)))"
  obtains sh' where "lock_leave sh t m tid widx = Some sh'" "threads_ok sh' (cs(t \<mapsto> App))" "same_ids sh sh'"
    "owners_ok (ddb_lowners sh')" "owners (ddb_lowners sh') = add_mset (m, tid) (owners (ddb_lowners sh))"
    "length (lowner_entries (ddb_lowners sh')) = length (lowner_entries (ddb_lowners sh))"
proof -
  have tid: "tid \<noteq> - 1" using threads_ok_index(5)[OF ok t] by (simp add: thread_ok_def)
  obtain sh1 where sh1: "unset_wait sh t widx = Some sh1" "threads_ok sh1 (cs(t \<mapsto> App))"
      "ddb_lowners sh1 = ddb_lowners sh" "same_ids sh sh1"
    using unset_wait_ok[OF ok t] by blast
  obtain lo' where "register_owner (ddb_lowners sh) m tid = Some lo'" "owners_ok lo'"
      "owners lo' = add_mset (m, tid) (owners (ddb_lowners sh))" "length (lowner_entries lo') = length (lowner_entries (ddb_lowners sh))"
    using register_owner_ok[OF lo room] by metis
  then show ?thesis using that[of "sh1\<lparr>ddb_lowners := lo'\<rparr>"] sh1 tid
    by (simp add: lock_leave_def threads_ok_def same_ids_def)
qed

lemma lock_leave_full:
  assumes ok: "threads_ok sh cs" and t: "cs t = Some (Locked m tid widx)" and lo: "owners_ok (ddb_lowners sh)"
    and full: "\<not> o_n (ddb_lowners sh) < int (length (lowner_entries (ddb_lowners sh)))"
  shows "lock_leave sh t m tid widx = None"
proof -
  have tid: "tid \<noteq> - 1" using threads_ok_index(5)[OF ok t] by (simp add: thread_ok_def)
  obtain sh1 where "unset_wait sh t widx = Some sh1" "ddb_lowners sh1 = ddb_lowners sh"
    using unset_wait_ok[OF ok t] by blast
  then show ?thesis using register_owner_full[OF lo, of m tid] owners_ok_le[OF lo] full tid by (simp add: lock_leave_def)
qed

text \<open>A thread that starts gets a slot that no running thread has; one that ends gives its slot back.\<close>

lemma thread_start_ok:
  assumes ok: "threads_ok sh cs" and new: "thread_start_tracking sh raw tid fs rbp = Some (t, sh')"
    and fs: "fs \<noteq> 0" "tid \<noteq> - 1" "length raw = DDB_MAX_NWAIT"
  shows "threads_ok sh' (cs(t \<mapsto> App)) \<and> cs t = None \<and> ddb_lowners sh' = ddb_lowners sh \<and>
    (\<forall>u. cs u \<noteq> None \<longrightarrow> ddb_thread_infos sh' ! nat u = ddb_thread_infos sh ! nat u)"
proof -
  let ?es = "ddb_thread_infos sh"
  let ?ti = "\<lparr>t_valid = True, t_id = tid, fsbase = fs, stackbase = rbp,
    wbuf = Some \<lparr>w_n = 0, w_max_n = 0, wait_entries = raw\<rparr>\<rparr>"
  have slots: "slots_ok in_table (ddb_nthread sh) (ddb_max_idx sh) ?es" using ok by (simp add: threads_ok_def)
  have it: "in_table ?ti" using fs by (simp add: in_table_def)
  have room: "ddb_nthread sh < int (length ?es)"
  proof (rule ccontr)
    assume "\<not> ?thesis"
    then have "ddb_nthread sh = int (length ?es)" using slots_le[OF slots] slots by (auto simp: slots_ok_def)
    then show False using new slot_get_full[OF slots] by (simp add: thread_start_tracking_def get_tidx_def arr_set_def)
  qed
  obtain i n m where g: "slot_get in_table (ddb_nthread sh) (ddb_max_idx sh) ?es = Some (i, n, m)" "0 \<le> i"
      "i < int (length ?es)" "i < m" "ddb_max_idx sh \<le> m" "i < ddb_max_idx sh \<longrightarrow> \<not> in_table (?es ! nat i)"
      "\<And>j. ddb_max_idx sh \<le> j \<Longrightarrow> j < m \<Longrightarrow> j = i" "slots_ok in_table n m (?es[nat i := ?ti])"
    using slot_get_free[OF slots room] it by metis
  have eq: "t = i" "sh' = sh\<lparr>ddb_nthread := n, ddb_max_idx := m, ddb_thread_infos := ?es[nat i := ?ti]\<rparr>"
    using new g by (auto simp: thread_start_tracking_def get_tidx_def arr_set_def)
  have fresh: "cs i = None" using g(6) ok unfolding threads_ok_def by blast
  have nth: "?es[nat i := ?ti] ! nat u = (if u = i then ?ti else ?es ! nat u)" if "0 \<le> u" for u
    using that g by (auto simp: nth_list_update eq_nat_nat_iff)
  have pos: "0 \<le> u" if "cs u \<noteq> None" for u using that ok by (simp add: threads_ok_def)
  have dom: "(cs(i \<mapsto> App)) u \<noteq> None \<longleftrightarrow> 0 \<le> u \<and> u < m \<and> in_table (?es[nat i := ?ti] ! nat u)" for u
  proof (cases "u = i")
    case True then show ?thesis using nth[of i] g it by simp
  next
    case False
    then have "u < m \<longleftrightarrow> u < ddb_max_idx sh" using g(5,7) by (meson linorder_not_less order_less_le_trans)
    then show ?thesis using False nth[of u] ok by (auto simp: threads_ok_def)
  qed
  have "thread_ok ?ti App" using fs by (simp add: thread_ok_def wait_ok_def)
  then have "thread_ok (?es[nat i := ?ti] ! nat u) d" if d: "(cs(i \<mapsto> App)) u = Some d" for u d
  proof -
    have "0 \<le> u" using d dom by blast
    then show ?thesis using nth[of u] d ok \<open>thread_ok ?ti App\<close> by (auto simp: threads_ok_def split: if_splits)
  qed
  then show ?thesis using g(8) dom fresh nth pos unfolding eq threads_ok_def by auto
qed

lemma thread_stop_ok:
  assumes ok: "threads_ok sh cs" and t: "cs t = Some App"
  obtains sh' where "thread_stop_tracking sh t = Some sh'" "threads_ok sh' (cs(t := None))"
    "ddb_lowners sh' = ddb_lowners sh" "\<And>u. u \<noteq> t \<Longrightarrow> cs u \<noteq> None \<Longrightarrow> ddb_thread_infos sh' ! nat u = ddb_thread_infos sh ! nat u"
proof -
  let ?es = "ddb_thread_infos sh"
  note i = threads_ok_index[OF ok t]
  have slots: "slots_ok in_table (ddb_nthread sh) (ddb_max_idx sh) ?es" using ok by (simp add: threads_ok_def)
  have z: "\<not> in_table zero_thread" by (simp add: in_table_def zero_thread_def)
  obtain m where m: "slot_put zero_thread t (ddb_nthread sh) (ddb_max_idx sh) (?es[nat t := (?es ! nat t)\<lparr>t_valid := False\<rparr>]) = Some (ddb_nthread sh - 1, m, ?es[nat t := zero_thread])"
      "m \<le> ddb_max_idx sh" "slots_ok in_table (ddb_nthread sh - 1) m (?es[nat t := zero_thread])"
      "\<And>j. m \<le> j \<Longrightarrow> j < ddb_max_idx sh \<Longrightarrow> j = t"
    using slot_put_ok[OF slots i(1,2,4) z, where x = "(?es ! nat t)\<lparr>t_valid := False\<rparr>"] by metis
  let ?sh = "sh\<lparr>ddb_nthread := ddb_nthread sh - 1, ddb_max_idx := m, ddb_thread_infos := ?es[nat t := zero_thread]\<rparr>"
  have nth: "?es[nat t := zero_thread] ! nat u = (if u = t then zero_thread else ?es ! nat u)" if "0 \<le> u" for u
    using that i by (auto simp: nth_list_update eq_nat_nat_iff)
  have pos: "0 \<le> u" if "cs u \<noteq> None" for u using that ok by (simp add: threads_ok_def)
  have dom: "(cs(t := None)) u \<noteq> None \<longleftrightarrow> 0 \<le> u \<and> u < m \<and> in_table (?es[nat t := zero_thread] ! nat u)" for u
  proof (cases "u = t")
    case True then show ?thesis using nth[of t] i z by simp
  next
    case False
    then have "u < m \<longleftrightarrow> u < ddb_max_idx sh" using m(2,4) by (meson linorder_not_less order_less_le_trans)
    then show ?thesis using False nth[of u] ok by (auto simp: threads_ok_def)
  qed
  have "thread_ok (?es[nat t := zero_thread] ! nat u) d" if d: "(cs(t := None)) u = Some d" for u d
  proof -
    have "0 \<le> u" using d dom by blast
    then show ?thesis using nth[of u] d ok by (auto simp: threads_ok_def split: if_splits)
  qed
  then have "threads_ok ?sh (cs(t := None))" using m(3) dom by (auto simp: threads_ok_def)
  moreover have "thread_stop_tracking sh t = Some ?sh"
    using m(1) i by (simp add: thread_stop_tracking_def put_tidx_def arr_get_def arr_set_def)
  ultimately show ?thesis using that[of ?sh] nth pos by auto
qed

text \<open>
  The invariant of the interleaved calls: the tables are in order, and the owner table has one entry
  for each mutex whose holder has come back from the lock function and one for each thread that has
  released the mutex and not yet unregistered it.
\<close>

definition unlockers :: "(int \<Rightarrow> shim_pc option) \<Rightarrow> 64 word \<Rightarrow> int set" where
  "unlockers cs m = {t. cs t = Some (Unlocking m)}"

definition registered :: "(64 word \<Rightarrow> int option) \<Rightarrow> (int \<Rightarrow> shim_pc option) \<Rightarrow> 64 word \<Rightarrow> bool" where
  "registered h cs m \<longleftrightarrow> (\<exists>t. h m = Some t \<and> (\<forall>tid widx. cs t \<noteq> Some (Locked m tid widx)))"

definition holders_ok :: "(64 word \<Rightarrow> int option) \<Rightarrow> (int \<Rightarrow> shim_pc option) \<Rightarrow> bool" where
  "holders_ok h cs \<longleftrightarrow> (\<forall>m t. h m = Some t \<longrightarrow> cs t \<noteq> None) \<and>
     (\<forall>t m tid widx. cs t = Some (Locked m tid widx) \<longrightarrow> h m = Some t)"

definition process_ok :: "process \<Rightarrow> bool" where
  "process_ok p \<longleftrightarrow> threads_ok (shared p) (calls p) \<and> owners_ok (ddb_lowners (shared p)) \<and>
     length (lowner_entries (ddb_lowners (shared p))) = DDB_MAX_NLOCK \<and> holders_ok (holder p) (calls p) \<and>
     (\<forall>m. count (image_mset fst (owners (ddb_lowners (shared p)))) m =
        card (unlockers (calls p) m) + (if registered (holder p) (calls p) m then 1 else 0))"

lemma holders_okD:
  assumes "holders_ok h cs"
  shows "h m = Some t \<Longrightarrow> cs t \<noteq> None" "cs t = Some (Locked m tid widx) \<Longrightarrow> h m = Some t"
  using assms unfolding holders_ok_def by blast+

lemma holders_okI:
  assumes "\<And>m t. h m = Some t \<Longrightarrow> cs t \<noteq> None" "\<And>t m tid widx. cs t = Some (Locked m tid widx) \<Longrightarrow> h m = Some t"
  shows "holders_ok h cs"
  using assms unfolding holders_ok_def by blast

lemma holders_acquire:
  assumes ok: "holders_ok h cs" and "h m = None"
  shows "holders_ok (h(m \<mapsto> t)) (cs(t \<mapsto> Locked m tid widx))"
proof (rule holders_okI)
  show "(cs(t \<mapsto> Locked m tid widx)) u \<noteq> None" if "(h(m \<mapsto> t)) k = Some u" for k u
    using that holders_okD(1)[OF ok, of k u] by (auto split: if_splits)
  show "(h(m \<mapsto> t)) k = Some u" if "(cs(t \<mapsto> Locked m tid widx)) u = Some (Locked k i w)" for u k i w
    using that holders_okD(2)[OF ok, of u k i w] assms(2) by (auto split: if_splits)
qed

lemma holders_release:
  assumes ok: "holders_ok h cs" and "h m = Some t" "cs t = Some App"
  shows "holders_ok (h(m := None)) (cs(t \<mapsto> Unlocking m))"
proof (rule holders_okI)
  show "(cs(t \<mapsto> Unlocking m)) u \<noteq> None" if "(h(m := None)) k = Some u" for k u
    using that holders_okD(1)[OF ok, of k u] by (auto split: if_splits)
  show "(h(m := None)) k = Some u" if "(cs(t \<mapsto> Unlocking m)) u = Some (Locked k i w)" for u k i w
    using that holders_okD(2)[OF ok, of u k i w] assms(2,3) by (auto split: if_splits)
qed

lemma unlockers_upd:
  "unlockers (cs(t \<mapsto> c)) m = (if c = Unlocking m then insert t (unlockers cs m) else unlockers cs m - {t})"
  "unlockers (cs(t := None)) m = unlockers cs m - {t}"
  by (auto simp: unlockers_def)

lemma not_unlocker: "cs t \<noteq> Some (Unlocking m) \<Longrightarrow> unlockers cs m - {t} = unlockers cs m"
  by (auto simp: unlockers_def)

lemma finite_unlockers: "threads_ok sh cs \<Longrightarrow> finite (unlockers cs m)"
  by (rule finite_subset[of _ "{0..<ddb_max_idx sh}"]) (auto simp: unlockers_def dest: threads_ok_index)

lemma image_fst_remove: "(m, t) \<in># M \<Longrightarrow> image_mset fst (M - {#(m, t)#}) = image_mset fst M - {#m#}"
  by (simp add: image_mset_Diff)

lemma thread_starts_ok:
  assumes a: "thread_start_tracking (shared p) raw tid fs rbp = Some (t, sh)" "fs \<noteq> 0" "tid \<noteq> - 1" "length raw = DDB_MAX_NWAIT" "process_ok p"
  shows "process_ok (p\<lparr>shared := sh, calls := (calls p)(t \<mapsto> App)\<rparr>)"
proof -
  note start = thread_start_ok[OF _ a(1-4), of "calls p"]
  have fresh: "calls p t = None" "threads_ok sh ((calls p)(t \<mapsto> App))" "ddb_lowners sh = ddb_lowners (shared p)"
    using start a(5) by (simp_all add: process_ok_def)
  have "registered (holder p) ((calls p)(t \<mapsto> App)) m = registered (holder p) (calls p) m" for m
    using a(5) fresh by (auto simp: process_ok_def holders_ok_def registered_def)
  then show ?thesis using a(5) fresh
    by (auto simp: process_ok_def unlockers_upd not_unlocker holders_ok_def)
qed

lemma thread_ends_ok:
  assumes a: "calls p t = Some App" "\<forall>m. holder p m \<noteq> Some t" "thread_stop_tracking (shared p) t = Some sh" "process_ok p"
  shows "process_ok (p\<lparr>shared := sh, calls := (calls p)(t := None)\<rparr>)"
proof -
  obtain sh' where "thread_stop_tracking (shared p) t = Some sh'" "threads_ok sh' ((calls p)(t := None))" "ddb_lowners sh' = ddb_lowners (shared p)"
    using thread_stop_ok[OF a(4)[unfolded process_ok_def, THEN conjunct1] a(1)] by metis
  moreover have "registered (holder p) ((calls p)(t := None)) m = registered (holder p) (calls p) m" for m
    using a by (auto simp: registered_def)
  ultimately show ?thesis using a
    by (auto simp: process_ok_def unlockers_upd not_unlocker holders_ok_def)
qed

lemma lock_called_ok:
  assumes a: "calls p t = Some App" "lock_enter (shared p) t m = Some (tid, widx, sh)" "process_ok p"
  shows "process_ok (p\<lparr>shared := sh, calls := (calls p)(t \<mapsto> Locking m tid widx)\<rparr>)"
proof -
  obtain tid' sh' where "lock_enter (shared p) t m = Some (tid', 0, sh')" "threads_ok sh' ((calls p)(t \<mapsto> Locking m tid' 0))" "ddb_lowners sh' = ddb_lowners (shared p)"
    using lock_enter_ok[OF a(3)[unfolded process_ok_def, THEN conjunct1] a(1), of m] by metis
  moreover have "registered (holder p) ((calls p)(t \<mapsto> Locking m tid widx)) k = registered (holder p) (calls p) k" for k
    using a(1) by (auto simp: registered_def)
  ultimately show ?thesis using a
    by (auto simp: process_ok_def unlockers_upd not_unlocker holders_ok_def)
qed

lemma lock_acquired_ok:
  assumes a: "calls p t = Some (Locking m tid widx)" "holder p m = None" "process_ok p"
  shows "process_ok (p\<lparr>holder := (holder p)(m \<mapsto> t), calls := (calls p)(t \<mapsto> Locked m tid widx)\<rparr>)"
proof -
  let ?cs = "(calls p)(t \<mapsto> Locked m tid widx)"
  have th: "threads_ok (shared p) (calls p)" using a by (simp add: process_ok_def)
  have "locals_ok (ddb_thread_infos (shared p) ! nat t) (Locked m tid widx)"
    using threads_ok_index(5)[OF th a(1)] by (simp add: thread_ok_def)
  then have "threads_ok (shared p) ?cs" using threads_ok_move[OF th a(1)] by simp
  moreover have "registered ((holder p)(m \<mapsto> t)) ?cs k = registered (holder p) (calls p) k" for k
    using a by (auto simp: registered_def)
  moreover have "holders_ok ((holder p)(m \<mapsto> t)) ?cs"
    using a by (intro holders_acquire) (simp_all add: process_ok_def)
  ultimately show ?thesis using a by (simp add: process_ok_def unlockers_upd not_unlocker)
qed

lemma lock_returns_ok:
  assumes a: "calls p t = Some (Locked m tid widx)" "lock_leave (shared p) t m tid widx = Some sh" "process_ok p"
  shows "process_ok (p\<lparr>shared := sh, calls := (calls p)(t \<mapsto> App)\<rparr>)"
proof -
  let ?cs = "(calls p)(t \<mapsto> App)"
  have ok: "threads_ok (shared p) (calls p)" "owners_ok (ddb_lowners (shared p))" "holder p m = Some t"
    using a by (auto simp: process_ok_def holders_ok_def)
  have room: "o_n (ddb_lowners (shared p)) < int (length (lowner_entries (ddb_lowners (shared p))))"
    using lock_leave_full[OF ok(1) a(1) ok(2)] a(2) by auto
  have sh: "threads_ok sh ?cs" "owners_ok (ddb_lowners sh)" "owners (ddb_lowners sh) = add_mset (m, tid) (owners (ddb_lowners (shared p)))"
      "length (lowner_entries (ddb_lowners sh)) = length (lowner_entries (ddb_lowners (shared p)))"
    using lock_leave_ok[OF ok(1) a(1) ok(2) room] a(2) by auto
  have "registered (holder p) ?cs k \<longleftrightarrow> k = m \<or> registered (holder p) (calls p) k" for k
    using a(1) ok(3) by (auto simp: registered_def)
  moreover have "\<not> registered (holder p) (calls p) m" using a(1) ok(3) by (auto simp: registered_def)
  moreover have "holders_ok (holder p) ?cs" using a(3) by (auto simp: process_ok_def holders_ok_def)
  ultimately show ?thesis using a sh by (auto simp: process_ok_def unlockers_upd not_unlocker)
qed

lemma unlock_released_ok:
  assumes a: "calls p t = Some App" "holder p m = Some t" "process_ok p"
  shows "process_ok (p\<lparr>holder := (holder p)(m := None), calls := (calls p)(t \<mapsto> Unlocking m)\<rparr>)"
proof -
  let ?cs = "(calls p)(t \<mapsto> Unlocking m)" and ?h = "(holder p)(m := None)"
  have th: "threads_ok (shared p) (calls p)" using a by (simp add: process_ok_def)
  have "threads_ok (shared p) ?cs"
    using threads_ok_move[OF th a(1)] by simp
  moreover have "registered ?h ?cs k \<longleftrightarrow> k \<noteq> m \<and> registered (holder p) (calls p) k" for k
    using a by (auto simp: registered_def)
  moreover have "registered (holder p) (calls p) m" using a by (auto simp: registered_def)
  moreover have "holders_ok ?h ?cs" using a by (intro holders_release) (simp_all add: process_ok_def)
  moreover have "t \<notin> unlockers (calls p) m" "unlockers (calls p) k - {t} = unlockers (calls p) k" for k
    using a(1) by (auto simp: unlockers_def)
  ultimately show ?thesis using a(3) finite_unlockers[OF th] by (simp add: process_ok_def unlockers_upd)
qed

lemma unlock_returns_ok:
  assumes a: "calls p t = Some (Unlocking m)" "unlock_leave (shared p) m = Some sh" "process_ok p"
  shows "process_ok (p\<lparr>shared := sh, calls := (calls p)(t \<mapsto> App)\<rparr>)"
proof -
  let ?cs = "(calls p)(t \<mapsto> App)" and ?lo = "ddb_lowners (shared p)"
  have th: "threads_ok (shared p) (calls p)" "owners_ok ?lo" using a by (simp_all add: process_ok_def)
  have fin: "finite (unlockers (calls p) m)" "t \<in> unlockers (calls p) m"
    using finite_unlockers[OF th(1)] a(1) by (auto simp: unlockers_def)
  then have card: "0 < card (unlockers (calls p) m)" by (auto simp: card_gt_0_iff)
  obtain lo where lo: "unregister_owner ?lo m 0 = Some lo" "owners_ok lo"
      "length (lowner_entries lo) = length (lowner_entries ?lo)"
      "owners lo = owners ?lo \<and> (\<forall>t. (m, t) \<notin># owners ?lo) \<or> (\<exists>t. (m, t) \<in># owners ?lo \<and> owners lo = owners ?lo - {#(m, t)#})"
    using unregister_removes[OF th(2)] by metis
  have cnt: "count (image_mset fst (owners ?lo)) m = card (unlockers (calls p) m) + (if registered (holder p) (calls p) m then 1 else 0)"
    using a(3) by (simp add: process_ok_def)
  have "0 < count (image_mset fst (owners ?lo)) m" using card cnt by simp
  then have "m \<in># image_mset fst (owners ?lo)" by (simp only: count_greater_zero_iff)
  then have "\<exists>t. (m, t) \<in># owners ?lo" by auto
  then have img: "image_mset fst (owners lo) = image_mset fst (owners ?lo) - {#m#}"
    using lo(4) image_fst_remove by metis
  have sh: "sh = (shared p)\<lparr>ddb_lowners := lo\<rparr>" using a(2) lo(1) by (simp add: unlock_leave_def)
  have "threads_ok (shared p) ?cs"
    using threads_ok_move[OF th(1) a(1)] by simp
  then have "threads_ok sh ?cs" by (simp add: sh threads_ok_def)
  moreover have "registered (holder p) ?cs k = registered (holder p) (calls p) k" for k
    using a(1) by (auto simp: registered_def)
  moreover have "holders_ok (holder p) ?cs" using a(3) by (auto simp: process_ok_def holders_ok_def)
  moreover have "unlockers (calls p) k - {t} = unlockers (calls p) k" if "k \<noteq> m" for k
    using that a(1) by (intro not_unlocker) auto
  ultimately show ?thesis using a(3) lo(2,3) fin card img
    by (auto simp: process_ok_def unlockers_upd sh)
qed

lemmas step_ok_rules = thread_starts_ok thread_ends_ok lock_called_ok lock_acquired_ok lock_returns_ok unlock_released_ok unlock_returns_ok

lemma shim_step_ok: "shim_step p p' \<Longrightarrow> process_ok p \<Longrightarrow> process_ok p'"
  by (induction rule: shim_step.induct) (rule step_ok_rules; assumption)+

lemma process_init_ok:
  assumes "fs \<noteq> 0" "tid \<noteq> - 1" "length raw = DDB_MAX_NWAIT"
  shows "process_ok (process_init raw tid fs rbp)"
proof -
  let ?p = "process_init raw tid fs rbp" and ?es = "ddb_thread_infos (ddbInit raw tid fs rbp)"
  have es: "?es = \<lparr>t_valid = True, t_id = tid, fsbase = fs, stackbase = rbp,
      wbuf = Some \<lparr>w_n = 0, w_max_n = 0, wait_entries = raw\<rparr>\<rparr> # replicate 127 zero_thread"
    by (simp add: ddbInit_def numeral_eq_Suc)
  have "calls ?p t \<noteq> None \<longleftrightarrow> 0 \<le> t \<and> t < 1 \<and> in_table (?es ! nat t)" for t
    using assms es by (auto simp: process_init_def in_table_def)
  moreover have "slots_ok in_table 1 1 ?es" using assms by (simp add: es slots_ok_def in_table_def)
  moreover have "thread_ok (?es ! nat t) c" if "calls ?p t = Some c" for t c
    using that assms by (auto simp: es process_init_def thread_ok_def wait_ok_def split: if_splits)
  moreover have "ddb_nthread (ddbInit raw tid fs rbp) = 1" "ddb_max_idx (ddbInit raw tid fs rbp) = 1" by (simp_all add: ddbInit_def)
  ultimately have "threads_ok (shared ?p) (calls ?p)" by (simp add: threads_ok_def process_init_def)
  moreover have "unlockers (calls ?p) m = {}" for m by (auto simp: unlockers_def process_init_def split: if_splits)
  ultimately show ?thesis
    by (auto simp: process_ok_def process_init_def ddbInit_def owners_ok_def slots_ok_def owners_def in_use_def
        holders_ok_def registered_def split: if_splits)
qed

lemma process_reach_ok:
  assumes "fs \<noteq> 0" "tid \<noteq> - 1" "length raw = DDB_MAX_NWAIT" "shim_step\<^sup>*\<^sup>* (process_init raw tid fs rbp) p"
  shows "process_ok p"
  using assms(4) process_init_ok[OF assms(1-3)] by (induction rule: rtranclp_induct) (auto intro: shim_step_ok)

lemma threads_ok_waits:
  assumes "threads_ok sh cs" "cs t = Some c"
  shows "map_option waits (wbuf (ddb_thread_infos sh ! nat t)) = Some (case awaited c of None \<Rightarrow> {#} | Some m \<Rightarrow> {#m#})"
  using threads_ok_index(5)[OF assms] by (auto simp: thread_ok_def waits_wait_ok split: option.splits)

section \<open>Undisturbed unlocks\<close>

text \<open>
  In a run of \<open>calm_step\<close> no thread takes a step between the release of a mutex and the block that
  unregisters its owner.
\<close>

definition calm_step :: "process \<Rightarrow> process \<Rightarrow> bool" where
  "calm_step p p' \<longleftrightarrow> shim_step p p' \<and> (\<forall>t m. calls p t = Some (Unlocking m) \<longrightarrow> calls p' t = Some App)"

definition tid_of :: "ddb_shmseg \<Rightarrow> int \<Rightarrow> int" where
  "tid_of sh t = t_id (ddb_thread_infos sh ! nat t)"

definition owners_right :: "process \<Rightarrow> bool" where
  "owners_right p \<longleftrightarrow>
     (\<forall>t m. calls p t = Some (Unlocking m) \<longrightarrow> holder p m = None \<and> (\<forall>u k. calls p u = Some (Unlocking k) \<longrightarrow> u = t)) \<and>
     (\<forall>m tid. (m, tid) \<in># owners (ddb_lowners (shared p)) \<longrightarrow>
        (\<exists>t. (holder p m = Some t \<or> calls p t = Some (Unlocking m)) \<and> tid_of (shared p) t = tid))"

lemma count_image_size: "count (image_mset f M) x = size {#e \<in># M. f e = x#}"
  by (induction M) auto

lemma owners_rightI:
  assumes "calls p = cs" "holder p = h" "shared p = sh"
    "\<And>t m. cs t = Some (Unlocking m) \<Longrightarrow> h m = None"
    "\<And>t m u k. cs t = Some (Unlocking m) \<Longrightarrow> cs u = Some (Unlocking k) \<Longrightarrow> u = t"
    "\<And>m tid. (m, tid) \<in># owners (ddb_lowners sh) \<Longrightarrow>
      \<exists>t. (h m = Some t \<or> cs t = Some (Unlocking m)) \<and> tid_of sh t = tid"
  shows "owners_right p"
  using assms(4-6) unfolding owners_right_def assms(1-3) by blast

lemma owners_rightD:
  assumes "owners_right p"
  shows "calls p t = Some (Unlocking m) \<Longrightarrow> holder p m = None"
    "calls p t = Some (Unlocking m) \<Longrightarrow> calls p u = Some (Unlocking k) \<Longrightarrow> u = t"
    "(m, tid) \<in># owners (ddb_lowners (shared p)) \<Longrightarrow>
      \<exists>t. (holder p m = Some t \<or> calls p t = Some (Unlocking m)) \<and> tid_of (shared p) t = tid"
  using assms unfolding owners_right_def by blast+

lemma same_ids_tid_of: "same_ids sh sh' \<Longrightarrow> threads_ok sh cs \<Longrightarrow> cs t \<noteq> None \<Longrightarrow> tid_of sh' t = tid_of sh t"
proof -
  assume ids: "same_ids sh sh'" and ok: "threads_ok sh cs" "cs t \<noteq> None"
  obtain c where "cs t = Some c" using ok(2) by blast
  then have lt: "nat t < length (ddb_thread_infos sh)" using threads_ok_index(1,3)[OF ok(1)] by (simp add: nat_less_iff)
  have eq: "map t_id (ddb_thread_infos sh') = map t_id (ddb_thread_infos sh)" using ids by (simp add: same_ids_def)
  then have "length (ddb_thread_infos sh') = length (ddb_thread_infos sh)" by (rule map_eq_imp_length_eq)
  then show ?thesis using lt arg_cong[OF eq, of "\<lambda>xs. xs ! nat t"] by (simp add: tid_of_def)
qed

text \<open>A step of another kind, in a state without pending unlocks.\<close>

lemma owners_right_frame:
  assumes "owners_right p" "process_ok p" "\<forall>t m. calls p t \<noteq> Some (Unlocking m)"
    "\<forall>t m. calls p' t \<noteq> Some (Unlocking m)"
    "\<And>m t. holder p m = Some t \<Longrightarrow> holder p' m = Some t"
    "\<And>t. calls p t \<noteq> None \<Longrightarrow> calls p' t \<noteq> None \<Longrightarrow> tid_of (shared p') t = tid_of (shared p) t"
    "\<And>m t. holder p m = Some t \<Longrightarrow> calls p' t \<noteq> None"
    "\<And>m tid. (m, tid) \<in># owners (ddb_lowners (shared p')) \<Longrightarrow> (m, tid) \<in># owners (ddb_lowners (shared p)) \<or>
       (\<exists>t. holder p' m = Some t \<and> tid_of (shared p') t = tid)"
  shows "owners_right p'"
proof -
  have "\<exists>t. holder p' m = Some t \<and> tid_of (shared p') t = tid" if mem: "(m, tid) \<in># owners (ddb_lowners (shared p'))" for m tid
  proof -
    consider "(m, tid) \<in># owners (ddb_lowners (shared p))" | "\<exists>t. holder p' m = Some t \<and> tid_of (shared p') t = tid"
      using assms(8)[OF mem] by blast
    then show ?thesis
    proof cases
      case 1
      then obtain t where t: "holder p m = Some t" "tid_of (shared p) t = tid"
        using assms(1,3) unfolding owners_right_def by blast
      have "calls p t \<noteq> None" using t(1) assms(2) holders_okD(1) by (metis process_ok_def)
      then show ?thesis using t assms(5-7) by metis
    qed
  qed
  then show ?thesis using assms(4) unfolding owners_right_def by blast
qed

lemma process_okD:
  assumes "process_ok p"
  shows "threads_ok (shared p) (calls p)" "owners_ok (ddb_lowners (shared p))" "holders_ok (holder p) (calls p)"
    "length (lowner_entries (ddb_lowners (shared p))) = DDB_MAX_NLOCK"
    "count (image_mset fst (owners (ddb_lowners (shared p)))) m =
       card (unlockers (calls p) m) + (if registered (holder p) (calls p) m then 1 else 0)"
  using assms by (simp_all add: process_ok_def)

lemma owners_right_start:
  assumes "owners_right p" "process_ok p" "\<forall>t m. calls p t \<noteq> Some (Unlocking m)"
    "thread_start_tracking (shared p) raw tid fs rbp = Some (t, sh)" "fs \<noteq> 0" "tid \<noteq> - 1" "length raw = DDB_MAX_NWAIT"
  shows "owners_right (p\<lparr>shared := sh, calls := (calls p)(t \<mapsto> App)\<rparr>)"
  using thread_start_ok[OF process_okD(1)[OF assms(2)] assms(4-7)] holders_okD(1)[OF process_okD(3)[OF assms(2)]] assms(3)
  by (intro owners_right_frame[OF assms(1-3)]) (auto simp: tid_of_def)

lemma owners_right_end:
  assumes "owners_right p" "process_ok p" "\<forall>t m. calls p t \<noteq> Some (Unlocking m)"
    "calls p t = Some App" "\<forall>m. holder p m \<noteq> Some t" "thread_stop_tracking (shared p) t = Some sh"
  shows "owners_right (p\<lparr>shared := sh, calls := (calls p)(t := None)\<rparr>)"
proof -
  obtain sh' where "thread_stop_tracking (shared p) t = Some sh'" "ddb_lowners sh' = ddb_lowners (shared p)"
      "\<And>u. u \<noteq> t \<Longrightarrow> calls p u \<noteq> None \<Longrightarrow> ddb_thread_infos sh' ! nat u = ddb_thread_infos (shared p) ! nat u"
    using thread_stop_ok[OF process_okD(1)[OF assms(2)] assms(4)] by metis
  then show ?thesis using holders_okD(1)[OF process_okD(3)[OF assms(2)]] assms(3-6)
    by (intro owners_right_frame[OF assms(1-3)]) (auto simp: tid_of_def split: if_splits)
qed

lemma owners_right_lock:
  assumes "owners_right p" "process_ok p" "\<forall>t m. calls p t \<noteq> Some (Unlocking m)"
    "calls p t = Some App" "lock_enter (shared p) t m = Some (tid, widx, sh)"
  shows "owners_right (p\<lparr>shared := sh, calls := (calls p)(t \<mapsto> Locking m tid widx)\<rparr>)"
proof -
  obtain tid' sh' where "lock_enter (shared p) t m = Some (tid', 0, sh')" "ddb_lowners sh' = ddb_lowners (shared p)"
      "same_ids (shared p) sh'"
    using lock_enter_ok[OF process_okD(1)[OF assms(2)] assms(4), of m] by metis
  then have "ddb_lowners sh = ddb_lowners (shared p)" "same_ids (shared p) sh" using assms(5) by simp_all
  then show ?thesis using holders_okD(1)[OF process_okD(3)[OF assms(2)]] assms(3)
      same_ids_tid_of[OF _ process_okD(1)[OF assms(2)]]
    by (intro owners_right_frame[OF assms(1-3)]) auto
qed

lemma owners_right_acquire:
  assumes "owners_right p" "process_ok p" "\<forall>t m. calls p t \<noteq> Some (Unlocking m)"
    "calls p t = Some (Locking m tid widx)" "holder p m = None"
  shows "owners_right (p\<lparr>holder := (holder p)(m \<mapsto> t), calls := (calls p)(t \<mapsto> Locked m tid widx)\<rparr>)"
  using holders_okD(1)[OF process_okD(3)[OF assms(2)]] assms(3-5)
  by (intro owners_right_frame[OF assms(1-3)]) auto

lemma lock_returns_facts:
  assumes "process_ok p" "calls p t = Some (Locked m tid widx)" "lock_leave (shared p) t m tid widx = Some sh"
  shows "same_ids (shared p) sh" "owners (ddb_lowners sh) = add_mset (m, tid) (owners (ddb_lowners (shared p)))"
    "holder p m = Some t" "tid_of (shared p) t = tid"
proof -
  note ok = process_okD[OF assms(1)]
  have room: "o_n (ddb_lowners (shared p)) < int (length (lowner_entries (ddb_lowners (shared p))))"
    using lock_leave_full[OF ok(1) assms(2) ok(2)] assms(3) by auto
  show "same_ids (shared p) sh" "owners (ddb_lowners sh) = add_mset (m, tid) (owners (ddb_lowners (shared p)))"
    using lock_leave_ok[OF ok(1) assms(2) ok(2) room] assms(3) by auto
  show "holder p m = Some t" by (rule holders_okD(2)[OF ok(3) assms(2)])
  show "tid_of (shared p) t = tid" using threads_ok_index(5)[OF ok(1) assms(2)] by (simp add: thread_ok_def tid_of_def)
qed

lemma owners_right_locked:
  assumes "owners_right p" "process_ok p" "\<forall>t m. calls p t \<noteq> Some (Unlocking m)"
    "calls p t = Some (Locked m tid widx)" "lock_leave (shared p) t m tid widx = Some sh"
  shows "owners_right (p\<lparr>shared := sh, calls := (calls p)(t \<mapsto> App)\<rparr>)"
proof -
  note f = lock_returns_facts[OF assms(2,4,5)]
  have same: "tid_of sh u = tid_of (shared p) u" if "calls p u \<noteq> None" for u
    using same_ids_tid_of[OF f(1) process_okD(1)[OF assms(2)] that] .
  then have "tid_of sh t = tid" using assms(4) f(4) by simp
  then show ?thesis using same holders_okD(1)[OF process_okD(3)[OF assms(2)]] assms(3) f(2,3)
    by (intro owners_right_frame[OF assms(1-3)]) auto
qed

lemma owners_right_release:
  assumes "owners_right p" "\<forall>t m. calls p t \<noteq> Some (Unlocking m)" "calls p t = Some App" "holder p m = Some t"
  shows "owners_right (p\<lparr>holder := (holder p)(m := None), calls := (calls p)(t \<mapsto> Unlocking m)\<rparr>)"
proof (rule owners_rightI)
  let ?cs = "(calls p)(t \<mapsto> Unlocking m)" and ?h = "(holder p)(m := None)"
  let ?p = "p\<lparr>holder := ?h, calls := ?cs\<rparr>"
  show "calls ?p = ?cs" "holder ?p = ?h" "shared ?p = shared p" by simp_all
  have new: "u = t \<and> k = m" if "?cs u = Some (Unlocking k)" for u k using that assms(2) by (auto split: if_splits)
  show "?h k = None" if "?cs u = Some (Unlocking k)" for u k using new[OF that] by simp
  show "v = u" if "?cs u = Some (Unlocking k)" "?cs v = Some (Unlocking l)" for u k v l using new[OF that(1)] new[OF that(2)] by simp
  show "\<exists>u. (?h k = Some u \<or> ?cs u = Some (Unlocking k)) \<and> tid_of (shared p) u = j"
    if kj: "(k, j) \<in># owners (ddb_lowners (shared p))" for k j
  proof -
    obtain v where "holder p k = Some v" "tid_of (shared p) v = j" using owners_rightD(3)[OF assms(1) kj] assms(2) by blast
    then show ?thesis using assms(4) by (cases "k = m") auto
  qed
qed

lemma owners_right_unlocked:
  assumes right: "owners_right p" and ok: "process_ok p" and t: "calls p t = Some (Unlocking m)" and sh: "unlock_leave (shared p) m = Some sh"
  shows "owners_right (p\<lparr>shared := sh, calls := (calls p)(t \<mapsto> App)\<rparr>)"
proof -
  let ?lo = "ddb_lowners (shared p)"
  have only: "u = t \<and> k = m" if "calls p u = Some (Unlocking k)" for u k
    using owners_rightD(2)[OF right t that] that t by simp
  have free: "holder p m = None" by (rule owners_rightD(1)[OF right t])
  have "unlockers (calls p) m = {t}" using only t unfolding unlockers_def by blast
  then have one: "count (image_mset fst (owners ?lo)) m = 1"
    using process_okD(5)[OF ok, of m] free by (simp add: registered_def)
  obtain lo where lo: "unregister_owner ?lo m 0 = Some lo"
      "owners lo = owners ?lo \<and> (\<forall>t. (m, t) \<notin># owners ?lo) \<or> (\<exists>t. (m, t) \<in># owners ?lo \<and> owners lo = owners ?lo - {#(m, t)#})"
    using unregister_removes[OF process_okD(2)[OF ok]] by metis
  have eq: "sh = (shared p)\<lparr>ddb_lowners := lo\<rparr>" using sh lo(1) by (simp add: unlock_leave_def)
  have "0 < count (image_mset fst (owners ?lo)) m" using one by simp
  then have "m \<in># image_mset fst (owners ?lo)" by (simp only: count_greater_zero_iff)
  then have "\<exists>j. (m, j) \<in># owners ?lo" by auto
  then obtain i where i: "(m, i) \<in># owners ?lo" "owners lo = owners ?lo - {#(m, i)#}" using lo(2) by blast
  then have "count (image_mset fst (owners lo)) m = 0" using one by (simp add: image_fst_remove)
  then have "m \<notin># image_mset fst (owners lo)" by (simp only: not_in_iff)
  then have none: "(m, j) \<notin># owners lo" for j by (auto simp: image_iff)
  have "\<exists>u. holder p k = Some u \<and> tid_of (shared p) u = j" if "(k, j) \<in># owners lo" for k j
  proof -
    have "(k, j) \<in># owners ?lo" using in_diffD[OF that[unfolded i(2)]] .
    moreover have "k \<noteq> m" using that none by blast
    ultimately show ?thesis using owners_rightD(3)[OF right] only by blast
  qed
  note shown = this
  have no_unlock: "((calls p)(t \<mapsto> App)) u \<noteq> Some (Unlocking k)" for u k using only[of u k] by (cases "u = t") auto
  show ?thesis
  proof (rule owners_rightI)
    let ?p = "p\<lparr>shared := sh, calls := (calls p)(t \<mapsto> App)\<rparr>"
    show "calls ?p = (calls p)(t \<mapsto> App)" "holder ?p = holder p" "shared ?p = sh" by simp_all
    show "\<exists>u. (holder p k = Some u \<or> ((calls p)(t \<mapsto> App)) u = Some (Unlocking k)) \<and> tid_of sh u = j"
      if "(k, j) \<in># owners (ddb_lowners sh)" for k j
    proof -
      have "(k, j) \<in># owners lo" using that by (simp add: eq)
      from shown[OF this] show ?thesis by (auto simp: eq tid_of_def)
    qed
  qed (use no_unlock in blast)+
qed

lemma calm_step_right:
  assumes "calm_step p p'" "process_ok p" "owners_right p"
  shows "owners_right p'"
proof -
  have "shim_step p p'" and calm: "\<And>t m. calls p t = Some (Unlocking m) \<Longrightarrow> calls p' t = Some App"
    using assms(1) by (auto simp: calm_step_def)
  then show ?thesis
  proof (cases rule: shim_step.cases)
    case (thread_starts raw tid fs rbp t sh)
    have "calls p t = None" using thread_start_ok[OF process_okD(1)[OF assms(2)] thread_starts(2-5)] by blast
    then have "calls p u \<noteq> Some (Unlocking k)" for u k
      using calm[of u k] by (cases "u = t") (auto simp: thread_starts(1))
    then have "\<forall>u k. calls p u \<noteq> Some (Unlocking k)" by blast
    then show ?thesis unfolding thread_starts(1) by (rule owners_right_start[OF assms(3,2) _ thread_starts(2-5)])
  next
    case (thread_ends t sh)
    have "calls p u \<noteq> Some (Unlocking k)" for u k
      using calm[of u k] thread_ends(2) by (cases "u = t") (auto simp: thread_ends(1))
    then have "\<forall>u k. calls p u \<noteq> Some (Unlocking k)" by blast
    then show ?thesis unfolding thread_ends(1) by (rule owners_right_end[OF assms(3,2) _ thread_ends(2-4)])
  next
    case (lock_called t m tid widx sh)
    have "calls p u \<noteq> Some (Unlocking k)" for u k
      using calm[of u k] lock_called(2) by (cases "u = t") (auto simp: lock_called(1))
    then have "\<forall>u k. calls p u \<noteq> Some (Unlocking k)" by blast
    then show ?thesis unfolding lock_called(1) by (rule owners_right_lock[OF assms(3,2) _ lock_called(2-3)])
  next
    case (lock_acquired t m tid widx)
    have "calls p u \<noteq> Some (Unlocking k)" for u k
      using calm[of u k] lock_acquired(2) by (cases "u = t") (auto simp: lock_acquired(1))
    then have "\<forall>u k. calls p u \<noteq> Some (Unlocking k)" by blast
    then show ?thesis unfolding lock_acquired(1) by (rule owners_right_acquire[OF assms(3,2) _ lock_acquired(2-3)])
  next
    case (lock_returns t m tid widx sh)
    have "calls p u \<noteq> Some (Unlocking k)" for u k
      using calm[of u k] lock_returns(2) by (cases "u = t") (auto simp: lock_returns(1))
    then have "\<forall>u k. calls p u \<noteq> Some (Unlocking k)" by blast
    then show ?thesis unfolding lock_returns(1) by (rule owners_right_locked[OF assms(3,2) _ lock_returns(2-3)])
  next
    case (unlock_released t m)
    have "calls p u \<noteq> Some (Unlocking k)" for u k
      using calm[of u k] unlock_released(2) by (cases "u = t") (auto simp: unlock_released(1))
    then have "\<forall>u k. calls p u \<noteq> Some (Unlocking k)" by blast
    then show ?thesis unfolding unlock_released(1) by (rule owners_right_release[OF assms(3) _ unlock_released(2-3)])
  next
    case (unlock_returns t m sh)
    show ?thesis unfolding unlock_returns(1) by (rule owners_right_unlocked[OF assms(3,2) unlock_returns(2-3)])
  qed
qed

lemma calm_reach_right:
  assumes "fs \<noteq> 0" "tid \<noteq> - 1" "length raw = DDB_MAX_NWAIT" "calm_step\<^sup>*\<^sup>* (process_init raw tid fs rbp) p"
  shows "process_ok p \<and> owners_right p"
  using assms(4)
proof (induction rule: rtranclp_induct)
  case base
  show ?case using process_init_ok[OF assms(1-3)]
    by (auto simp: owners_right_def process_init_def ddbInit_def owners_def in_use_def split: if_splits)
next
  case (step y z)
  then show ?case using calm_step_right shim_step_ok by (auto simp: calm_step_def)
qed

section \<open>Executing a schedule\<close>

text \<open>An executable schedule: which thread does which of the steps, and the run it gives.\<close>

datatype shim_action =
  Start "ddb_wait_entry list" int "64 word" "64 word"
| Lock int "64 word"
| Acquire int
| Return int
| Unlock int "64 word"

definition shim_exec :: "process \<Rightarrow> shim_action \<Rightarrow> process option" where
  "shim_exec p a = (case a of
     Start raw tid fs rbp \<Rightarrow>
       if fs \<noteq> 0 \<and> tid \<noteq> - 1 \<and> length raw = DDB_MAX_NWAIT then do {
         (t, sh) \<leftarrow> thread_start_tracking (shared p) raw tid fs rbp;
         Some (p\<lparr>shared := sh, calls := (calls p)(t \<mapsto> App)\<rparr>)
       } else None
   | Lock t m \<Rightarrow>
       if calls p t = Some App then do {
         (tid, widx, sh) \<leftarrow> lock_enter (shared p) t m;
         Some (p\<lparr>shared := sh, calls := (calls p)(t \<mapsto> Locking m tid widx)\<rparr>)
       } else None
   | Acquire t \<Rightarrow> (case calls p t of
         Some (Locking m tid widx) \<Rightarrow>
           if holder p m = None
           then Some (p\<lparr>holder := (holder p)(m \<mapsto> t), calls := (calls p)(t \<mapsto> Locked m tid widx)\<rparr>)
           else None
       | _ \<Rightarrow> None)
   | Return t \<Rightarrow> (case calls p t of
         Some (Locked m tid widx) \<Rightarrow> do {
           sh \<leftarrow> lock_leave (shared p) t m tid widx;
           Some (p\<lparr>shared := sh, calls := (calls p)(t \<mapsto> App)\<rparr>)
         }
       | Some (Unlocking m) \<Rightarrow> do {
           sh \<leftarrow> unlock_leave (shared p) m;
           Some (p\<lparr>shared := sh, calls := (calls p)(t \<mapsto> App)\<rparr>)
         }
       | _ \<Rightarrow> None)
   | Unlock t m \<Rightarrow>
       if calls p t = Some App \<and> holder p m = Some t
       then Some (p\<lparr>holder := (holder p)(m := None), calls := (calls p)(t \<mapsto> Unlocking m)\<rparr>)
       else None)"

fun shim_run :: "process \<Rightarrow> shim_action list \<Rightarrow> process option" where
  "shim_run p [] = Some p"
| "shim_run p (a # as) = do { p \<leftarrow> shim_exec p a; shim_run p as }"

lemma shim_exec_step: "shim_exec p a = Some p' \<Longrightarrow> shim_step p p'"
  unfolding shim_exec_def
  by (cases a) (auto elim!: do_elims intro: shim_step.intros split: option.splits shim_pc.splits if_splits)

lemma shim_run_steps: "shim_run p as = Some p' \<Longrightarrow> shim_step\<^sup>*\<^sup>* p p'"
  by (induction as arbitrary: p) (auto elim!: do_elims intro: converse_rtranclp_into_rtranclp dest: shim_exec_step)

definition ex_process :: process where
  "ex_process = process_init (replicate 128 zero_wait) 100 4096 8192"

definition ex_calm :: "shim_action list" where
  "ex_calm = [Start (replicate 128 zero_wait) 101 12288 16384, Lock 1 16, Acquire 1, Return 1, Lock 0 32, Acquire 0, Return 0]"

definition ex_overlap :: "shim_action list" where
  "ex_overlap = ex_calm @ [Unlock 0 32, Unlock 1 16, Return 1, Lock 1 32, Acquire 1, Return 1, Return 0]"

lemma ex_calm_run:
  "case shim_run ex_process ex_calm of None \<Rightarrow> False | Some p \<Rightarrow>
     calls p 0 = Some App \<and> calls p 1 = Some App \<and> ddb_max_idx (shared p) = 2 \<and>
     holder p 16 = Some 1 \<and> holder p 32 = Some 0 \<and>
     size (owners (ddb_lowners (shared p))) = 2 \<and> tid_of (shared p) 0 = 100"
  by code_simp

lemma ex_overlap_run:
  "case shim_run ex_process ex_overlap of None \<Rightarrow> False | Some p \<Rightarrow>
     calls p 0 = Some App \<and> calls p 1 = Some App \<and> ddb_nthread (shared p) = 2 \<and> tid_of (shared p) 1 = 101 \<and>
     holder p 32 = Some 1 \<and> owners (ddb_lowners (shared p)) = {#(32, 100)#}"
  by code_simp

lemma ex_calm_state:
  obtains p where "shim_step\<^sup>*\<^sup>* (process_init (replicate 128 zero_wait) 100 4096 8192) p"
    "calls p 0 = Some App" "calls p 1 = Some App" "ddb_max_idx (shared p) = 2" "holder p 32 = Some 0"
    "size (owners (ddb_lowners (shared p))) = 2" "tid_of (shared p) 0 = 100"
  using ex_calm_run shim_run_steps[of ex_process ex_calm] by (auto simp: ex_process_def split: option.splits)

text \<open>No two mutexes are released in the first schedule, so that it is a calm run.\<close>

definition no_unlock :: "shim_action \<Rightarrow> bool" where
  "no_unlock a \<longleftrightarrow> (case a of Unlock _ _ \<Rightarrow> False | _ \<Rightarrow> True)"

lemma shim_exec_calm:
  assumes "shim_exec p a = Some p'" "no_unlock a" "\<forall>t m. calls p t \<noteq> Some (Unlocking m)"
  shows "calm_step p p' \<and> (\<forall>t m. calls p' t \<noteq> Some (Unlocking m))"
  using assms shim_exec_step[OF assms(1)] unfolding shim_exec_def calm_step_def no_unlock_def
  by (cases a) (auto elim!: do_elims split: option.splits shim_pc.splits if_splits)

lemma shim_run_calm:
  "shim_run p as = Some p' \<Longrightarrow> \<forall>a \<in> set as. no_unlock a \<Longrightarrow> \<forall>t m. calls p t \<noteq> Some (Unlocking m) \<Longrightarrow> calm_step\<^sup>*\<^sup>* p p'"
proof (induction as arbitrary: p)
  case (Cons a as)
  then obtain q where q: "shim_exec p a = Some q" "shim_run q as = Some p'" by (auto elim!: do_elims)
  then have "calm_step p q" "calm_step\<^sup>*\<^sup>* q p'" using shim_exec_calm[OF q(1)] Cons by auto
  then show ?case by (rule converse_rtranclp_into_rtranclp)
qed simp

section \<open>What the segment shows\<close>

text \<open>
  C28. Segment contents. In every interleaving of threads that start, end, lock and unlock mutexes,
  the segment shows a running thread to wait for a mutex exactly from its call of the lock function
  until the function returns, and for no other; and when no call is in progress the owner table has
  one entry for each mutex that is held and none for any other.
\<close>

theorem segment_shows_locks:
  assumes "fs \<noteq> 0" "tid \<noteq> - 1" "length raw = DDB_MAX_NWAIT"
    and "shim_step\<^sup>*\<^sup>* (process_init raw tid fs rbp) p"
  shows "(calls p t = Some c \<longrightarrow>
      map_option waits (wbuf (ddb_thread_infos (shared p) ! nat t)) =
        Some (case c of Locking m _ _ \<Rightarrow> {#m#} | Locked m _ _ \<Rightarrow> {#m#} | _ \<Rightarrow> {#})) \<and>
    ((\<forall>u d. calls p u = Some d \<longrightarrow> d = App) \<longrightarrow>
      count (image_mset fst (owners (ddb_lowners (shared p)))) m = (if holder p m = None then 0 else 1))"
proof (intro conjI impI)
  note ok = process_reach_ok[OF assms]
  assume "calls p t = Some c"
  from threads_ok_waits[OF process_okD(1)[OF ok] this]
  show "map_option waits (wbuf (ddb_thread_infos (shared p) ! nat t)) =
      Some (case c of Locking m _ _ \<Rightarrow> {#m#} | Locked m _ _ \<Rightarrow> {#m#} | _ \<Rightarrow> {#})" by (cases c) simp_all
next
  note ok = process_reach_ok[OF assms]
  assume quiet: "\<forall>u d. calls p u = Some d \<longrightarrow> d = App"
  have "unlockers (calls p) m = {}" using quiet by (force simp: unlockers_def)
  moreover have "registered (holder p) (calls p) m \<longleftrightarrow> holder p m \<noteq> None" using quiet by (force simp: registered_def)
  ultimately show "count (image_mset fst (owners (ddb_lowners (shared p)))) m = (if holder p m = None then 0 else 1)"
    using process_okD(5)[OF ok, of m] by simp
qed

theorem segment_shows_locks_witness:
  "\<exists>p :: process. map_option waits (wbuf (ddb_thread_infos (shared p) ! 0)) = Some {#} \<and> holder p 32 = Some 0 \<and>
     count (image_mset fst (owners (ddb_lowners (shared p)))) 32 = 1"
proof -
  obtain p where p: "shim_step\<^sup>*\<^sup>* (process_init (replicate 128 zero_wait) 100 4096 8192) p"
      "calls p 0 = Some App" "calls p 1 = Some App" "ddb_max_idx (shared p) = 2" "holder p 32 = Some 0"
    using ex_calm_state by blast
  have ok: "process_ok p" using process_reach_ok[OF _ _ _ p(1)] by simp
  have "d = App" if d: "calls p u = Some d" for u d
  proof -
    have "u = 0 \<or> u = 1" using threads_ok_index(1,2)[OF process_okD(1)[OF ok] d] p(4) by auto
    then show ?thesis using d p(2,3) by auto
  qed
  then have "map_option waits (wbuf (ddb_thread_infos (shared p) ! nat 0)) = Some {#}"
      "count (image_mset fst (owners (ddb_lowners (shared p)))) 32 = 1"
    using segment_shows_locks[OF _ _ _ p(1), of 0 App 32] p(2,5) by (simp_all del: map_option_eq_Some)
  then show ?thesis using p(5) by (intro exI[of _ p]) (simp del: map_option_eq_Some)
qed

text \<open>
  C29. The owner shown. As long as no thread takes a step between the release of a mutex and the
  removal of its entry, the owner table names the holder of every mutex: the only entry of the
  mutex carries the thread identifier of the thread that holds it.
\<close>

theorem owner_shown_calm:
  assumes "fs \<noteq> 0" "tid \<noteq> - 1" "length raw = DDB_MAX_NWAIT"
    and "calm_step\<^sup>*\<^sup>* (process_init raw tid fs rbp) p" and "holder p m = Some t" "calls p t = Some App"
  shows "filter_mset (\<lambda>e. fst e = m) (owners (ddb_lowners (shared p))) = {#(m, tid_of (shared p) t)#}"
proof -
  let ?M = "owners (ddb_lowners (shared p))"
  have ok: "process_ok p" "owners_right p" using calm_reach_right[OF assms(1-4)] by blast+
  have "unlockers (calls p) m = {}" using owners_rightD(1)[OF ok(2), of _ m] assms(5) by (force simp: unlockers_def)
  then have "count (image_mset fst ?M) m = 1"
    using process_okD(5)[OF ok(1), of m] assms(5,6) by (auto simp: registered_def)
  then obtain x where x: "filter_mset (\<lambda>e. fst e = m) ?M = {#x#}"
    unfolding count_image_size by (metis size_1_singleton_mset)
  moreover have "e = (m, tid_of (shared p) t)" if mem: "e \<in># filter_mset (\<lambda>e. fst e = m) ?M" for e
  proof -
    obtain i where e: "e = (m, i)" "(m, i) \<in># ?M" using mem by (cases e) auto
    obtain u where "holder p m = Some u \<or> calls p u = Some (Unlocking m)" "tid_of (shared p) u = i" using owners_rightD(3)[OF ok(2) e(2)] by blast
    then show ?thesis using e(1) assms(5) owners_rightD(1)[OF ok(2), of u m] by auto
  qed
  ultimately show ?thesis by simp
qed

theorem owner_shown_calm_witness:
  "\<exists>p. calm_step\<^sup>*\<^sup>* ex_process p \<and> holder p 32 = Some 0 \<and>
     filter_mset (\<lambda>e. fst e = 32) (owners (ddb_lowners (shared p))) = {#(32, 100)#}"
proof -
  obtain p where p: "shim_run ex_process ex_calm = Some p" "calls p 0 = Some App" "holder p 32 = Some 0" "tid_of (shared p) 0 = 100"
    using ex_calm_run by (auto split: option.splits)
  have "calm_step\<^sup>*\<^sup>* ex_process p"
    using shim_run_calm[OF p(1)] by (simp add: ex_calm_def no_unlock_def ex_process_def process_init_def)
  then show ?thesis using owner_shown_calm[of 4096 100 "replicate 128 zero_wait" 8192 p 32 0] p(2-4)
    by (auto simp: ex_process_def)
qed


text \<open>
  C31. Registering an owner. In every reachable state, a call of \<open>pthread_mutex_lock\<close> whose real
  function returns adds one entry for the mutex and the calling thread to the owner table and
  returns what the real function returned, whatever that is: a failed lock is registered as well.
  It does so exactly as long as the table has fewer than \<open>DDB_MAX_NLOCK\<close> entries; with that many it
  writes behind the end of the table.
\<close>

theorem lock_registers_owner:
  assumes "fs \<noteq> 0" "tid \<noteq> - 1" "length raw = DDB_MAX_NWAIT"
    and "shim_step\<^sup>*\<^sup>* (process_init raw tid fs rbp) p" and t: "calls p t = Some App"
    and real: "real s m = Some (ret, s')"
  shows "if size (owners (ddb_lowners (shared p))) < DDB_MAX_NLOCK
    then \<exists>sh. pthread_mutex_lock False real t m (Some (shared p), s) = Some (ret, Some sh, s') \<and>
      owners (ddb_lowners sh) = add_mset (m, tid_of (shared p) t) (owners (ddb_lowners (shared p)))
    else pthread_mutex_lock False real t m (Some (shared p), s) = None"
proof -
  note ok = process_okD[OF process_reach_ok[OF assms(1-4)]]
  let ?lo = "ddb_lowners (shared p)"
  obtain i sh where sh: "lock_enter (shared p) t m = Some (i, 0, sh)" "threads_ok sh ((calls p)(t \<mapsto> Locking m i 0))"
      "ddb_lowners sh = ?lo" "i = t_id (ddb_thread_infos (shared p) ! nat t)"
    using lock_enter_ok[OF ok(1) t] by metis
  let ?cs = "(calls p)(t \<mapsto> Locked m i 0)"
  have "locals_ok (ddb_thread_infos sh ! nat t) (Locking m i 0)"
    using threads_ok_index(5)[OF sh(2), of t "Locking m i 0"] by (simp add: thread_ok_def)
  then have th: "threads_ok sh ?cs" using threads_ok_move[OF sh(2), of t "Locking m i 0" "Locked m i 0"] by simp
  have at: "?cs t = Some (Locked m i 0)" by simp
  have n: "o_n ?lo < int (length (lowner_entries ?lo)) \<longleftrightarrow> size (owners ?lo) < DDB_MAX_NLOCK"
    using owners_size[OF ok(2)] ok(4) by simp
  have lo: "owners_ok (ddb_lowners sh)" using ok(2) sh(3) by simp
  show ?thesis
  proof (cases "size (owners ?lo) < DDB_MAX_NLOCK")
    case True
    then obtain sh' where "lock_leave sh t m i 0 = Some sh'" "owners (ddb_lowners sh') = add_mset (m, i) (owners ?lo)"
      using lock_leave_ok[OF th at lo] n sh(3) by auto
    then show ?thesis using True sh(1,4) real by (simp add: pthread_mutex_lock_def tid_of_def)
  next
    case False
    then have "lock_leave sh t m i 0 = None" using lock_leave_full[OF th at lo] n sh(3) by simp
    then show ?thesis using False sh(1) real by (simp add: pthread_mutex_lock_def)
  qed
qed

theorem lock_registers_owner_witness:
  "\<exists>(p :: process) sh. pthread_mutex_lock False (\<lambda>s _. Some (35, s)) 0 32 (Some (shared p), 7 :: nat) = Some (35, Some sh, 7) \<and>
     owners (ddb_lowners sh) = add_mset (32, 100) (owners (ddb_lowners (shared p)))"
proof -
  obtain p where p: "shim_step\<^sup>*\<^sup>* (process_init (replicate 128 zero_wait) 100 4096 8192) p" "calls p 0 = Some App"
      "size (owners (ddb_lowners (shared p))) = 2" "tid_of (shared p) 0 = 100"
    using ex_calm_state by metis
  show ?thesis using lock_registers_owner[OF _ _ _ p(1,2), of "\<lambda>s _. Some (35, s)" "7 :: nat" 32 35 7] p(3,4) by auto
qed

end
