(* ===== verification/Entry_Cache.thy ===== *)
theory Entry_Cache
  imports Prelude
begin

text \<open>
  The cache of log entries of the Redis module, \<open>redisraft/src/entrycache.c\<close>: a ring of pointers that
  holds the entries of consecutive log indexes.

  \<^item> The entries are values; \<open>msz e\<close> is the memory of an entry, \<open>sizeof(raft_entry_t) + data_len\<close>.
    Reference counts are not part of the model. NULL is \<open>None\<close>, and holding or releasing NULL aborts.
  \<^item> The memory that \<open>realloc\<close> adds to the ring is taken to be NULL; the ring invariant shows that it
    is written before it is read.
\<close>

section \<open>The ring\<close>

record 'e EntryCache =
  c_size :: int
  c_len :: int
  c_start_idx :: int
  c_start :: int
  entries_memsize :: "64 word"
  c_ptrs :: "'e option list"

definition EntryCacheNew :: "int \<Rightarrow> 'e EntryCache" where
  "EntryCacheNew initial_size =
     \<lparr>c_size = initial_size, c_len = 0, c_start_idx = 0, c_start = 0, entries_memsize = 0,
      c_ptrs = replicate (nat initial_size) None\<rparr>"

definition entry_cache_enlarge :: "'e EntryCache \<Rightarrow> 'e EntryCache" where
  "entry_cache_enlarge c =
     (let new_size = c_size c * 2;
          p = c_ptrs c @ replicate (nat new_size - length (c_ptrs c)) None;
          st = nat (c_start c);
          p = (if c_start c > 0
               then replicate st None @ drop st (take (nat (c_size c)) p) @ take st p @ drop (nat (c_size c) + st) p
               else p)
      in c\<lparr>c_ptrs := p, c_size := new_size\<rparr>)"

definition EntryCacheAppend :: "('e \<Rightarrow> 64 word) \<Rightarrow> 'e EntryCache \<Rightarrow> 'e \<Rightarrow> int \<Rightarrow> 'e EntryCache option" where
  "EntryCacheAppend msz c ety idx = do {
     let c = (if c_start_idx c = 0 then c\<lparr>c_start_idx := idx\<rparr> else c);
     assert_ok (c_start_idx c + c_len c = idx);
     let c = (if c_len c = c_size c then entry_cache_enlarge c else c);
     i \<leftarrow> c_rem (c_start c + c_len c) (c_size c);
     p \<leftarrow> arr_set (c_ptrs c) i (Some ety);
     Some (c\<lparr>c_ptrs := p, c_len := c_len c + 1, entries_memsize := entries_memsize c + msz ety\<rparr>)
   }"

definition EntryCacheGet :: "'e EntryCache \<Rightarrow> int \<Rightarrow> 'e option option" where
  "EntryCacheGet c idx =
     (if idx < c_start_idx c then Some None
      else let relidx = idx - c_start_idx c in
        if relidx \<ge> c_len c then Some None
        else do {
          i \<leftarrow> c_rem (c_start c + relidx) (c_size c);
          p \<leftarrow> arr_get (c_ptrs c) i;
          ety \<leftarrow> p;
          Some (Some ety)
        })"

text \<open>The body of the loops that remove entries from the head.\<close>

definition drop_head :: "('e \<Rightarrow> 64 word) \<Rightarrow> 'e EntryCache \<Rightarrow> 'e EntryCache option" where
  "drop_head msz c = do {
     p \<leftarrow> arr_get (c_ptrs c) (c_start c);
     ety \<leftarrow> p;
     ps \<leftarrow> arr_set (c_ptrs c) (c_start c) None;
     let st = c_start c + 1;
     Some (c\<lparr>entries_memsize := entries_memsize c - msz ety, c_start_idx := c_start_idx c + 1, c_ptrs := ps,
             c_start := (if st \<ge> c_size c then 0 else st), c_len := c_len c - 1\<rparr>)
   }"

lemma drop_head_len: "drop_head msz c = Some c' \<Longrightarrow> c_len c' = c_len c - 1"
  by (auto simp: drop_head_def Let_def elim!: do_elims)

definition reset_empty :: "'e EntryCache \<Rightarrow> 'e EntryCache" where
  "reset_empty c = (if c_len c = 0 then c\<lparr>c_start_idx := 0\<rparr> else c)"

function delete_head_loop ::
  "('e \<Rightarrow> 64 word) \<Rightarrow> 'e EntryCache \<Rightarrow> int \<Rightarrow> int \<Rightarrow> (int \<times> 'e EntryCache) option" where
  "delete_head_loop msz c first_idx deleted =
     (if first_idx > c_start_idx c \<and> c_len c > 0
      then (case drop_head msz c of
              None \<Rightarrow> None
            | Some c' \<Rightarrow> delete_head_loop msz c' first_idx (deleted + 1))
      else Some (deleted, c))"
  by pat_completeness auto
termination by (relation "measure (\<lambda>(msz, c, f, d). nat (c_len c))") (auto dest: drop_head_len)

declare delete_head_loop.simps [simp del]

definition EntryCacheDeleteHead :: "('e \<Rightarrow> 64 word) \<Rightarrow> 'e EntryCache \<Rightarrow> int \<Rightarrow> (int \<times> 'e EntryCache) option" where
  "EntryCacheDeleteHead msz c first_idx =
     (if first_idx < c_start_idx c then Some (- 1, c)
      else do {
        (deleted, c) \<leftarrow> delete_head_loop msz c first_idx 0;
        Some (deleted, reset_empty c)
      })"

text \<open>The loop of \<open>EntryCacheDeleteTail\<close> leaves the length as it is; \<open>bound\<close> is its limit.\<close>

function delete_tail_loop ::
  "('e \<Rightarrow> 64 word) \<Rightarrow> 'e EntryCache \<Rightarrow> int \<Rightarrow> int \<Rightarrow> int \<Rightarrow> (int \<times> 'e EntryCache) option" where
  "delete_tail_loop msz c bound i deleted =
     (if i < bound
      then do {
        ofs \<leftarrow> c_rem (c_start c + (i - c_start_idx c)) (c_size c);
        p \<leftarrow> arr_get (c_ptrs c) ofs;
        ety \<leftarrow> p;
        ps \<leftarrow> arr_set (c_ptrs c) ofs None;
        delete_tail_loop msz (c\<lparr>entries_memsize := entries_memsize c - msz ety, c_ptrs := ps\<rparr>) bound (i + 1) (deleted + 1)
      }
      else Some (deleted, c))"
  by pat_completeness auto
termination by (relation "measure (\<lambda>(msz, c, bound, i, d). nat (bound - i))") auto

declare delete_tail_loop.simps [simp del]

definition EntryCacheDeleteTail :: "('e \<Rightarrow> 64 word) \<Rightarrow> 'e EntryCache \<Rightarrow> int \<Rightarrow> (int \<times> 'e EntryCache) option" where
  "EntryCacheDeleteTail msz c index =
     (if index \<ge> c_start_idx c + c_len c then Some (- 1, c)
      else if index < c_start_idx c then Some (- 1, c)
      else do {
        (deleted, c) \<leftarrow> delete_tail_loop msz c (c_start_idx c + c_len c) index 0;
        Some (deleted, reset_empty (c\<lparr>c_len := c_len c - deleted\<rparr>))
      })"

function compact_loop ::
  "('e \<Rightarrow> 64 word) \<Rightarrow> 'e EntryCache \<Rightarrow> 64 word \<Rightarrow> int \<Rightarrow> int \<Rightarrow> (int \<times> 'e EntryCache) option" where
  "compact_loop msz c max_memory limit deleted =
     (if c_len c > 0 \<and> c_start_idx c \<le> limit \<and> entries_memsize c > max_memory
      then (case drop_head msz c of
              None \<Rightarrow> None
            | Some c' \<Rightarrow> compact_loop msz c' max_memory limit (deleted + 1))
      else Some (deleted, c))"
  by pat_completeness auto
termination by (relation "measure (\<lambda>(msz, c, m, l, d). nat (c_len c))") (auto dest: drop_head_len)

declare compact_loop.simps [simp del]

definition EntryCacheCompact ::
  "('e \<Rightarrow> 64 word) \<Rightarrow> 'e EntryCache \<Rightarrow> 64 word \<Rightarrow> int \<Rightarrow> (int \<times> 'e EntryCache) option" where
  "EntryCacheCompact msz c max_memory limit = do {
     (deleted, c) \<leftarrow> compact_loop msz c max_memory limit 0;
     Some (deleted, reset_empty c)
   }"

text \<open>Freeing the cache releases its entries; the result is the list of them.\<close>

definition EntryCacheFree :: "'e EntryCache \<Rightarrow> 'e list option" where
  "EntryCacheFree c = those (map (\<lambda>i. do {
     k \<leftarrow> c_rem (c_start c + i) (c_size c);
     p \<leftarrow> arr_get (c_ptrs c) k;
     p }) [0..c_len c - 1])"

section \<open>The ring invariant and the list it holds\<close>

definition ring_pos :: "'e EntryCache \<Rightarrow> int \<Rightarrow> nat" where
  "ring_pos c i = nat ((c_start c + i) mod c_size c)"

definition cached :: "'e EntryCache \<Rightarrow> 'e list" where
  "cached c = map (\<lambda>i. the (c_ptrs c ! ring_pos c (int i))) [0..<nat (c_len c)]"

definition ring_ok :: "'e EntryCache \<Rightarrow> bool" where
  "ring_ok c \<longleftrightarrow> 0 < c_size c \<and> length (c_ptrs c) = nat (c_size c) \<and> 0 \<le> c_len c \<and> c_len c \<le> c_size c \<and>
     0 \<le> c_start c \<and> c_start c < c_size c \<and>
     (\<forall>i. 0 \<le> i \<and> i < c_len c \<longrightarrow> c_ptrs c ! ring_pos c i \<noteq> None)"

definition cache_ok :: "('e \<Rightarrow> 64 word) \<Rightarrow> 'e EntryCache \<Rightarrow> bool" where
  "cache_ok msz c \<longleftrightarrow> ring_ok c \<and> entries_memsize c = sum_list (map msz (cached c)) \<and>
     (if c_len c = 0 then c_start_idx c = 0 else 0 < c_start_idx c)"

lemma length_cached [simp]: "length (cached c) = nat (c_len c)"
  by (simp add: cached_def)

lemma nth_cached: "i < nat (c_len c) \<Longrightarrow> cached c ! i = the (c_ptrs c ! ring_pos c (int i))"
  by (simp add: cached_def)

lemma ring_pos_lt: "ring_ok c \<Longrightarrow> ring_pos c i < length (c_ptrs c)"
  by (simp add: ring_ok_def ring_pos_def)

lemma ring_pos_inj:
  assumes "0 < c_size c" "0 \<le> i" "i < c_size c" "0 \<le> j" "j < c_size c"
  shows "ring_pos c i = ring_pos c j \<longleftrightarrow> i = j"
proof -
  have "(c_start c + i) mod c_size c = (c_start c + j) mod c_size c \<longleftrightarrow> i = j"
  proof
    assume "(c_start c + i) mod c_size c = (c_start c + j) mod c_size c"
    then have "c_size c dvd (i - j)" by (simp add: mod_eq_dvd_iff)
    moreover have "\<bar>i - j\<bar> < c_size c" using assms by auto
    ultimately show "i = j" using dvd_imp_le_int[of "i - j" "c_size c"] by auto
  qed simp
  then show ?thesis using assms(1) by (simp add: ring_pos_def eq_nat_nat_iff)
qed

lemma ring_pos_0: "ring_ok c \<Longrightarrow> ring_pos c 0 = nat (c_start c)"
  by (simp add: ring_ok_def ring_pos_def)

lemma c_rem_ring: "ring_ok c \<Longrightarrow> 0 \<le> i \<Longrightarrow> c_rem (c_start c + i) (c_size c) = Some (int (ring_pos c i))"
  by (simp add: ring_ok_def ring_pos_def c_rem_nonneg)

lemma ring_get:
  assumes "ring_ok c" "0 \<le> i" "i < c_len c"
  shows "arr_get (c_ptrs c) (int (ring_pos c i)) = Some (Some (cached c ! nat i))"
proof -
  have "c_ptrs c ! ring_pos c i \<noteq> None" using assms by (simp add: ring_ok_def)
  then show ?thesis using assms ring_pos_lt[OF assms(1), of i] by (auto simp: arr_get_def nth_cached)
qed

lemma EntryCacheGet_cached:
  assumes "ring_ok c"
  shows "EntryCacheGet c idx = Some (if c_start_idx c \<le> idx \<and> idx < c_start_idx c + c_len c
     then Some (cached c ! nat (idx - c_start_idx c)) else None)"
  using assms c_rem_ring[OF assms, of "idx - c_start_idx c"] ring_get[OF assms, of "idx - c_start_idx c"]
  by (auto simp: EntryCacheGet_def Let_def)

lemma EntryCacheFree_cached:
  assumes "ring_ok c"
  shows "EntryCacheFree c = Some (cached c)"
proof -
  have "those (map (\<lambda>i. do { k \<leftarrow> c_rem (c_start c + i) (c_size c); p \<leftarrow> arr_get (c_ptrs c) k; p }) [0..c_len c - 1]) =
      Some (map (\<lambda>i. cached c ! nat i) [0..c_len c - 1])"
    using c_rem_ring[OF assms] ring_get[OF assms] by (intro those_map_Some) auto
  also have "map (\<lambda>i. cached c ! nat i) [0..c_len c - 1] = cached c" by (intro nth_equalityI) auto
  finally show ?thesis by (simp add: EntryCacheFree_def)
qed

text \<open>Removing the first entry.\<close>

lemma drop_head_ok:
  assumes ok: "ring_ok c" and len: "0 < c_len c"
  obtains c' where "drop_head msz c = Some c'" "ring_ok c'" "cached c' = tl (cached c)" "c_len c' = c_len c - 1"
    "c_start_idx c' = c_start_idx c + 1" "entries_memsize c' = entries_memsize c - msz (hd (cached c))"
proof -
  let ?st = "if c_start c + 1 \<ge> c_size c then 0 else c_start c + 1"
  let ?c = "c\<lparr>entries_memsize := entries_memsize c - msz (cached c ! 0), c_start_idx := c_start_idx c + 1,
    c_ptrs := (c_ptrs c)[nat (c_start c) := None], c_start := ?st, c_len := c_len c - 1\<rparr>"
  have c: "0 \<le> c_start c" "c_start c < c_size c" "length (c_ptrs c) = nat (c_size c)" "c_len c \<le> c_size c"
    using ok by (simp_all add: ring_ok_def)
  have st: "?st = (c_start c + 1) mod c_size c" using c by (cases "c_start c + 1 = c_size c") auto
  have "(?st + i) mod c_size c = (c_start c + 1 + i) mod c_size c" for i unfolding st by (rule mod_add_left_eq)
  then have pos: "ring_pos ?c i = ring_pos c (i + 1)" for i by (simp add: ring_pos_def add.assoc add.commute[of 1])
  have nth: "c_ptrs ?c ! ring_pos ?c i = c_ptrs c ! ring_pos c (i + 1)" if "0 \<le> i" "i < c_len c - 1" for i
    using that c ring_pos_inj[of c "i + 1" 0] ring_pos_0[OF ok] by (simp add: pos)
  have "drop_head msz c = Some ?c"
    using ring_get[OF ok, of 0] len ring_pos_0[OF ok] c by (simp add: drop_head_def arr_set_def Let_def)
  moreover have "ring_ok ?c" using ok len nth by (auto simp: ring_ok_def)
  moreover have "cached ?c = tl (cached c)"
  proof (rule nth_equalityI)
    show "length (cached ?c) = length (tl (cached c))" using len by simp
    fix i assume "i < length (cached ?c)"
    then have i: "i < nat (c_len c - 1)" by simp
    then have "cached ?c ! i = the (c_ptrs c ! ring_pos c (int i + 1))" using nth[of "int i"] by (subst nth_cached) auto
    also have "\<dots> = cached c ! Suc i" using i by (subst nth_cached) (auto simp: algebra_simps)
    finally show "cached ?c ! i = tl (cached c) ! i" using i by (simp add: nth_tl)
  qed
  moreover have "hd (cached c) = cached c ! 0" using len by (intro hd_conv_nth) (simp add: cached_def)
  ultimately show ?thesis using that by simp
qed

text \<open>Enlarging a full ring, and appending.\<close>

lemma nth_enlarged:
  assumes "length ptrs = n" "st < n" "st \<le> k" "k < st + n"
  shows "(replicate st None @ drop st (take n (ptrs @ x)) @ take st (ptrs @ x) @ drop (n + st) (ptrs @ x)) ! k = ptrs ! (k mod n)"
proof (cases "k < n")
  case True
  then show ?thesis using assms by (auto simp: nth_append)
next
  case False
  then have "k mod n = k - n" using assms by (simp add: le_mod_geq)
  then show ?thesis using assms False by (auto simp: nth_append)
qed

lemma enlarge_ok:
  assumes ok: "ring_ok c" and full: "c_len c = c_size c"
  shows "ring_ok (entry_cache_enlarge c)" "cached (entry_cache_enlarge c) = cached c"
    "c_len (entry_cache_enlarge c) < c_size (entry_cache_enlarge c)" "c_len (entry_cache_enlarge c) = c_len c"
    "c_start_idx (entry_cache_enlarge c) = c_start_idx c" "entries_memsize (entry_cache_enlarge c) = entries_memsize c"
proof -
  let ?c = "entry_cache_enlarge c" and ?n = "nat (c_size c)" and ?st = "nat (c_start c)"
  have c: "0 \<le> c_start c" "c_start c < c_size c" "length (c_ptrs c) = ?n" "0 < c_size c" using ok by (simp_all add: ring_ok_def)
  have len: "length (c_ptrs ?c) = nat (c_size ?c)" using c by (simp add: entry_cache_enlarge_def Let_def)
  have size: "c_size ?c = c_size c * 2" "c_start ?c = c_start c" by (simp_all add: entry_cache_enlarge_def Let_def)
  have nth: "c_ptrs ?c ! ring_pos ?c i = c_ptrs c ! ring_pos c i" if "0 \<le> i" "i < c_len c" for i
  proof -
    have pos: "ring_pos ?c i = ?st + nat i" "ring_pos c i = (?st + nat i) mod ?n"
      using that full c by (simp_all add: ring_pos_def size nat_mod_distrib nat_add_distrib)
    show ?thesis
    proof (cases "c_start c > 0")
      case True
      then have "c_ptrs ?c = replicate ?st None @ drop ?st (take ?n (c_ptrs c @ replicate ?n None)) @
          take ?st (c_ptrs c @ replicate ?n None) @ drop (?n + ?st) (c_ptrs c @ replicate ?n None)"
        using c by (simp add: entry_cache_enlarge_def Let_def nat_mult_distrib)
      then show ?thesis using that full c unfolding pos by (simp only:) (rule nth_enlarged, auto)
    next
      case False
      then show ?thesis using that full c unfolding pos by (simp add: entry_cache_enlarge_def Let_def nth_append)
    qed
  qed
  show "c_len ?c = c_len c" "c_start_idx ?c = c_start_idx c" "entries_memsize ?c = entries_memsize c"
    by (simp_all add: entry_cache_enlarge_def Let_def)
  then show "c_len ?c < c_size ?c" using c full size by simp
  show "ring_ok ?c" using ok nth len size c full \<open>c_len ?c = c_len c\<close> by (auto simp: ring_ok_def)
  show "cached ?c = cached c" using nth \<open>c_len ?c = c_len c\<close> by (simp add: cached_def)
qed

lemma push_ok:
  assumes ok: "ring_ok c" and room: "c_len c < c_size c"
    and c': "c' = c\<lparr>c_ptrs := (c_ptrs c)[ring_pos c (c_len c) := Some e], c_len := c_len c + 1, entries_memsize := m\<rparr>"
  shows "ring_ok c'" "cached c' = cached c @ [e]"
proof -
  have len: "0 \<le> c_len c" using ok by (simp add: ring_ok_def)
  have pos: "ring_pos c' i = ring_pos c i" for i by (simp add: c' ring_pos_def)
  have nth: "c_ptrs c' ! ring_pos c' i = (if i = c_len c then Some e else c_ptrs c ! ring_pos c i)"
    if "0 \<le> i" "i \<le> c_len c" for i
    using that room len ring_pos_inj[of c i "c_len c"] ring_pos_lt[OF ok, of "c_len c"]
    unfolding pos by (auto simp: c' nth_list_update)
  show "ring_ok c'"
  proof -
    have "c_ptrs c' ! ring_pos c' i \<noteq> None" if "0 \<le> i" "i < c_len c + 1" for i
      using nth[of i] that ok by (auto simp: ring_ok_def)
    then show ?thesis using ok room by (simp add: ring_ok_def c')
  qed
  show "cached c' = cached c @ [e]"
  proof (rule nth_equalityI)
    show "length (cached c') = length (cached c @ [e])" using len by (simp add: c')
    fix i assume "i < length (cached c')"
    then have i: "int i \<le> c_len c" "i < nat (c_len c')" using len by (simp_all add: c')
    then show "cached c' ! i = (cached c @ [e]) ! i"
      using nth[of "int i"] nth_cached[OF i(2)] nth_cached[of i c] len by (auto simp: nth_append)
  qed
qed

lemma EntryCacheAppend_ok:
  assumes ok: "cache_ok msz c" and idx: "0 < idx" "c_len c = 0 \<or> idx = c_start_idx c + c_len c"
  obtains c' where "EntryCacheAppend msz c ety idx = Some c'" "cache_ok msz c'" "cached c' = cached c @ [ety]"
    "c_start_idx c' = (if c_len c = 0 then idx else c_start_idx c)"
proof -
  define c1 where "c1 = (if c_start_idx c = 0 then c\<lparr>c_start_idx := idx\<rparr> else c)"
  define c2 where "c2 = (if c_len c1 = c_size c1 then entry_cache_enlarge c1 else c1)"
  define c3 where "c3 = c2\<lparr>c_ptrs := (c_ptrs c2)[ring_pos c2 (c_len c2) := Some ety], c_len := c_len c2 + 1,
    entries_memsize := entries_memsize c2 + msz ety\<rparr>"
  have c0: "ring_ok c" "0 \<le> c_len c" "c_len c = 0 \<longleftrightarrow> c_start_idx c = 0" "entries_memsize c = sum_list (map msz (cached c))"
    using ok by (auto simp: cache_ok_def ring_ok_def split: if_splits)
  have c1: "ring_ok c1" "cached c1 = cached c" "c_len c1 = c_len c" "entries_memsize c1 = entries_memsize c"
      "c_start_idx c1 = (if c_len c = 0 then idx else c_start_idx c)"
    using c0 by (simp_all add: c1_def ring_ok_def ring_pos_def cached_def)
  have c2: "ring_ok c2" "cached c2 = cached c" "c_len c2 = c_len c" "c_len c2 < c_size c2" "c_start_idx c2 = c_start_idx c1"
      "entries_memsize c2 = entries_memsize c"
    using enlarge_ok[OF c1(1)] c1 by (auto simp: c2_def ring_ok_def)
  note push = push_ok[OF c2(1) c2(4) c3_def]
  have "EntryCacheAppend msz c ety idx = do {
      assert_ok (c_start_idx c1 + c_len c1 = idx);
      i \<leftarrow> c_rem (c_start c2 + c_len c2) (c_size c2);
      p \<leftarrow> arr_set (c_ptrs c2) i (Some ety);
      Some (c2\<lparr>c_ptrs := p, c_len := c_len c2 + 1, entries_memsize := entries_memsize c2 + msz ety\<rparr>) }"
    by (simp only: EntryCacheAppend_def Let_def c1_def c2_def)
  also have "\<dots> = Some c3"
    using c_rem_ring[OF c2(1), of "c_len c2"] ring_pos_lt[OF c2(1), of "c_len c2"] c2(3) c1(3,5) c0(2) idx(2)
    by (auto simp: arr_set_def c3_def)
  finally have "EntryCacheAppend msz c ety idx = Some c3" .
  moreover have "c_start_idx c3 = (if c_len c = 0 then idx else c_start_idx c)" using c2(5) c1(5) by (simp add: c3_def)
  moreover have "cache_ok msz c3" using push c2 c0 idx(1) ok calculation(2) by (auto simp: cache_ok_def c3_def)
  ultimately show ?thesis using that push(2) c2(2) by metis
qed

lemma EntryCacheAppend_gap:
  assumes "cache_ok msz c" "c_len c \<noteq> 0" "idx \<noteq> c_start_idx c + c_len c"
  shows "EntryCacheAppend msz c ety idx = None"
  using assms by (simp add: EntryCacheAppend_def cache_ok_def Let_def)

text \<open>The loops that remove entries from the head remove a prefix.\<close>

definition dropped :: "('e \<Rightarrow> 64 word) \<Rightarrow> 'e EntryCache \<Rightarrow> nat \<Rightarrow> 'e EntryCache \<Rightarrow> bool" where
  "dropped msz c k c' \<longleftrightarrow> ring_ok c' \<and> cached c' = drop k (cached c) \<and> int k \<le> c_len c \<and>
     c_len c' = c_len c - int k \<and> c_start_idx c' = c_start_idx c + int k \<and>
     entries_memsize c' = sum_list (map msz (drop k (cached c)))"

lemma drop_head_dropped:
  assumes "ring_ok c" "0 < c_len c" "entries_memsize c = sum_list (map msz (cached c))"
  obtains c' where "drop_head msz c = Some c'" "dropped msz c 1 c'"
proof -
  obtain x xs where "cached c = x # xs" using assms(2) length_cached[of c] by (cases "cached c") auto
  then show ?thesis using drop_head_ok[OF assms(1,2), of msz] that assms(2,3) by (auto simp: dropped_def)
qed

lemma dropped_trans: "dropped msz c (Suc 0) c1 \<Longrightarrow> dropped msz c1 k c2 \<Longrightarrow> dropped msz c (Suc k) c2"
  by (auto simp: dropped_def drop_Suc drop_tl)

lemma dropped_0: "ring_ok c \<Longrightarrow> entries_memsize c = sum_list (map msz (cached c)) \<Longrightarrow> dropped msz c 0 c"
  by (simp add: dropped_def ring_ok_def)

lemma delete_head_loop_ok:
  assumes "ring_ok c" "entries_memsize c = sum_list (map msz (cached c))"
  shows "\<exists>c'. delete_head_loop msz c first_idx d = Some (d + int (min (nat (first_idx - c_start_idx c)) (nat (c_len c))), c') \<and>
    dropped msz c (min (nat (first_idx - c_start_idx c)) (nat (c_len c))) c'"
  using assms
proof (induction "nat (c_len c)" arbitrary: c d)
  case 0
  then show ?case by (subst delete_head_loop.simps) (auto simp: dropped_0)
next
  case (Suc n)
  show ?case
  proof (cases "first_idx > c_start_idx c")
    case True
    have len: "0 < c_len c" using Suc.hyps(2) by simp
    obtain c1 where c1: "drop_head msz c = Some c1" "dropped msz c 1 c1" using drop_head_dropped[OF Suc.prems(1) len Suc.prems(2)] by blast
    have f: "n = nat (c_len c1)" "ring_ok c1" "entries_memsize c1 = sum_list (map msz (cached c1))"
      using c1(2) Suc.hyps(2) by (auto simp: dropped_def)
    have k: "min (nat (first_idx - c_start_idx c)) (nat (c_len c)) = Suc (min (nat (first_idx - c_start_idx c1)) (nat (c_len c1)))"
      using c1(2) True len by (auto simp: dropped_def)
    show ?thesis using Suc.hyps(1)[OF f, of "d + 1"] c1 True len k dropped_trans[of msz c c1]
      by (subst delete_head_loop.simps) (auto simp: algebra_simps)
  next
    case False
    then show ?thesis using dropped_0[OF Suc.prems] by (subst delete_head_loop.simps) auto
  qed
qed

lemma compact_loop_ok:
  assumes "ring_ok c" "entries_memsize c = sum_list (map msz (cached c))"
  shows "\<exists>k c'. compact_loop msz c max_memory limit d = Some (d + int k, c') \<and> dropped msz c k c' \<and>
    (\<forall>j < k. c_start_idx c + int j \<le> limit \<and> max_memory < sum_list (map msz (drop j (cached c)))) \<and>
    (c_len c' = 0 \<or> limit < c_start_idx c' \<or> entries_memsize c' \<le> max_memory)"
  using assms
proof (induction "nat (c_len c)" arbitrary: c d)
  case 0
  then show ?case using dropped_0[OF 0(2,3)] by (subst compact_loop.simps) (auto simp: ring_ok_def intro!: exI[of _ 0])
next
  case (Suc n)
  show ?case
  proof (cases "c_start_idx c \<le> limit \<and> max_memory < entries_memsize c")
    case True
    have len: "0 < c_len c" using Suc.hyps(2) by simp
    obtain c1 where c1: "drop_head msz c = Some c1" "dropped msz c (Suc 0) c1"
      using drop_head_dropped[OF Suc.prems(1) len Suc.prems(2)] by auto
    have f: "n = nat (c_len c1)" "ring_ok c1" "entries_memsize c1 = sum_list (map msz (cached c1))"
        "c_start_idx c1 = c_start_idx c + 1" "cached c1 = drop 1 (cached c)"
      using c1(2) Suc.hyps(2) by (auto simp: dropped_def)
    obtain k c' where k: "compact_loop msz c1 max_memory limit (d + 1) = Some (d + 1 + int k, c')" "dropped msz c1 k c'"
        "\<forall>j < k. c_start_idx c1 + int j \<le> limit \<and> max_memory < sum_list (map msz (drop j (cached c1)))"
        "c_len c' = 0 \<or> limit < c_start_idx c' \<or> entries_memsize c' \<le> max_memory"
      using Suc.hyps(1)[OF f(1-3), of "d + 1"] by blast
    have "compact_loop msz c max_memory limit d = Some (d + int (Suc k), c')"
      using c1(1) True len k(1) by (subst compact_loop.simps) simp
    moreover have "c_start_idx c + int j \<le> limit \<and> max_memory < sum_list (map msz (drop j (cached c)))" if "j < Suc k" for j
      using that k(3)[rule_format, of "j - 1"] True Suc.prems(2) f(4,5) by (cases j) auto
    ultimately show ?thesis using dropped_trans[OF c1(2) k(2)] k(4) by blast
  next
    case False
    then show ?thesis using dropped_0[OF Suc.prems] by (subst compact_loop.simps) (auto intro!: exI[of _ 0])
  qed
qed

text \<open>
  The loop that removes entries from the tail: the positions before its first index keep their
  entries, and the memory of the removed ones is given back.
\<close>

lemma delete_tail_loop_ok:
  assumes "0 < c_size c" "length (c_ptrs c) = nat (c_size c)" "0 \<le> c_start c" "b \<le> c_size c" "0 \<le> i"
    and "\<And>j. i \<le> j \<Longrightarrow> j < b \<Longrightarrow> c_ptrs c ! ring_pos c j \<noteq> None"
  shows "\<exists>p m. delete_tail_loop msz c (c_start_idx c + b) (c_start_idx c + i) d =
      Some (d + max 0 (b - i), c\<lparr>c_ptrs := p, entries_memsize := m\<rparr>) \<and> length p = length (c_ptrs c) \<and>
      (\<forall>j. 0 \<le> j \<and> j < min i b \<longrightarrow> p ! ring_pos c j = c_ptrs c ! ring_pos c j) \<and>
      m = entries_memsize c - sum_list (map (\<lambda>j. msz (the (c_ptrs c ! ring_pos c j))) [i..b - 1])"
  using assms
proof (induction "nat (b - i)" arbitrary: c i d)
  case 0
  then show ?case by (subst delete_tail_loop.simps) (auto intro!: exI[of _ "c_ptrs c"])
next
  case (Suc n)
  let ?q = "ring_pos c i"
  have i: "i < b" "n = nat (b - (i + 1))" using Suc.hyps(2) by auto
  have q: "?q < length (c_ptrs c)" using Suc.prems by (simp add: ring_pos_def)
  obtain e where e: "c_ptrs c ! ?q = Some e" using Suc.prems(6)[of i] i by blast
  let ?c = "c\<lparr>entries_memsize := entries_memsize c - msz e, c_ptrs := (c_ptrs c)[?q := None]\<rparr>"
  have pos: "ring_pos ?c j = ring_pos c j" for j by (simp add: ring_pos_def)
  have other: "(c_ptrs c)[?q := None] ! ring_pos c j = c_ptrs c ! ring_pos c j" if "0 \<le> j" "j < b" "j \<noteq> i" for j
  proof -
    have "?q \<noteq> ring_pos c j" using that Suc.prems(1,4,5) ring_pos_inj[of c j i] i by auto
    then show ?thesis by simp
  qed
  obtain p m where pm: "delete_tail_loop msz ?c (c_start_idx c + b) (c_start_idx c + (i + 1)) (d + 1) =
      Some (d + 1 + max 0 (b - (i + 1)), c\<lparr>c_ptrs := p, entries_memsize := m\<rparr>)" "length p = length (c_ptrs c)"
      "\<forall>j. 0 \<le> j \<and> j < min (i + 1) b \<longrightarrow> p ! ring_pos c j = (c_ptrs c)[?q := None] ! ring_pos c j"
      "m = entries_memsize c - msz e - sum_list (map (\<lambda>j. msz (the ((c_ptrs c)[?q := None] ! ring_pos c j))) [i + 1..b - 1])"
    using Suc.hyps(1)[of "i + 1" ?c "d + 1"] i(2) Suc.prems other unfolding pos by auto
  have rem: "c_rem (c_start c + i) (c_size c) = Some (int ?q)"
    using Suc.prems(1,3,5) by (simp add: ring_pos_def c_rem_nonneg)
  have step: "delete_tail_loop msz c (c_start_idx c + b) (c_start_idx c + i) d =
      delete_tail_loop msz ?c (c_start_idx c + b) (c_start_idx c + (i + 1)) (d + 1)"
    using i rem q e by (subst delete_tail_loop.simps) (simp add: arr_get_def arr_set_def algebra_simps)
  have rest: "map (\<lambda>j. msz (the ((c_ptrs c)[?q := None] ! ring_pos c j))) [i + 1..b - 1] = map (\<lambda>j. msz (the (c_ptrs c ! ring_pos c j))) [i + 1..b - 1]"
    using other Suc.prems(5) by (intro map_cong) auto
  have "[i..b - 1] = i # [i + 1..b - 1]" using i(1) by (subst upto_rec1) auto
  then have "m = entries_memsize c - sum_list (map (\<lambda>j. msz (the (c_ptrs c ! ring_pos c j))) [i..b - 1])"
    using pm(4) e unfolding rest by simp
  moreover have "\<forall>j. 0 \<le> j \<and> j < min i b \<longrightarrow> p ! ring_pos c j = c_ptrs c ! ring_pos c j" using pm(3) other by simp
  moreover have "d + 1 + max 0 (b - (i + 1)) = d + max 0 (b - i)" using i(1) by simp
  ultimately show ?case using pm(1,2) step by (intro exI[of _ p] exI[of _ m]) simp
qed

section \<open>The list specification\<close>

text \<open>
  The reference: the index of the first entry (0 when there is none) and the list of the entries.
\<close>

type_synonym 'e cache_spec = "int \<times> 'e list"

definition settle :: "'e cache_spec \<Rightarrow> 'e cache_spec" where
  "settle c = (case c of (f, xs) \<Rightarrow> (if xs = [] then 0 else f, xs))"

definition spec_append :: "'e cache_spec \<Rightarrow> 'e \<Rightarrow> int \<Rightarrow> 'e cache_spec option" where
  "spec_append = (\<lambda>(f, xs) e idx. if xs = [] then Some (idx, [e]) else if idx = f + int (length xs) then Some (f, xs @ [e]) else None)"

definition spec_get :: "'e cache_spec \<Rightarrow> int \<Rightarrow> 'e option" where
  "spec_get = (\<lambda>(f, xs) idx. if f \<le> idx \<and> idx < f + int (length xs) then Some (xs ! nat (idx - f)) else None)"

definition spec_delete_head :: "'e cache_spec \<Rightarrow> int \<Rightarrow> int \<times> 'e cache_spec" where
  "spec_delete_head = (\<lambda>(f, xs) n. if n < f then (- 1, (f, xs))
     else let k = min (nat (n - f)) (length xs) in (int k, settle (f + int k, drop k xs)))"

definition spec_delete_tail :: "'e cache_spec \<Rightarrow> int \<Rightarrow> int \<times> 'e cache_spec" where
  "spec_delete_tail = (\<lambda>(f, xs) n. if n < f \<or> f + int (length xs) \<le> n then (- 1, (f, xs))
     else (f + int (length xs) - n, settle (f, take (nat (n - f)) xs)))"

text \<open>The entries to drop: as long as the rest is too large and its first index is not past the limit.\<close>

fun compact_count :: "('e \<Rightarrow> 64 word) \<Rightarrow> int \<Rightarrow> 'e list \<Rightarrow> 64 word \<Rightarrow> int \<Rightarrow> nat" where
  "compact_count msz f [] max_memory limit = 0"
| "compact_count msz f (x # xs) max_memory limit =
     (if f \<le> limit \<and> max_memory < sum_list (map msz (x # xs))
      then Suc (compact_count msz (f + 1) xs max_memory limit) else 0)"

definition spec_compact :: "('e \<Rightarrow> 64 word) \<Rightarrow> 'e cache_spec \<Rightarrow> 64 word \<Rightarrow> int \<Rightarrow> int \<times> 'e cache_spec" where
  "spec_compact msz = (\<lambda>(f, xs) max_memory limit.
     let k = compact_count msz f xs max_memory limit in (int k, settle (f + int k, drop k xs)))"

definition cache_abs :: "'e EntryCache \<Rightarrow> 'e cache_spec" where
  "cache_abs c = (c_start_idx c, cached c)"

lemma compact_count_unique:
  assumes "k \<le> length xs" "\<forall>j < k. f + int j \<le> limit \<and> m < sum_list (map msz (drop j xs))"
    "k = length xs \<or> limit < f + int k \<or> sum_list (map msz (drop k xs)) \<le> m"
  shows "compact_count msz f xs m limit = k"
  using assms
proof (induction xs arbitrary: f k)
  case (Cons x xs)
  show ?case
  proof (cases k)
    case 0
    then show ?thesis using Cons.prems(3) by auto
  next
    case (Suc k')
    have "f \<le> limit \<and> m < sum_list (map msz (x # xs))" using Cons.prems(2)[rule_format, of 0] Suc by simp
    moreover have "\<forall>j < k'. (f + 1) + int j \<le> limit \<and> m < sum_list (map msz (drop j xs))"
      using Cons.prems(2)[rule_format, of "Suc _"] Suc by (auto simp: algebra_simps)
    moreover have "k' = length xs \<or> limit < (f + 1) + int k' \<or> sum_list (map msz (drop k' xs)) \<le> m"
      using Cons.prems(3) Suc by (auto simp: algebra_simps)
    ultimately show ?thesis using Cons.IH[of k' "f + 1"] Cons.prems(1) Suc by simp
  qed
qed simp

lemma reset_dropped:
  assumes ok: "cache_ok msz c" and d: "dropped msz c k c'"
  shows "cache_ok msz (reset_empty c')" "cache_abs (reset_empty c') = settle (c_start_idx c + int k, drop k (cached c))"
proof -
  have z: "cached c' = [] \<longleftrightarrow> c_len c' = 0" using d by (auto simp: cached_def dropped_def ring_ok_def)
  have ring: "ring_ok (c'\<lparr>c_start_idx := 0\<rparr>) = ring_ok c'" "cached (c'\<lparr>c_start_idx := 0\<rparr>) = cached c'"
    by (simp_all add: ring_ok_def ring_pos_def cached_def)
  have "0 \<le> c_start_idx c" using ok by (auto simp: cache_ok_def split: if_splits)
  moreover have "c_start_idx c \<noteq> 0" if "c_len c' \<noteq> 0" using that ok d by (auto simp: cache_ok_def dropped_def ring_ok_def split: if_splits)
  ultimately show "cache_ok msz (reset_empty c')" using d ring by (auto simp: cache_ok_def reset_empty_def dropped_def)
  show "cache_abs (reset_empty c') = settle (c_start_idx c + int k, drop k (cached c))"
    using d z ring by (auto simp: cache_abs_def reset_empty_def settle_def dropped_def)
qed

lemma cache_okD:
  assumes "cache_ok msz c"
  shows "ring_ok c" "entries_memsize c = sum_list (map msz (cached c))" "0 \<le> c_len c" "length (cached c) = nat (c_len c)"
    "cached c = [] \<longleftrightarrow> c_len c = 0"
  using assms by (auto simp: cache_ok_def ring_ok_def cached_def)

lemma DeleteHead_refines:
  assumes "cache_ok msz c"
  shows "\<exists>c'. EntryCacheDeleteHead msz c n = Some (fst (spec_delete_head (cache_abs c) n), c') \<and> cache_ok msz c' \<and>
    cache_abs c' = snd (spec_delete_head (cache_abs c) n)"
proof (cases "n < c_start_idx c")
  case True
  then show ?thesis using assms by (auto simp: EntryCacheDeleteHead_def spec_delete_head_def cache_abs_def)
next
  case False
  note ok = cache_okD[OF assms]
  obtain c' where "delete_head_loop msz c n 0 = Some (int (min (nat (n - c_start_idx c)) (nat (c_len c))), c')"
      "dropped msz c (min (nat (n - c_start_idx c)) (nat (c_len c))) c'"
    using delete_head_loop_ok[OF ok(1,2), of n 0] by auto
  then show ?thesis using False reset_dropped[OF assms] ok(4)
    by (auto simp: EntryCacheDeleteHead_def spec_delete_head_def cache_abs_def Let_def)
qed

lemma Compact_refines:
  assumes "cache_ok msz c"
  shows "\<exists>c'. EntryCacheCompact msz c m l = Some (fst (spec_compact msz (cache_abs c) m l), c') \<and> cache_ok msz c' \<and>
    cache_abs c' = snd (spec_compact msz (cache_abs c) m l)"
proof -
  note ok = cache_okD[OF assms]
  obtain k c' where k: "compact_loop msz c m l 0 = Some (int k, c')" "dropped msz c k c'"
      "\<forall>j < k. c_start_idx c + int j \<le> l \<and> m < sum_list (map msz (drop j (cached c)))"
      "c_len c' = 0 \<or> l < c_start_idx c' \<or> entries_memsize c' \<le> m"
    using compact_loop_ok[OF ok(1,2), of m l 0] by auto
  have "compact_count msz (c_start_idx c) (cached c) m l = k"
    using k(2-4) ok(3,4) by (intro compact_count_unique) (auto simp: dropped_def)
  then show ?thesis using k(1) reset_dropped[OF assms k(2)]
    by (auto simp: EntryCacheCompact_def spec_compact_def cache_abs_def Let_def)
qed

lemma DeleteTail_refines:
  assumes ok: "cache_ok msz c"
  shows "\<exists>c'. EntryCacheDeleteTail msz c n = Some (fst (spec_delete_tail (cache_abs c) n), c') \<and> cache_ok msz c' \<and>
    cache_abs c' = snd (spec_delete_tail (cache_abs c) n)"
proof (cases "n < c_start_idx c \<or> c_start_idx c + c_len c \<le> n")
  case True
  then show ?thesis using ok cache_okD[OF ok] by (auto simp: EntryCacheDeleteTail_def spec_delete_tail_def cache_abs_def)
next
  case False
  note c = cache_okD[OF ok]
  let ?r = "n - c_start_idx c" and ?L = "c_len c"
  have r: "0 \<le> ?r" "?r < ?L" "0 < c_start_idx c" using False ok by (auto simp: cache_ok_def split: if_splits)
  obtain p m where pm: "delete_tail_loop msz c (c_start_idx c + ?L) n 0 = Some (?L - ?r, c\<lparr>c_ptrs := p, entries_memsize := m\<rparr>)"
      "length p = length (c_ptrs c)" "\<forall>j. 0 \<le> j \<and> j < ?r \<longrightarrow> p ! ring_pos c j = c_ptrs c ! ring_pos c j"
      "m = entries_memsize c - sum_list (map (\<lambda>j. msz (the (c_ptrs c ! ring_pos c j))) [?r..?L - 1])"
    using delete_tail_loop_ok[of c ?L ?r msz 0] c(1) r by (auto simp: ring_ok_def min_def)
  let ?c = "c\<lparr>c_ptrs := p, entries_memsize := m, c_len := ?r\<rparr>"
  have pos: "ring_pos ?c j = ring_pos c j" for j by (simp add: ring_pos_def)
  have ring: "ring_ok ?c" using c(1) r pm(2,3) by (auto simp: ring_ok_def pos)
  have take: "cached ?c = take (nat ?r) (cached c)"
    using pm(3) r by (intro nth_equalityI) (auto simp: nth_cached pos)
  have "map (\<lambda>j. msz (the (c_ptrs c ! ring_pos c j))) [?r..?L - 1] = map msz (drop (nat ?r) (cached c))"
    using r by (intro nth_equalityI) (auto simp: nth_cached algebra_simps)
  then have "m = sum_list (map msz (take (nat ?r) (cached c)))"
    using pm(4) c(2) append_take_drop_id[of "nat ?r" "map msz (cached c)"]
    by (metis add_diff_cancel_right' drop_map sum_list_append take_map)
  then have mem: "entries_memsize ?c = sum_list (map msz (cached ?c))" using take by simp
  have eq: "EntryCacheDeleteTail msz c n = Some (?L - ?r, reset_empty ?c)"
    using False pm(1) by (simp add: EntryCacheDeleteTail_def)
  have same: "ring_ok (?c\<lparr>c_start_idx := 0\<rparr>) = ring_ok ?c" "cached (?c\<lparr>c_start_idx := 0\<rparr>) = cached ?c"
    by (simp_all add: ring_ok_def ring_pos_def cached_def)
  have "cache_ok msz (reset_empty ?c)" using ring mem r same by (auto simp: cache_ok_def reset_empty_def)
  moreover have "cache_abs (reset_empty ?c) = settle (c_start_idx c, take (nat ?r) (cached c))"
    using take same r by (auto simp: cache_abs_def reset_empty_def settle_def cached_def)
  ultimately show ?thesis using eq False c(3,4) by (auto simp: spec_delete_tail_def cache_abs_def)
qed

section \<open>Correctness of the cache\<close>

text \<open>
  C32. Refinement of the entry cache. On a well-formed ring, every operation does what it does on a
  list of entries with the index of the first one: an append at the next index (or at any index of
  an empty cache) adds to the end and at any other index aborts; a lookup is the list lookup;
  deleting from the head or the tail and compacting remove the prefix or suffix that the
  specification says and return how many entries they removed. The ring stays well-formed, and no
  access leaves the array.
\<close>

theorem cache_refines_list:
  assumes "cache_ok msz c"
  shows "(0 < idx \<longrightarrow>
      (case EntryCacheAppend msz c ety idx of
         None \<Rightarrow> spec_append (cache_abs c) ety idx = None
       | Some c' \<Rightarrow> cache_ok msz c' \<and> spec_append (cache_abs c) ety idx = Some (cache_abs c'))) \<and>
    EntryCacheGet c idx = Some (spec_get (cache_abs c) idx) \<and>
    (\<exists>c'. EntryCacheDeleteHead msz c idx = Some (fst (spec_delete_head (cache_abs c) idx), c') \<and> cache_ok msz c' \<and>
      cache_abs c' = snd (spec_delete_head (cache_abs c) idx)) \<and>
    (\<exists>c'. EntryCacheDeleteTail msz c idx = Some (fst (spec_delete_tail (cache_abs c) idx), c') \<and> cache_ok msz c' \<and>
      cache_abs c' = snd (spec_delete_tail (cache_abs c) idx)) \<and>
    (\<exists>c'. EntryCacheCompact msz c mem idx = Some (fst (spec_compact msz (cache_abs c) mem idx), c') \<and> cache_ok msz c' \<and>
      cache_abs c' = snd (spec_compact msz (cache_abs c) mem idx))"
proof (intro conjI impI)
  note c = cache_okD[OF assms]
  show "EntryCacheGet c idx = Some (spec_get (cache_abs c) idx)"
    using EntryCacheGet_cached[OF c(1)] c(3,4) by (auto simp: spec_get_def cache_abs_def)
  assume "0 < idx"
  show "case EntryCacheAppend msz c ety idx of
         None \<Rightarrow> spec_append (cache_abs c) ety idx = None
       | Some c' \<Rightarrow> cache_ok msz c' \<and> spec_append (cache_abs c) ety idx = Some (cache_abs c')"
  proof (cases "c_len c = 0 \<or> idx = c_start_idx c + c_len c")
    case True
    obtain c' where "EntryCacheAppend msz c ety idx = Some c'" "cache_ok msz c'" "cached c' = cached c @ [ety]"
        "c_start_idx c' = (if c_len c = 0 then idx else c_start_idx c)"
      using EntryCacheAppend_ok[OF assms \<open>0 < idx\<close> True] by metis
    then show ?thesis using True c by (auto simp: spec_append_def cache_abs_def)
  next
    case False
    then show ?thesis using EntryCacheAppend_gap[OF assms] c by (auto simp: spec_append_def cache_abs_def)
  qed
qed (rule DeleteHead_refines[OF assms] DeleteTail_refines[OF assms] Compact_refines[OF assms])+

text \<open>A ring of four with the entries 7, 8 and 9 at the indexes 5, 6 and 7, wrapped around its end.\<close>

definition ex_cache :: "nat EntryCache" where
  "ex_cache = \<lparr>c_size = 4, c_len = 3, c_start_idx = 5, c_start = 2, entries_memsize = 24,
     c_ptrs = [Some 9, None, Some 7, Some 8]\<rparr>"

lemma ex_cache_cached: "cached ex_cache = [7, 8, 9]"
  by code_simp

lemma ex_cache_ok: "cache_ok of_nat ex_cache"
proof -
  have "c_ptrs ex_cache ! ring_pos ex_cache i \<noteq> None" if "0 \<le> i" "i < 3" for i
  proof -
    from that consider "i = 0" | "i = 1" | "i = 2" by fastforce
    then show ?thesis by cases (simp_all add: ex_cache_def ring_pos_def)
  qed
  then have "ring_ok ex_cache" by (simp add: ring_ok_def ex_cache_def)
  then show ?thesis using ex_cache_cached by (simp add: cache_ok_def ex_cache_def)
qed

theorem cache_refines_list_witness:
  "(case EntryCacheAppend of_nat ex_cache 3 8 of None \<Rightarrow> False | Some c \<Rightarrow> cache_abs c = (5, [7, 8, 9, 3])) \<and>
   EntryCacheGet ex_cache 7 = Some (Some 9) \<and>
   (\<exists>c. EntryCacheDeleteTail of_nat ex_cache 6 = Some (2, c) \<and> cache_abs c = (5, [7]))"
proof -
  have abs: "cache_abs ex_cache = (5, [7, 8, 9])" using ex_cache_cached by (simp add: cache_abs_def ex_cache_def)
  note r = cache_refines_list[OF ex_cache_ok, unfolded abs]
  show ?thesis using r[of 8 3 0] r[of 7 3 0] r[of 6 3 0]
    by (auto simp: spec_append_def spec_get_def spec_delete_tail_def settle_def split: option.splits)
qed

text \<open>
  C34. Stale entries. Deleting the log from an index below the first cached one leaves the whole cache
  as it was and reports that nothing was removed: every cached entry, although it is past the
  deletion point, is still returned by a lookup, and the append at the deletion point that a
  follower does next aborts.
\<close>

theorem delete_tail_keeps_stale:
  assumes "cache_ok msz c" and "0 < index" "index < c_start_idx c"
  shows "EntryCacheDeleteTail msz c index = Some (- 1, c) \<and>
    (\<forall>i. c_start_idx c \<le> i \<and> i < c_start_idx c + c_len c \<longrightarrow>
       EntryCacheGet c i = Some (Some (cached c ! nat (i - c_start_idx c)))) \<and>
    EntryCacheAppend msz c ety index = None"
proof -
  have len: "0 < c_len c" using assms by (auto simp: cache_ok_def ring_ok_def split: if_splits)
  then show ?thesis using assms EntryCacheGet_cached[OF cache_okD(1)[OF assms(1)]] EntryCacheAppend_gap[OF assms(1)]
    by (auto simp: EntryCacheDeleteTail_def)
qed

theorem delete_tail_keeps_stale_witness:
  "EntryCacheDeleteTail of_nat ex_cache 3 = Some (- 1, ex_cache) \<and> EntryCacheGet ex_cache 6 = Some (Some 8) \<and>
   EntryCacheAppend of_nat ex_cache 1 3 = None"
proof -
  have i: "c_start_idx ex_cache = 5" "c_len ex_cache = 3" by (simp_all add: ex_cache_def)
  show ?thesis using delete_tail_keeps_stale[OF ex_cache_ok, of 3 1] unfolding i ex_cache_cached by force
qed

section \<open>Runs of the cache\<close>

datatype 'e cache_op =
  Append 'e int
| DeleteHead int
| DeleteTail int
| Compact "64 word" int

definition cache_exec :: "('e \<Rightarrow> 64 word) \<Rightarrow> 'e EntryCache \<Rightarrow> 'e cache_op \<Rightarrow> 'e EntryCache option" where
  "cache_exec msz c op = (case op of
     Append e idx \<Rightarrow> EntryCacheAppend msz c e idx
   | DeleteHead idx \<Rightarrow> map_option snd (EntryCacheDeleteHead msz c idx)
   | DeleteTail idx \<Rightarrow> map_option snd (EntryCacheDeleteTail msz c idx)
   | Compact m l \<Rightarrow> map_option snd (EntryCacheCompact msz c m l))"

fun cache_run :: "('e \<Rightarrow> 64 word) \<Rightarrow> 'e EntryCache \<Rightarrow> 'e cache_op list \<Rightarrow> 'e EntryCache option" where
  "cache_run msz c [] = Some c"
| "cache_run msz c (op # ops) = do { c \<leftarrow> cache_exec msz c op; cache_run msz c ops }"

fun op_index_ok :: "'e cache_op \<Rightarrow> bool" where
  "op_index_ok (Append _ idx) \<longleftrightarrow> 0 < idx"
| "op_index_ok _ \<longleftrightarrow> True"

lemma cache_exec_ok:
  assumes "cache_ok msz c" "op_index_ok op" "cache_exec msz c op = Some c'"
  shows "cache_ok msz c'"
proof (cases op)
  case (Append e idx)
  then have "c_len c = 0 \<or> idx = c_start_idx c + c_len c" using assms EntryCacheAppend_gap[OF assms(1)] by (fastforce simp: cache_exec_def)
  then show ?thesis using Append assms EntryCacheAppend_ok[OF assms(1), of idx e] by (fastforce simp: cache_exec_def)
next
  case (DeleteHead n)
  then show ?thesis using assms DeleteHead_refines[OF assms(1), of n] by (auto simp: cache_exec_def)
next
  case (DeleteTail n)
  then show ?thesis using assms DeleteTail_refines[OF assms(1), of n] by (auto simp: cache_exec_def)
next
  case (Compact m l)
  then show ?thesis using assms Compact_refines[OF assms(1), of m l] by (auto simp: cache_exec_def)
qed

lemma cache_run_ok: "cache_run msz c ops = Some c' \<Longrightarrow> \<forall>op \<in> set ops. op_index_ok op \<Longrightarrow> cache_ok msz c \<Longrightarrow> cache_ok msz c'"
  by (induction ops arbitrary: c) (auto elim!: do_elims dest: cache_exec_ok)

text \<open>
  C33. Well-formedness. A cache that was created with any positive size and then used in any way
  (with positive log indexes) is a well-formed ring: the length and the start lie within the size,
  every slot between them holds an entry, the memory counter is the memory of the cached entries,
  and the first index is 0 exactly when the cache is empty.
\<close>

theorem cache_well_formed:
  assumes "0 < n" "\<forall>op \<in> set ops. op_index_ok op" "cache_run msz (EntryCacheNew n) ops = Some c"
  shows "length (c_ptrs c) = nat (c_size c) \<and> 0 \<le> c_len c \<and> c_len c \<le> c_size c \<and> 0 \<le> c_start c \<and> c_start c < c_size c \<and>
    (\<forall>i. 0 \<le> i \<and> i < c_len c \<longrightarrow> c_ptrs c ! nat ((c_start c + i) mod c_size c) \<noteq> None) \<and>
    entries_memsize c = sum_list (map msz (cached c)) \<and> (c_start_idx c = 0 \<longleftrightarrow> c_len c = 0)"
proof -
  have "cache_ok msz (EntryCacheNew n)" using assms(1) by (auto simp: cache_ok_def ring_ok_def EntryCacheNew_def cached_def)
  then have "cache_ok msz c" by (rule cache_run_ok[OF assms(3,2)])
  then show ?thesis by (auto simp: cache_ok_def ring_ok_def ring_pos_def split: if_splits)
qed

theorem cache_well_formed_witness:
  "case cache_run of_nat (EntryCacheNew 2) [Append (7 :: nat) 1, Append 8 2, DeleteHead 2, Append 9 3, Append 10 4, DeleteTail 4] of
     None \<Rightarrow> False
   | Some c \<Rightarrow> c_size c = 4 \<and> c_len c = 2 \<and> c_start_idx c = 2 \<and> entries_memsize c = sum_list (map of_nat (cached c))"
proof -
  let ?ops = "[Append (7 :: nat) 1, Append 8 2, DeleteHead 2, Append 9 3, Append 10 4, DeleteTail 4]"
  have run: "case cache_run of_nat (EntryCacheNew 2) ?ops of None \<Rightarrow> False
     | Some c \<Rightarrow> c_size c = 4 \<and> c_len c = 2 \<and> c_start_idx c = 2" by code_simp
  have "\<forall>op \<in> set ?ops. op_index_ok op" by simp
  from cache_well_formed[OF _ this, of 2 of_nat] run show ?thesis by (auto split: option.splits)
qed

end
