(* ===== verification/Redis_Slots.thy ===== *)
theory Redis_Slots
  imports Prelude
begin

text \<open>
  Hash slots: the table-driven checksum \<open>deps/common/crc16.c\<close> and the slot of a key,
  \<open>keyHashSlot\<close> of \<open>redisraft/src/util.c\<close>. The reference is the checksum computed bit by bit with
  the polynomial \<open>0x1021\<close>.
\<close>

unbundle bit_operations_syntax

section \<open>The checksum\<close>

definition crc16tab :: "16 word list" where
  "crc16tab = [
     0x0000, 0x1021, 0x2042, 0x3063, 0x4084, 0x50a5, 0x60c6, 0x70e7,
     0x8108, 0x9129, 0xa14a, 0xb16b, 0xc18c, 0xd1ad, 0xe1ce, 0xf1ef,
     0x1231, 0x0210, 0x3273, 0x2252, 0x52b5, 0x4294, 0x72f7, 0x62d6,
     0x9339, 0x8318, 0xb37b, 0xa35a, 0xd3bd, 0xc39c, 0xf3ff, 0xe3de,
     0x2462, 0x3443, 0x0420, 0x1401, 0x64e6, 0x74c7, 0x44a4, 0x5485,
     0xa56a, 0xb54b, 0x8528, 0x9509, 0xe5ee, 0xf5cf, 0xc5ac, 0xd58d,
     0x3653, 0x2672, 0x1611, 0x0630, 0x76d7, 0x66f6, 0x5695, 0x46b4,
     0xb75b, 0xa77a, 0x9719, 0x8738, 0xf7df, 0xe7fe, 0xd79d, 0xc7bc,
     0x48c4, 0x58e5, 0x6886, 0x78a7, 0x0840, 0x1861, 0x2802, 0x3823,
     0xc9cc, 0xd9ed, 0xe98e, 0xf9af, 0x8948, 0x9969, 0xa90a, 0xb92b,
     0x5af5, 0x4ad4, 0x7ab7, 0x6a96, 0x1a71, 0x0a50, 0x3a33, 0x2a12,
     0xdbfd, 0xcbdc, 0xfbbf, 0xeb9e, 0x9b79, 0x8b58, 0xbb3b, 0xab1a,
     0x6ca6, 0x7c87, 0x4ce4, 0x5cc5, 0x2c22, 0x3c03, 0x0c60, 0x1c41,
     0xedae, 0xfd8f, 0xcdec, 0xddcd, 0xad2a, 0xbd0b, 0x8d68, 0x9d49,
     0x7e97, 0x6eb6, 0x5ed5, 0x4ef4, 0x3e13, 0x2e32, 0x1e51, 0x0e70,
     0xff9f, 0xefbe, 0xdfdd, 0xcffc, 0xbf1b, 0xaf3a, 0x9f59, 0x8f78,
     0x9188, 0x81a9, 0xb1ca, 0xa1eb, 0xd10c, 0xc12d, 0xf14e, 0xe16f,
     0x1080, 0x00a1, 0x30c2, 0x20e3, 0x5004, 0x4025, 0x7046, 0x6067,
     0x83b9, 0x9398, 0xa3fb, 0xb3da, 0xc33d, 0xd31c, 0xe37f, 0xf35e,
     0x02b1, 0x1290, 0x22f3, 0x32d2, 0x4235, 0x5214, 0x6277, 0x7256,
     0xb5ea, 0xa5cb, 0x95a8, 0x8589, 0xf56e, 0xe54f, 0xd52c, 0xc50d,
     0x34e2, 0x24c3, 0x14a0, 0x0481, 0x7466, 0x6447, 0x5424, 0x4405,
     0xa7db, 0xb7fa, 0x8799, 0x97b8, 0xe75f, 0xf77e, 0xc71d, 0xd73c,
     0x26d3, 0x36f2, 0x0691, 0x16b0, 0x6657, 0x7676, 0x4615, 0x5634,
     0xd94c, 0xc96d, 0xf90e, 0xe92f, 0x99c8, 0x89e9, 0xb98a, 0xa9ab,
     0x5844, 0x4865, 0x7806, 0x6827, 0x18c0, 0x08e1, 0x3882, 0x28a3,
     0xcb7d, 0xdb5c, 0xeb3f, 0xfb1e, 0x8bf9, 0x9bd8, 0xabbb, 0xbb9a,
     0x4a75, 0x5a54, 0x6a37, 0x7a16, 0x0af1, 0x1ad0, 0x2ab3, 0x3a92,
     0xfd2e, 0xed0f, 0xdd6c, 0xcd4d, 0xbdaa, 0xad8b, 0x9de8, 0x8dc9,
     0x7c26, 0x6c07, 0x5c64, 0x4c45, 0x3ca2, 0x2c83, 0x1ce0, 0x0cc1,
     0xef1f, 0xff3e, 0xcf5d, 0xdf7c, 0xaf9b, 0xbfba, 0x8fd9, 0x9ff8,
     0x6e17, 0x7e36, 0x4e55, 0x5e74, 0x2e93, 0x3eb2, 0x0ed1, 0x1ef0]"

definition crc16_step :: "16 word \<Rightarrow> char \<Rightarrow> 16 word" where
  "crc16_step crc c = push_bit 8 crc XOR (crc16tab ! unat ((drop_bit 8 crc XOR of_char c) AND 0x00FF))"

definition crc16_ccitt :: "string \<Rightarrow> 16 word" where
  "crc16_ccitt buf = foldl crc16_step 0 buf"

section \<open>The slot of a key\<close>

text \<open>The loop that looks for a character from a position on; it stops at the end of the key.\<close>

function scan_char :: "char \<Rightarrow> string \<Rightarrow> nat \<Rightarrow> nat" where
  "scan_char c key i = (if i < length key then (if key ! i = c then i else scan_char c key (i + 1)) else i)"
  by pat_completeness auto
termination by (relation "measure (\<lambda>(c, key, i). length key - i)") auto

declare scan_char.simps [simp del]

definition keyHashSlot :: "string \<Rightarrow> 16 word" where
  "keyHashSlot key =
     (let s = scan_char (CHR ''{'') key 0 in
      if s = length key then crc16_ccitt key AND 0x3FFF
      else let e = scan_char (CHR ''}'') key (s + 1) in
        if e = length key \<or> e = s + 1 then crc16_ccitt key AND 0x3FFF
        else crc16_ccitt (take (e - s - 1) (drop (s + 1) key)) AND 0x3FFF)"

section \<open>The reference\<close>

definition crc_bit :: "16 word \<Rightarrow> 16 word" where
  "crc_bit crc = (if bit crc 15 then push_bit 1 crc XOR 0x1021 else push_bit 1 crc)"

definition crc_ref :: "16 word \<Rightarrow> char \<Rightarrow> 16 word" where
  "crc_ref crc c = (crc_bit ^^ 8) (crc XOR push_bit 8 (of_char c))"

lemma crc_bit_xor: "crc_bit (a XOR b) = crc_bit a XOR crc_bit b"
proof (rule bit_word_eqI)
  fix n assume "n < LENGTH(16)"
  show "bit (crc_bit (a XOR b)) n \<longleftrightarrow> bit (crc_bit a XOR crc_bit b) n"
    by (cases "bit a 15"; cases "bit b 15") (auto simp: crc_bit_def bit_simps)
qed

lemma crc_bits_xor: "(crc_bit ^^ n) (a XOR b) = (crc_bit ^^ n) a XOR (crc_bit ^^ n) b"
  by (induction n) (simp_all add: crc_bit_xor)


text \<open>The step in arithmetic, for computing with it.\<close>

lemma crc_bit_num: "crc_bit x = (if x < 0x8000 then 2 * x else (2 * x) XOR 0x1021)"
proof -
  have "unat x < 65536" using unsigned_less[of x] by simp
  then have "unat x div 32768 = (if unat x < 32768 then 0 else 1)" by (auto intro!: div_nat_eqI)
  then have "odd (unat x div 32768) \<longleftrightarrow> \<not> unat x < 32768" by simp
  moreover have "bit x 15 \<longleftrightarrow> bit (unat x) 15" by (simp add: bit_unsigned_iff)
  ultimately have "bit x 15 \<longleftrightarrow> \<not> x < 0x8000" by (simp add: bit_iff_odd word_less_nat_alt)
  then show ?thesis by (simp add: crc_bit_def push_bit_eq_mult mult.commute)
qed

lemma crc_bits_8: "(crc_bit ^^ 8) x = crc_bit (crc_bit (crc_bit (crc_bit (crc_bit (crc_bit (crc_bit (crc_bit x)))))))"
  by (simp add: eval_nat_numeral)

text \<open>The table holds the checksums of the 256 bytes.\<close>

lemma crc16tab_bits:
  "map (crc_bit ^^ 8) [
     0x0000, 0x0100, 0x0200, 0x0300, 0x0400, 0x0500, 0x0600, 0x0700,
     0x0800, 0x0900, 0x0a00, 0x0b00, 0x0c00, 0x0d00, 0x0e00, 0x0f00,
     0x1000, 0x1100, 0x1200, 0x1300, 0x1400, 0x1500, 0x1600, 0x1700,
     0x1800, 0x1900, 0x1a00, 0x1b00, 0x1c00, 0x1d00, 0x1e00, 0x1f00,
     0x2000, 0x2100, 0x2200, 0x2300, 0x2400, 0x2500, 0x2600, 0x2700,
     0x2800, 0x2900, 0x2a00, 0x2b00, 0x2c00, 0x2d00, 0x2e00, 0x2f00,
     0x3000, 0x3100, 0x3200, 0x3300, 0x3400, 0x3500, 0x3600, 0x3700,
     0x3800, 0x3900, 0x3a00, 0x3b00, 0x3c00, 0x3d00, 0x3e00, 0x3f00,
     0x4000, 0x4100, 0x4200, 0x4300, 0x4400, 0x4500, 0x4600, 0x4700,
     0x4800, 0x4900, 0x4a00, 0x4b00, 0x4c00, 0x4d00, 0x4e00, 0x4f00,
     0x5000, 0x5100, 0x5200, 0x5300, 0x5400, 0x5500, 0x5600, 0x5700,
     0x5800, 0x5900, 0x5a00, 0x5b00, 0x5c00, 0x5d00, 0x5e00, 0x5f00,
     0x6000, 0x6100, 0x6200, 0x6300, 0x6400, 0x6500, 0x6600, 0x6700,
     0x6800, 0x6900, 0x6a00, 0x6b00, 0x6c00, 0x6d00, 0x6e00, 0x6f00,
     0x7000, 0x7100, 0x7200, 0x7300, 0x7400, 0x7500, 0x7600, 0x7700,
     0x7800, 0x7900, 0x7a00, 0x7b00, 0x7c00, 0x7d00, 0x7e00, 0x7f00,
     0x8000, 0x8100, 0x8200, 0x8300, 0x8400, 0x8500, 0x8600, 0x8700,
     0x8800, 0x8900, 0x8a00, 0x8b00, 0x8c00, 0x8d00, 0x8e00, 0x8f00,
     0x9000, 0x9100, 0x9200, 0x9300, 0x9400, 0x9500, 0x9600, 0x9700,
     0x9800, 0x9900, 0x9a00, 0x9b00, 0x9c00, 0x9d00, 0x9e00, 0x9f00,
     0xa000, 0xa100, 0xa200, 0xa300, 0xa400, 0xa500, 0xa600, 0xa700,
     0xa800, 0xa900, 0xaa00, 0xab00, 0xac00, 0xad00, 0xae00, 0xaf00,
     0xb000, 0xb100, 0xb200, 0xb300, 0xb400, 0xb500, 0xb600, 0xb700,
     0xb800, 0xb900, 0xba00, 0xbb00, 0xbc00, 0xbd00, 0xbe00, 0xbf00,
     0xc000, 0xc100, 0xc200, 0xc300, 0xc400, 0xc500, 0xc600, 0xc700,
     0xc800, 0xc900, 0xca00, 0xcb00, 0xcc00, 0xcd00, 0xce00, 0xcf00,
     0xd000, 0xd100, 0xd200, 0xd300, 0xd400, 0xd500, 0xd600, 0xd700,
     0xd800, 0xd900, 0xda00, 0xdb00, 0xdc00, 0xdd00, 0xde00, 0xdf00,
     0xe000, 0xe100, 0xe200, 0xe300, 0xe400, 0xe500, 0xe600, 0xe700,
     0xe800, 0xe900, 0xea00, 0xeb00, 0xec00, 0xed00, 0xee00, 0xef00,
     0xf000, 0xf100, 0xf200, 0xf300, 0xf400, 0xf500, 0xf600, 0xf700,
     0xf800, 0xf900, 0xfa00, 0xfb00, 0xfc00, 0xfd00, 0xfe00, 0xff00] = crc16tab"
  by (simp add: crc16tab_def crc_bits_8 crc_bit_num)

lemma upt_256:
  "[0..<256] = [
     0, 1, 2, 3, 4, 5, 6, 7, 8, 9, 10, 11, 12, 13, 14, 15,
     16, 17, 18, 19, 20, 21, 22, 23, 24, 25, 26, 27, 28, 29, 30, 31,
     32, 33, 34, 35, 36, 37, 38, 39, 40, 41, 42, 43, 44, 45, 46, 47,
     48, 49, 50, 51, 52, 53, 54, 55, 56, 57, 58, 59, 60, 61, 62, 63,
     64, 65, 66, 67, 68, 69, 70, 71, 72, 73, 74, 75, 76, 77, 78, 79,
     80, 81, 82, 83, 84, 85, 86, 87, 88, 89, 90, 91, 92, 93, 94, 95,
     96, 97, 98, 99, 100, 101, 102, 103, 104, 105, 106, 107, 108, 109, 110, 111,
     112, 113, 114, 115, 116, 117, 118, 119, 120, 121, 122, 123, 124, 125, 126, 127,
     128, 129, 130, 131, 132, 133, 134, 135, 136, 137, 138, 139, 140, 141, 142, 143,
     144, 145, 146, 147, 148, 149, 150, 151, 152, 153, 154, 155, 156, 157, 158, 159,
     160, 161, 162, 163, 164, 165, 166, 167, 168, 169, 170, 171, 172, 173, 174, 175,
     176, 177, 178, 179, 180, 181, 182, 183, 184, 185, 186, 187, 188, 189, 190, 191,
     192, 193, 194, 195, 196, 197, 198, 199, 200, 201, 202, 203, 204, 205, 206, 207,
     208, 209, 210, 211, 212, 213, 214, 215, 216, 217, 218, 219, 220, 221, 222, 223,
     224, 225, 226, 227, 228, 229, 230, 231, 232, 233, 234, 235, 236, 237, 238, 239,
     240, 241, 242, 243, 244, 245, 246, 247, 248, 249, 250, 251, 252, 253, 254, 255]"
  by code_simp

lemma high_bytes:
  "map (\<lambda>h. of_nat h * 256) [0..<256] = [
     0x0000, 0x0100, 0x0200, 0x0300, 0x0400, 0x0500, 0x0600, 0x0700,
     0x0800, 0x0900, 0x0a00, 0x0b00, 0x0c00, 0x0d00, 0x0e00, 0x0f00,
     0x1000, 0x1100, 0x1200, 0x1300, 0x1400, 0x1500, 0x1600, 0x1700,
     0x1800, 0x1900, 0x1a00, 0x1b00, 0x1c00, 0x1d00, 0x1e00, 0x1f00,
     0x2000, 0x2100, 0x2200, 0x2300, 0x2400, 0x2500, 0x2600, 0x2700,
     0x2800, 0x2900, 0x2a00, 0x2b00, 0x2c00, 0x2d00, 0x2e00, 0x2f00,
     0x3000, 0x3100, 0x3200, 0x3300, 0x3400, 0x3500, 0x3600, 0x3700,
     0x3800, 0x3900, 0x3a00, 0x3b00, 0x3c00, 0x3d00, 0x3e00, 0x3f00,
     0x4000, 0x4100, 0x4200, 0x4300, 0x4400, 0x4500, 0x4600, 0x4700,
     0x4800, 0x4900, 0x4a00, 0x4b00, 0x4c00, 0x4d00, 0x4e00, 0x4f00,
     0x5000, 0x5100, 0x5200, 0x5300, 0x5400, 0x5500, 0x5600, 0x5700,
     0x5800, 0x5900, 0x5a00, 0x5b00, 0x5c00, 0x5d00, 0x5e00, 0x5f00,
     0x6000, 0x6100, 0x6200, 0x6300, 0x6400, 0x6500, 0x6600, 0x6700,
     0x6800, 0x6900, 0x6a00, 0x6b00, 0x6c00, 0x6d00, 0x6e00, 0x6f00,
     0x7000, 0x7100, 0x7200, 0x7300, 0x7400, 0x7500, 0x7600, 0x7700,
     0x7800, 0x7900, 0x7a00, 0x7b00, 0x7c00, 0x7d00, 0x7e00, 0x7f00,
     0x8000, 0x8100, 0x8200, 0x8300, 0x8400, 0x8500, 0x8600, 0x8700,
     0x8800, 0x8900, 0x8a00, 0x8b00, 0x8c00, 0x8d00, 0x8e00, 0x8f00,
     0x9000, 0x9100, 0x9200, 0x9300, 0x9400, 0x9500, 0x9600, 0x9700,
     0x9800, 0x9900, 0x9a00, 0x9b00, 0x9c00, 0x9d00, 0x9e00, 0x9f00,
     0xa000, 0xa100, 0xa200, 0xa300, 0xa400, 0xa500, 0xa600, 0xa700,
     0xa800, 0xa900, 0xaa00, 0xab00, 0xac00, 0xad00, 0xae00, 0xaf00,
     0xb000, 0xb100, 0xb200, 0xb300, 0xb400, 0xb500, 0xb600, 0xb700,
     0xb800, 0xb900, 0xba00, 0xbb00, 0xbc00, 0xbd00, 0xbe00, 0xbf00,
     0xc000, 0xc100, 0xc200, 0xc300, 0xc400, 0xc500, 0xc600, 0xc700,
     0xc800, 0xc900, 0xca00, 0xcb00, 0xcc00, 0xcd00, 0xce00, 0xcf00,
     0xd000, 0xd100, 0xd200, 0xd300, 0xd400, 0xd500, 0xd600, 0xd700,
     0xd800, 0xd900, 0xda00, 0xdb00, 0xdc00, 0xdd00, 0xde00, 0xdf00,
     0xe000, 0xe100, 0xe200, 0xe300, 0xe400, 0xe500, 0xe600, 0xe700,
     0xe800, 0xe900, 0xea00, 0xeb00, 0xec00, 0xed00, 0xee00, 0xef00,
     0xf000, 0xf100, 0xf200, 0xf300, 0xf400, 0xf500, 0xf600, 0xf700,
     0xf800, 0xf900, 0xfa00, 0xfb00, 0xfc00, 0xfd00, 0xfe00, 0xff00 :: 16 word]"
  unfolding upt_256 by simp

lemma crc_bits_high: "h < 256 \<Longrightarrow> (crc_bit ^^ 8) (of_nat h * 256) = crc16tab ! h"
proof -
  assume h: "h < 256"
  have "crc16tab ! h = map (crc_bit ^^ 8) (map (\<lambda>h. of_nat h * 256) [0..<256]) ! h"
    unfolding high_bytes crc16tab_bits ..
  also have "\<dots> = (crc_bit ^^ 8) (of_nat h * 256)" using h by (simp only: nth_map length_map length_upt nth_upt) simp
  finally show ?thesis ..
qed

lemma crc_bits_low:
  assumes "unat x * 2 ^ k < 2 ^ 16"
  shows "(crc_bit ^^ k) x = 2 ^ k * x"
  using assms
proof (induction k)
  case (Suc k)
  have lt: "unat x * 2 ^ k < 2 ^ 15" using Suc.prems by simp
  have eq: "(2 ^ k * x :: 16 word) = of_nat (unat x * 2 ^ k)" by (simp add: mult.commute)
  have "unat (2 ^ k * x :: 16 word) = unat x * 2 ^ k" unfolding eq unat_of_nat using lt by simp
  then have "2 ^ k * x < (0x8000 :: 16 word)" using lt by (simp add: word_less_nat_alt)
  moreover have "(crc_bit ^^ k) x = 2 ^ k * x" using Suc by simp
  ultimately show ?case by (simp add: crc_bit_num[of "2 ^ k * x"])
qed simp

text \<open>A value is its high byte, shifted, and its low byte.\<close>

lemma split_bytes: "x = (of_nat (unat (drop_bit 8 x)) * 256) XOR take_bit 8 (x :: 16 word)"
proof -
  have "x = push_bit 8 (drop_bit 8 x) XOR take_bit 8 x"
    by (rule bit_word_eqI) (auto simp: bit_simps)
  then show ?thesis by (simp add: push_bit_eq_mult)
qed

lemma low_byte: "unat (take_bit 8 (x :: 16 word)) < 256"
  using take_bit_nat_less_exp[of 8 "unat x"] by (simp add: unsigned_take_bit_eq)

lemma crc16_step_ref: "crc16_step crc c = crc_ref crc c"
proof -
  define b where "b = (of_char c :: 16 word)"
  have b: "unat b < 256"
  proof -
    have "b = of_nat (of_char c)" by (simp add: b_def of_char_def)
    moreover have "(of_char c :: nat) < 256" by (metis mod_less_divisor of_char_mod_256 zero_less_numeral)
    ultimately show ?thesis by (simp only: unat_of_nat) (simp add: order_le_less_trans[OF mod_less_eq_dividend])
  qed
  have b8: "take_bit 8 b = b" using b by (simp add: take_bit_eq_mod word_unat_eq_iff unat_mod_distrib)
  then have hi: "\<not> bit b n" if "8 \<le> n" for n using that by (metis bit_take_bit_iff not_less)
  define x where "x = crc XOR push_bit 8 b"
  define h where "h = drop_bit 8 crc XOR b"
  have x: "drop_bit 8 x = h" "take_bit 8 x = take_bit 8 crc"
    using hi by (auto intro!: bit_word_eqI simp: x_def h_def bit_simps)
  have h: "take_bit 8 h = h"
  proof (rule bit_word_eqI)
    fix n assume "n < LENGTH(16)"
    have "\<not> bit crc (8 + n)" if "8 \<le> n" using that bit_imp_le_length[of crc "8 + n"] by auto
    then show "bit (take_bit 8 h) n \<longleftrightarrow> bit h n" using hi[of n] by (cases "n < 8") (auto simp: h_def bit_simps)
  qed
  then have mask: "h AND 0xFF = h" by (simp add: take_bit_eq_mask mask_eq_exp_minus_1)
  have h256: "unat h < 256" using low_byte[of h] h by simp
  have "(crc_bit ^^ 8) x = (crc_bit ^^ 8) ((of_nat (unat h) * 256) XOR take_bit 8 crc)"
    by (rule arg_cong[OF split_bytes[of x, unfolded x]])
  also have "\<dots> = (crc_bit ^^ 8) (of_nat (unat h) * 256) XOR (crc_bit ^^ 8) (take_bit 8 crc)" by (rule crc_bits_xor)
  also have "(crc_bit ^^ 8) (of_nat (unat h) * 256) = crc16tab ! unat h" using crc_bits_high[OF h256] .
  also have "(crc_bit ^^ 8) (take_bit 8 crc) = 2 ^ 8 * take_bit 8 crc"
    using low_byte[of crc] by (intro crc_bits_low) simp
  also have "2 ^ 8 * take_bit 8 crc = push_bit 8 (take_bit 8 crc)" by (simp only: push_bit_eq_mult mult.commute)
  also have "\<dots> = push_bit 8 crc" by (rule bit_word_eqI) (auto simp: bit_simps)
  finally have "crc_ref crc c = crc16tab ! unat h XOR push_bit 8 crc" by (simp only: crc_ref_def x_def b_def)
  moreover have "crc16_step crc c = push_bit 8 crc XOR crc16tab ! unat h"
    by (simp only: crc16_step_def b_def[symmetric] h_def[symmetric] mask)
  ultimately show ?thesis by (simp only: xor.commute)
qed

section \<open>Hash tags\<close>

lemma scan_char_append:
  "c \<notin> set xs \<Longrightarrow> i \<le> length pre \<Longrightarrow> c \<notin> set (drop i pre) \<Longrightarrow>
   scan_char c (pre @ xs @ c # ys) i = length pre + length xs"
proof (induction "length pre + length xs - i" arbitrary: i pre xs)
  case 0
  then have "i = length pre" "length xs = 0" by linarith+
  then show ?case by (subst scan_char.simps) simp
next
  case (Suc n)
  have lt: "i < length pre + length xs" using Suc.hyps(2) by simp
  have "(pre @ xs @ c # ys) ! i \<noteq> c"
  proof (cases "i < length pre")
    case True
    then have "pre ! i \<in> set (drop i pre)" by (metis Cons_nth_drop_Suc list.set_intros(1))
    then show ?thesis using True Suc.prems(3) by (auto simp: nth_append)
  next
    case False
    then have "xs ! (i - length pre) \<in> set xs" using lt by simp
    then show ?thesis using False lt Suc.prems(1) by (auto simp: nth_append)
  qed
  moreover have "scan_char c (pre @ xs @ c # ys) (i + 1) = length pre + length xs"
  proof (cases "i < length pre")
    case True
    then have "c \<notin> set (drop (i + 1) pre)" using Suc.prems(3) set_drop_subset_set_drop[of i "i + 1" pre] by auto
    then show ?thesis using Suc.hyps(1)[of pre xs "i + 1"] Suc.hyps(2) Suc.prems True by simp
  next
    case False
    then obtain x xs' where xs: "xs = x # xs'" "i = length pre" using lt Suc.prems(2) by (cases xs) auto
    then show ?thesis using Suc.hyps(1)[of "pre @ [x]" xs' "i + 1"] Suc.hyps(2) Suc.prems(1) by simp
  qed
  ultimately show ?case using lt by (subst scan_char.simps) simp
qed

text \<open>
  C40. Hash slots. The table-driven checksum is the bit-by-bit checksum with the polynomial 0x1021.
  Every slot is below 16384. If a key contains a non-empty part in braces, after its first opening
  brace up to the next closing one, its slot is the one of that part alone, so that all keys with the
  same part are in the same slot.
\<close>

theorem hash_slot_equiv:
  "crc16_ccitt buf = foldl crc_ref 0 buf \<and> keyHashSlot key < 16384 \<and>
   (CHR ''{'' \<notin> set pre \<and> CHR ''}'' \<notin> set tag \<and> tag \<noteq> [] \<longrightarrow>
      keyHashSlot (pre @ CHR ''{'' # tag @ CHR ''}'' # post) = foldl crc_ref 0 tag AND 0x3FFF)"
proof -
  have "crc16_step = crc_ref" by (intro ext) (rule crc16_step_ref)
  then have crc: "crc16_ccitt buf = foldl crc_ref 0 buf" for buf by (simp add: crc16_ccitt_def)
  have "w AND 0x3FFF < 16384" for w :: "16 word"
    by (rule order_le_less_trans[OF word_and_le1]) simp
  then have bound: "keyHashSlot key < 16384" by (simp add: keyHashSlot_def Let_def)
  have "keyHashSlot (pre @ CHR ''{'' # tag @ CHR ''}'' # post) = foldl crc_ref 0 tag AND 0x3FFF"
    if tag: "CHR ''{'' \<notin> set pre" "CHR ''}'' \<notin> set tag" "tag \<noteq> []"
  proof -
    let ?key = "pre @ CHR ''{'' # tag @ CHR ''}'' # post"
    have s: "scan_char (CHR ''{'') ?key 0 = length pre"
      using scan_char_append[of "CHR ''{''" pre 0 "[]" "tag @ CHR ''}'' # post"] tag(1) by simp
    have e: "scan_char (CHR ''}'') ?key (length pre + 1) = length pre + 1 + length tag"
      using scan_char_append[of "CHR ''}''" tag "length pre + 1" "pre @ [CHR ''{'']" post] tag(2) by simp
    show ?thesis using tag(3) s e by (simp add: keyHashSlot_def Let_def crc)
  qed
  with crc bound show ?thesis by blast
qed

theorem hash_slot_equiv_witness:
  "keyHashSlot ''user{42}name'' = foldl crc_ref 0 ''42'' AND 0x3FFF \<and> keyHashSlot ''x{42}'' = foldl crc_ref 0 ''42'' AND 0x3FFF"
  using hash_slot_equiv[of "[]" "[]" "''user''" "''42''" "''name''"] hash_slot_equiv[of "[]" "[]" "''x''" "''42''" "[]"] by simp

end
