(* ===== verification/Redis_Serialize.thy ===== *)
theory Redis_Serialize
  imports Prelude
begin

text \<open>
  The encoding of commands, imported keys, lock requests and timeouts into the data of raft entries,
  \<open>redisraft/src/serialization_utils.c\<close> and \<open>redisraft/src/serialization.c\<close>.

  \<^item> A buffer with the remaining size is the list of the remaining characters; reading past its end
    is \<open>None\<close>. A decoder returns \<open>Some None\<close> for its error value.
  \<^item> The encoders write into a zeroed entry of a computed size: the written characters are collected
    in a list together with the remaining size, and the entry ends in zeros.
  \<^item> \<open>size_t\<close> values that are decoded are 64-bit words (the digits of a number wrap around); sizes of
    buffers are integers. A Redis string is its list of characters.
  \<^item> A pointer that the code frees without clearing it is \<open>Freed\<close> afterwards; freeing or reading it
    again is \<open>None\<close>. Freeing the string NULL is \<open>None\<close> too, as \<open>RM_FreeString\<close> reads the reference
    count of its argument. Allocation succeeds.
\<close>

section \<open>Integers and strings\<close>

datatype RRStatus = RR_OK | RR_ERROR

abbreviation newline :: char where "newline \<equiv> CHR 0x0A"
abbreviation nul :: char where "nul \<equiv> CHR 0x00"

definition calcIntSerializedLen :: "64 word \<Rightarrow> int" where
  "calcIntSerializedLen val =
     (if val < 10 then 3
      else if val < 100 then 4
      else if val < 1000 then 5
      else if val < 10000 then 6
      else if val < 100000 then 7
      else if val < 1000000 then 8
      else if val < 10000000 then 9
      else 22)"

definition calcSerializeStringSize :: "string option \<Rightarrow> int" where
  "calcSerializeStringSize str =
     (let len = (case str of Some s \<Rightarrow> length s | None \<Rightarrow> 0)
      in calcIntSerializedLen (of_nat len) + int len + 1)"

text \<open>The digits that \<open>printf\<close> writes for \<open>%lu\<close>.\<close>

fun digits :: "nat \<Rightarrow> string" where
  "digits n = (if n < 10 then [char_of (48 + n)] else digits (n div 10) @ [char_of (48 + n mod 10)])"

declare digits.simps [simp del]

fun decode_digits :: "string \<Rightarrow> 64 word \<Rightarrow> int \<Rightarrow> (int \<times> 64 word) option option" where
  "decode_digits [] tmp len = None"
| "decode_digits (ch # rest) tmp len =
     (if ch = newline then Some (Some (len + 1, tmp))
      else if of_char ch < (48 :: nat) \<or> of_char ch > (57 :: nat) then Some None
      else if rest = [] then Some None
      else decode_digits rest (tmp * 10 + (of_char ch - 48)) (len + 1))"

definition decodeInteger :: "string \<Rightarrow> char \<Rightarrow> (int \<times> 64 word) option option" where
  "decodeInteger ptr expect_prefix =
     (if length ptr < 3 then Some None
      else do {
        c \<leftarrow> arr_get ptr 0;
        if c \<noteq> expect_prefix then Some None else decode_digits (tl ptr) 0 1
      })"

definition encodeInteger :: "char \<Rightarrow> int \<Rightarrow> 64 word \<Rightarrow> string option" where
  "encodeInteger prefix sz val =
     (let s = prefix # digits (unat val) @ [newline]
      in if int (length s) \<ge> sz then None else Some s)"

definition decodeString :: "string \<Rightarrow> (int \<times> string) option option" where
  "decodeString p = do {
     r \<leftarrow> decodeInteger p (CHR ''$'');
     (case r of
        None \<Rightarrow> Some None
      | Some (n, len) \<Rightarrow>
          let p = drop (nat n) p in
          if unat len \<ge> length p then Some None
          else Some (Some (n + int (unat len) + 1, take (unat len) p)))
   }"

definition encodeString :: "int \<Rightarrow> string option \<Rightarrow> string option" where
  "encodeString sz str =
     (let e = (case str of None \<Rightarrow> [] | Some s \<Rightarrow> s) in do {
        h \<leftarrow> encodeInteger (CHR ''$'') sz (of_nat (length e));
        if int (length e) \<ge> sz - int (length h) then None else Some (h @ e @ [newline])
      })"

section \<open>Command arrays\<close>

datatype 'a ptr = Null | Live 'a | Freed

fun deref :: "'a ptr \<Rightarrow> 'a option option" where
  "deref Null = Some None"
| "deref (Live x) = Some (Some x)"
| "deref Freed = None"

record RaftRedisCommand =
  argc :: int
  argv :: "string option list ptr"

record RaftRedisCommandArray =
  client_id :: "64 word"
  asking :: bool
  a_size :: int
  a_len :: int
  cmd_flags :: "64 word"
  commands :: "RaftRedisCommand option list"
  acl :: "string ptr"

text \<open>The strings that a loop over the arguments of a command goes through.\<close>

definition arg_at :: "RaftRedisCommand \<Rightarrow> int \<Rightarrow> string option option" where
  "arg_at c i = (case argv c of Live xs \<Rightarrow> arr_get xs i | _ \<Rightarrow> None)"

definition arg_strings :: "RaftRedisCommand \<Rightarrow> string list option" where
  "arg_strings c = do {
     ys \<leftarrow> those (map (arg_at c) [0..argc c - 1]);
     those ys
   }"

definition RaftRedisCommandArrayExtend :: "RaftRedisCommandArray \<Rightarrow> RaftRedisCommandArray option" where
  "RaftRedisCommandArrayExtend target = do {
     let target = (if a_size target = a_len target
       then target\<lparr>a_size := a_size target + 1, commands := commands target @ [None]\<rparr> else target);
     cs \<leftarrow> arr_set (commands target) (a_len target) (Some \<lparr>argc = 0, argv = Null\<rparr>);
     Some (target\<lparr>commands := cs, a_len := a_len target + 1\<rparr>)
   }"

function move_loop :: "RaftRedisCommand option list \<Rightarrow> int \<Rightarrow> RaftRedisCommand option list \<Rightarrow> int \<Rightarrow> int \<Rightarrow>
    (RaftRedisCommand option list \<times> int) option" where
  "move_loop dst dlen src slen i =
     (if i < slen then do {
        c \<leftarrow> arr_get src i;
        dst \<leftarrow> arr_set dst dlen c;
        move_loop dst (dlen + 1) src slen (i + 1)
      } else Some (dst, dlen))"
  by pat_completeness auto
termination by (relation "measure (\<lambda>(dst, dlen, src, slen, i). nat (slen - i))") auto

declare move_loop.simps [simp del]

text \<open>The result is the target and the source after the move.\<close>

definition RaftRedisCommandArrayMove ::
  "RaftRedisCommandArray \<Rightarrow> RaftRedisCommandArray \<Rightarrow> (RaftRedisCommandArray \<times> RaftRedisCommandArray) option" where
  "RaftRedisCommandArrayMove target source = do {
     let target = (if a_len target + a_len source > a_size target
       then target\<lparr>a_size := a_len target + a_len source,
              commands := commands target @ replicate (nat (a_len target + a_len source) - length (commands target)) None\<rparr>
       else target);
     (cs, len) \<leftarrow> move_loop (commands target) (a_len target) (commands source) (a_len source) 0;
     let target = target\<lparr>commands := cs, a_len := len\<rparr>;
     let source' = source\<lparr>a_len := 0, commands := replicate (nat (a_size source)) None\<rparr>;
     let (target, source') = (if acl source' \<noteq> Null
       then (target\<lparr>acl := acl source'\<rparr>, source'\<lparr>acl := Null\<rparr>) else (target, source'));
     Some (target\<lparr>asking := asking target \<or> asking source, client_id := client_id source,
             cmd_flags := or (cmd_flags target) (cmd_flags source)\<rparr>, source')
   }"

definition RaftRedisCommandFree :: "RaftRedisCommand \<Rightarrow> RaftRedisCommand option" where
  "RaftRedisCommandFree r = (case argv r of
     Null \<Rightarrow> Some (r\<lparr>argc := 0\<rparr>)
   | Live _ \<Rightarrow> do {
       _ \<leftarrow> arg_strings r;
       Some (r\<lparr>argc := 0, argv := Freed\<rparr>)
     }
   | Freed \<Rightarrow> None)"

definition free_command_slot :: "RaftRedisCommand option list \<Rightarrow> int \<Rightarrow> unit option" where
  "free_command_slot cs i = do {
     c \<leftarrow> arr_get cs i;
     (case c of
        None \<Rightarrow> Some ()
      | Some r \<Rightarrow> do { _ \<leftarrow> RaftRedisCommandFree r; Some () })
   }"

text \<open>The array NULL is the empty list. The access control string is freed but its pointer is kept.\<close>

definition RaftRedisCommandArrayFree :: "RaftRedisCommandArray \<Rightarrow> RaftRedisCommandArray option" where
  "RaftRedisCommandArrayFree array = do {
     _ \<leftarrow> (if commands array = [] then Some [] else those (map (free_command_slot (commands array)) [0..a_len array - 1]));
     s \<leftarrow> deref (acl array);
     Some (array\<lparr>commands := [], a_size := 0, a_len := 0, acl := (if s = None then Null else Freed), asking := False\<rparr>)
   }"

section \<open>Serialization\<close>

definition string_size :: "string \<Rightarrow> int" where
  "string_size s = calcIntSerializedLen (of_nat (length s)) + int (length s) + 1"

definition calcSerializedSize :: "RaftRedisCommand \<Rightarrow> int option" where
  "calcSerializedSize cmd = do {
     args \<leftarrow> arg_strings cmd;
     Some (calcIntSerializedLen (of_int (argc cmd + 1)) + sum_list (map string_size args))
   }"

text \<open>Writing at the current position: the characters written so far and the remaining size.\<close>

type_synonym writer = "string \<times> int"

definition emit_int :: "char \<Rightarrow> 64 word \<Rightarrow> writer \<Rightarrow> writer option" where
  "emit_int prefix val = (\<lambda>(out, sz). do {
     s \<leftarrow> encodeInteger prefix sz val;
     Some (out @ s, sz - int (length s))
   })"

definition emit_string :: "string option \<Rightarrow> writer \<Rightarrow> writer option" where
  "emit_string str = (\<lambda>(out, sz). do {
     s \<leftarrow> encodeString sz str;
     Some (out @ s, sz - int (length s))
   })"

definition emit_arg :: "string \<Rightarrow> writer \<Rightarrow> writer option" where
  "emit_arg e = (\<lambda>(out, sz). do {
     assert_ok (sz > int (length e));
     (out, sz) \<leftarrow> emit_int (CHR ''$'') (of_nat (length e)) (out, sz);
     assert_ok (int (length e) + 1 \<le> sz);
     Some (out @ e @ [newline], sz - (int (length e) + 1))
   })"

fun emit_all :: "('a \<Rightarrow> writer \<Rightarrow> writer option) \<Rightarrow> 'a list \<Rightarrow> writer \<Rightarrow> writer option" where
  "emit_all f [] w = Some w"
| "emit_all f (x # xs) w = do { w \<leftarrow> f x w; emit_all f xs w }"

definition emit_command :: "RaftRedisCommand \<Rightarrow> writer \<Rightarrow> writer option" where
  "emit_command src w = do {
     w \<leftarrow> emit_int (CHR ''*'') (of_int (argc src)) w;
     args \<leftarrow> arg_strings src;
     emit_all emit_arg args w
   }"

definition entry_data :: "int \<Rightarrow> string \<Rightarrow> string" where
  "entry_data sz out = out @ replicate (nat sz - length out) nul"

definition source_commands :: "RaftRedisCommandArray \<Rightarrow> RaftRedisCommand list option" where
  "source_commands source = do {
     cs \<leftarrow> those (map (arr_get (commands source)) [0..a_len source - 1]);
     those cs
   }"

text \<open>
  The result is the data of the new entry. The code goes on when encoding the access control string
  fails; the model stops there, and serializing is shown not to get there.
\<close>

definition RaftRedisCommandArraySerialize :: "RaftRedisCommandArray \<Rightarrow> string option" where
  "RaftRedisCommandArraySerialize source = do {
     cs \<leftarrow> source_commands source;
     acl_str \<leftarrow> deref (acl source);
     sizes \<leftarrow> those (map calcSerializedSize cs);
     let sz = calcIntSerializedLen 2 + calcIntSerializedLen 3 +
       calcIntSerializedLen (if asking source then 1 else 0) + calcIntSerializedLen (cmd_flags source) +
       calcIntSerializedLen (of_int (a_len source)) + sum_list sizes + calcSerializeStringSize acl_str;
     w \<leftarrow> emit_int (CHR ''*'') 2 ([], sz);
     w \<leftarrow> emit_int (CHR ''*'') 3 w;
     w \<leftarrow> emit_int (CHR '':'') (if asking source then 1 else 0) w;
     w \<leftarrow> emit_int (CHR '':'') (cmd_flags source) w;
     w \<leftarrow> emit_string acl_str w;
     w \<leftarrow> emit_int (CHR ''*'') (of_int (a_len source)) w;
     w \<leftarrow> emit_all emit_command cs w;
     Some (entry_data sz (fst w))
   }"

text \<open>
  Reading the arguments of a command: the arguments that were read, and the number of characters they
  take or \<open>None\<close> when one of them cannot be read.
\<close>

fun read_args :: "nat \<Rightarrow> string \<Rightarrow> (string list \<times> int option) option" where
  "read_args 0 p = Some ([], Some 0)"
| "read_args (Suc k) p = do {
     r \<leftarrow> decodeInteger p (CHR ''$'');
     (case r of
        None \<Rightarrow> Some ([], None)
      | Some (n, len) \<Rightarrow>
          let q = drop (nat n) p in
          if length q \<le> unat len then Some ([], None)
          else do {
            (args, m) \<leftarrow> read_args k (drop (unat len + 1) q);
            Some (take (unat len) q # args, map_option (\<lambda>m. n + int (unat len) + 1 + m) m)
          })
   }"

definition padded :: "nat \<Rightarrow> 'a list \<Rightarrow> 'a option list" where
  "padded n xs = map Some xs @ replicate (n - length xs) None"

text \<open>The result is 0 for an error, or the number of characters, with the command.\<close>

definition RaftRedisCommandDeserialize :: "RaftRedisCommand \<Rightarrow> string \<Rightarrow> (int \<times> RaftRedisCommand) option" where
  "RaftRedisCommandDeserialize target p = do {
     r \<leftarrow> decodeInteger p (CHR ''*'');
     (case r of
        None \<Rightarrow> Some (0, target)
      | Some (n, len) \<Rightarrow>
          if len = 0 then Some (0, target)
          else do {
            let argc = sint (ucast len :: 32 word);
            (args, m) \<leftarrow> read_args (nat argc) (drop (nat n) p);
            let target = target\<lparr>argc := argc, argv := Live (padded (unat len) args)\<rparr>;
            (case m of
               None \<Rightarrow> do { target \<leftarrow> RaftRedisCommandFree target; Some (0, target) }
             | Some m \<Rightarrow> Some (n + m, target))
          })
   }"

text \<open>The commands up to the first one that cannot be read, and whether all of them could be read.\<close>

fun read_commands :: "nat \<Rightarrow> string \<Rightarrow> (RaftRedisCommand list \<times> bool) option" where
  "read_commands 0 p = Some ([], True)"
| "read_commands (Suc k) p = do {
     (len, c) \<leftarrow> RaftRedisCommandDeserialize \<lparr>argc = 0, argv = Null\<rparr> p;
     if len = 0 then Some ([c], False)
     else do {
       (cs, done) \<leftarrow> read_commands k (drop (nat len) p);
       Some (c # cs, done)
     }
   }"

definition read_body :: "RaftRedisCommandArray \<Rightarrow> string \<Rightarrow> (RRStatus \<times> RaftRedisCommandArray) option" where
  "read_body target p = do {
     r \<leftarrow> decodeInteger p (CHR ''*'');
     (case r of
        None \<Rightarrow> Some (RR_ERROR, target)
      | Some (n, commands_num) \<Rightarrow>
          if commands_num = 0 then Some (RR_ERROR, target)
          else do {
            let len = sint (ucast commands_num :: 32 word);
            (cs, done) \<leftarrow> read_commands (unat commands_num) (drop (nat n) p);
            let target = target\<lparr>a_len := len, a_size := len, commands := padded (unat commands_num) cs\<rparr>;
            if done then Some (RR_OK, target)
            else do { target \<leftarrow> RaftRedisCommandArrayFree target; Some (RR_ERROR, target) }
          })
   }"

definition read_acl :: "RaftRedisCommandArray \<Rightarrow> string \<Rightarrow> (RRStatus \<times> RaftRedisCommandArray) option" where
  "read_acl target p = do {
     r \<leftarrow> decodeString p;
     (case r of
        None \<Rightarrow> Some (RR_ERROR, target)
      | Some (n, s) \<Rightarrow> read_body (target\<lparr>acl := (if length s = 0 then Null else Live s)\<rparr>) (drop (nat n) p))
   }"

definition read_flags :: "RaftRedisCommandArray \<Rightarrow> string \<Rightarrow> (RRStatus \<times> RaftRedisCommandArray) option" where
  "read_flags target p = do {
     r \<leftarrow> decodeInteger p (CHR '':'');
     (case r of
        None \<Rightarrow> Some (RR_ERROR, target)
      | Some (n, ask) \<Rightarrow> do {
          let target = target\<lparr>asking := (ask \<noteq> 0)\<rparr>;
          let p = drop (nat n) p;
          r \<leftarrow> decodeInteger p (CHR '':'');
          (case r of
             None \<Rightarrow> Some (RR_ERROR, target)
           | Some (n, flags) \<Rightarrow> read_acl (target\<lparr>cmd_flags := flags\<rparr>) (drop (nat n) p))
        })
   }"

definition RaftRedisCommandArrayDeserialize ::
  "RaftRedisCommandArray \<Rightarrow> string \<Rightarrow> (RRStatus \<times> RaftRedisCommandArray) option" where
  "RaftRedisCommandArrayDeserialize target p = do {
     target \<leftarrow> (if a_len target \<noteq> 0 then RaftRedisCommandArrayFree target else Some target);
     r \<leftarrow> decodeInteger p (CHR ''*'');
     (case r of
        None \<Rightarrow> Some (RR_ERROR, target)
      | Some (n, val) \<Rightarrow>
          if val \<noteq> 2 then Some (RR_ERROR, target)
          else do {
            let p = drop (nat n) p;
            r \<leftarrow> decodeInteger p (CHR ''*'');
            (case r of
               None \<Rightarrow> Some (RR_ERROR, target)
             | Some (n, val) \<Rightarrow>
                 if val \<noteq> 3 then Some (RR_ERROR, target) else read_flags target (drop (nat n) p))
          })
   }"

section \<open>Timeouts\<close>

definition RaftRedisSerializeTimeout :: "int \<Rightarrow> bool \<Rightarrow> string option" where
  "RaftRedisSerializeTimeout idx error =
     (let err_val = (if error then 1 else 0);
          sz = calcIntSerializedLen (of_int idx) + calcIntSerializedLen err_val + 1
      in do {
        w \<leftarrow> emit_int (CHR ''*'') (of_int idx) ([], sz);
        w \<leftarrow> emit_int (CHR ''*'') err_val w;
        Some (entry_data sz (fst w))
      })"

text \<open>The result has the status, the index and the error flag; the last two are set on success.\<close>

definition RaftRedisDeserializeTimeout :: "string \<Rightarrow> (RRStatus \<times> int \<times> bool) option" where
  "RaftRedisDeserializeTimeout p = do {
     r \<leftarrow> decodeInteger p (CHR ''*'');
     (case r of
        None \<Rightarrow> Some (RR_ERROR, 0, False)
      | Some (n, idx) \<Rightarrow> do {
          let p = drop (nat n) p;
          r \<leftarrow> decodeInteger p (CHR ''*'');
          (case r of
             None \<Rightarrow> Some (RR_ERROR, sint idx, False)
           | Some (n, tmp) \<Rightarrow> do {
               assert_ok (length (drop (nat n) p) = 1);
               Some (RR_OK, sint idx, tmp = 1)
             })
        })
   }"

section \<open>Imported keys\<close>

record ImportKeys =
  i_term :: int
  migration_session_key :: "64 word"
  num_keys :: "64 word"
  key_names :: "string option list"
  key_serialized :: "string option list"

definition FreeImportKeys :: "ImportKeys \<Rightarrow> ImportKeys" where
  "FreeImportKeys target = (if num_keys target \<noteq> 0 then target\<lparr>key_names := [], key_serialized := []\<rparr> else target)"

definition nth_key :: "string option list \<Rightarrow> nat \<Rightarrow> string option option" where
  "nth_key ks i = arr_get ks (int i)"

definition RaftRedisSerializeImport :: "ImportKeys \<Rightarrow> string option" where
  "RaftRedisSerializeImport k = do {
     names \<leftarrow> those (map (nth_key (key_names k)) [0..<unat (num_keys k)]);
     sers \<leftarrow> those (map (nth_key (key_serialized k)) [0..<unat (num_keys k)]);
     let sz = calcIntSerializedLen (of_int (i_term k)) + calcIntSerializedLen (migration_session_key k) +
       calcIntSerializedLen (num_keys k) +
       sum_list (map (\<lambda>(a, b). calcSerializeStringSize a + calcSerializeStringSize b) (zip names sers));
     w \<leftarrow> emit_int (CHR ''*'') (of_int (i_term k)) ([], sz);
     w \<leftarrow> emit_int (CHR ''*'') (migration_session_key k) w;
     w \<leftarrow> emit_int (CHR ''*'') (num_keys k) w;
     w \<leftarrow> emit_all (\<lambda>(a, b) w. do { w \<leftarrow> emit_string a w; emit_string b w }) (zip names sers) w;
     Some (entry_data sz (fst w))
   }"

text \<open>The names and values that could be read, and whether all of them could.\<close>

fun read_keys :: "nat \<Rightarrow> string \<Rightarrow> (string list \<times> string list \<times> bool) option" where
  "read_keys 0 p = Some ([], [], True)"
| "read_keys (Suc k) p = do {
     r \<leftarrow> decodeString p;
     (case r of
        None \<Rightarrow> Some ([], [], False)
      | Some (n, a) \<Rightarrow> do {
          let p = drop (nat n) p;
          r \<leftarrow> decodeString p;
          (case r of
             None \<Rightarrow> Some ([a], [], False)
           | Some (n, b) \<Rightarrow> do {
               (as, bs, done) \<leftarrow> read_keys k (drop (nat n) p);
               Some (a # as, b # bs, done)
             })
        })
   }"

definition RaftRedisDeserializeImport :: "ImportKeys \<Rightarrow> string \<Rightarrow> (RRStatus \<times> ImportKeys) option" where
  "RaftRedisDeserializeImport target p = do {
     let target = FreeImportKeys target;
     r \<leftarrow> decodeInteger p (CHR ''*'');
     (case r of
        None \<Rightarrow> Some (RR_ERROR, target)
      | Some (n, t) \<Rightarrow> if t = 0 then Some (RR_ERROR, target) else do {
          let target = target\<lparr>i_term := sint t\<rparr>;
          let p = drop (nat n) p;
          r \<leftarrow> decodeInteger p (CHR ''*'');
          (case r of
             None \<Rightarrow> Some (RR_ERROR, target)
           | Some (n, key) \<Rightarrow> do {
               let target = target\<lparr>migration_session_key := key\<rparr>;
               let p = drop (nat n) p;
               r \<leftarrow> decodeInteger p (CHR ''*'');
               (case r of
                  None \<Rightarrow> Some (RR_ERROR, target)
                | Some (n, num) \<Rightarrow> if num = 0 then Some (RR_ERROR, target) else do {
                    (as, bs, done) \<leftarrow> read_keys (unat num) (drop (nat n) p);
                    Some (if done then RR_OK else RR_ERROR,
                      target\<lparr>num_keys := num, key_names := padded (unat num) as, key_serialized := padded (unat num) bs\<rparr>)
                  })
             })
        })
   }"

section \<open>Lock requests\<close>

text \<open>
  The dictionary of the Redis module interface is a set of keys; setting a key succeeds when it is
  new. \<open>dict_keys\<close> is the order in which the iterator goes through the keys.
\<close>

fun collect_keys :: "string list \<Rightarrow> string list \<Rightarrow> int \<Rightarrow> int \<Rightarrow> string list \<times> int \<times> int" where
  "collect_keys [] dict total_size num = (dict, total_size, num)"
| "collect_keys (k # ks) dict total_size num =
     (if k \<notin> set dict then collect_keys ks (k # dict) (total_size + (int (length k) + 1)) (num + 1)
      else collect_keys ks dict total_size num)"

fun write_keys :: "string list \<Rightarrow> int \<Rightarrow> string \<Rightarrow> int \<Rightarrow> (string \<times> int) option" where
  "write_keys [] total_size out data_len = Some (out, data_len)"
| "write_keys (k # ks) total_size out data_len = do {
     assert_ok (total_size \<ge> int (length k) + 1);
     write_keys ks total_size (out @ k @ [nul]) (data_len - (int (length k) + 1))
   }"

definition RaftRedisLockKeysSerialize :: "(string list \<Rightarrow> string list) \<Rightarrow> string list \<Rightarrow> string option" where
  "RaftRedisLockKeysSerialize dict_keys args =
     (let (dict, total_key_size, num) = collect_keys args [] 0 0;
          data_len = calcIntSerializedLen (of_int num) + total_key_size
      in do {
        h \<leftarrow> encodeInteger (CHR ''*'') total_key_size (of_int num);
        (out, rest) \<leftarrow> write_keys (dict_keys dict) total_key_size h (data_len - int (length h));
        assert_ok (rest = 0);
        Some (entry_data data_len out)
      })"

definition c_strlen :: "string \<Rightarrow> nat option" where
  "c_strlen p = (let n = length (takeWhile (\<lambda>c. c \<noteq> nul) p) in if n < length p then Some n else None)"

fun read_lock_keys :: "nat \<Rightarrow> string \<Rightarrow> string list option" where
  "read_lock_keys 0 p = Some []"
| "read_lock_keys (Suc k) p = do {
     n \<leftarrow> c_strlen p;
     ks \<leftarrow> read_lock_keys k (drop (n + 1) p);
     Some (take n p # ks)
   }"

text \<open>The keys, or \<open>Some None\<close> for the result NULL.\<close>

definition RaftRedisLockKeysDeserialize :: "string \<Rightarrow> string list option option" where
  "RaftRedisLockKeysDeserialize p = do {
     r \<leftarrow> decodeInteger p (CHR ''*'');
     (case r of
        None \<Rightarrow> Some None
      | Some (n, num) \<Rightarrow> do {
          ks \<leftarrow> read_lock_keys (unat num) (drop (nat n) p);
          Some (Some ks)
        })
   }"

section \<open>Digits\<close>

lemma digit_char: "(d :: nat) < 10 \<Longrightarrow> of_char (char_of (48 + d) :: char) = 48 + d"
  by (simp add: of_char_of)

definition digit_val :: "char \<Rightarrow> 64 word" where
  "digit_val ch = of_char ch - 48"

definition is_digit :: "char \<Rightarrow> bool" where
  "is_digit ch \<longleftrightarrow> 48 \<le> (of_char ch :: nat) \<and> of_char ch \<le> (57 :: nat)"

lemma decode_digits_append:
  assumes "\<forall>c \<in> set ds. is_digit c" "tail \<noteq> []"
  shows "decode_digits (ds @ tail) tmp len = decode_digits tail (foldl (\<lambda>t c. t * 10 + digit_val c) tmp ds) (len + int (length ds))"
  using assms
proof (induction ds arbitrary: tmp len)
  case (Cons c ds)
  have "c \<noteq> newline" using Cons.prems(1) by (auto simp: is_digit_def)
  then show ?case using Cons by (simp add: is_digit_def digit_val_def algebra_simps)
qed simp

lemma digits_ok: "(\<forall>c \<in> set (digits n). is_digit c) \<and> foldl (\<lambda>t c. t * 10 + digit_val c) 0 (digits n) = of_nat n"
proof (induction n rule: digits.induct)
  case (1 n)
  have one: "is_digit (char_of (48 + d)) \<and> digit_val (char_of (48 + d)) = of_nat d" if "d < 10" for d :: nat
  proof -
    have "(of_char (char_of (48 + d) :: char) :: 64 word) = of_nat (of_char (char_of (48 + d) :: char))" by (simp add: of_char_def)
    then show ?thesis using that digit_char[OF that] by (simp add: is_digit_def digit_val_def)
  qed
  show ?case
  proof (cases "n < 10")
    case True
    then show ?thesis using one[of n] by (subst (1 2) digits.simps) simp
  next
    case False
    have "of_nat (n div 10) * 10 + of_nat (n mod 10) = (of_nat n :: 64 word)"
      by (metis div_mult_mod_eq of_nat_add of_nat_mult of_nat_numeral)
    then show ?thesis using 1 False one[of "n mod 10"] by (subst (1 2) digits.simps) auto
  qed
qed

lemma digits_nonempty [simp]: "digits n \<noteq> []"
  by (subst digits.simps) auto

lemma digits_length: "n < 10 ^ Suc k \<Longrightarrow> length (digits n) \<le> Suc k"
proof (induction k arbitrary: n)
  case 0
  then show ?case by (subst digits.simps) simp
next
  case (Suc k)
  then have "length (digits (n div 10)) \<le> Suc k" by (simp add: less_mult_imp_div_less)
  then show ?case by (subst digits.simps) simp
qed

lemma digits_length_ge: "10 ^ k \<le> n \<Longrightarrow> Suc k \<le> length (digits n)"
proof (induction k arbitrary: n)
  case 0
  then show ?case using digits_nonempty[of n] by (cases "digits n") auto
next
  case (Suc k)
  have "(1 :: nat) \<le> 10 ^ k" by simp
  then have "10 \<le> n" using Suc.prems unfolding power_Suc by linarith
  moreover have "10 ^ k \<le> n div 10" using Suc.prems by (simp add: less_eq_div_iff_mult_less_eq mult.commute)
  ultimately show ?case using Suc.IH[of "n div 10"] by (subst digits.simps) simp
qed

section \<open>The text of the encodings\<close>

definition int_text :: "char \<Rightarrow> 64 word \<Rightarrow> string" where
  "int_text prefix val = prefix # digits (unat val) @ [newline]"

definition str_text :: "string \<Rightarrow> string" where
  "str_text s = int_text (CHR ''$'') (of_nat (length s)) @ s @ [newline]"

definition short :: "string \<Rightarrow> bool" where
  "short s \<longleftrightarrow> length s < 2 ^ 64"

lemma uint_small: "0 \<le> n \<Longrightarrow> n < 2 ^ 64 \<Longrightarrow> uint (of_int n :: 64 word) = n"
  by (simp add: uint_word_of_int_eq take_bit_int_eq_self)

lemma short_unat: "short s \<Longrightarrow> unat (of_nat (length s) :: 64 word) = length s"
  by (simp add: short_def unat_of_nat take_bit_nat_eq_self)

lemma int_text_length: "3 \<le> length (int_text prefix val)"
  using digits_nonempty[of "unat val"] by (cases "digits (unat val)") (simp_all add: int_text_def)

lemma decode_int_text:
  "decodeInteger (int_text prefix val @ rest) prefix = Some (Some (int (length (int_text prefix val)), val))"
proof -
  have "decode_digits (digits (unat val) @ newline # rest) 0 1 = Some (Some (int (length (digits (unat val))) + 2, val))"
    using digits_ok[of "unat val"] by (subst decode_digits_append) simp_all
  then show ?thesis using int_text_length[of prefix val]
    by (simp add: decodeInteger_def arr_get_def) (simp add: int_text_def)
qed

text \<open>The size that is computed for a number is enough for it, and exact below ten million.\<close>

lemma calc_exact:
  assumes "val < 10000000"
  shows "calcIntSerializedLen val = int (length (int_text prefix val))"
proof -
  have len: "length (digits (unat val)) = Suc k" if "10 ^ k \<le> unat val" "unat val < 10 ^ Suc k" for k
    using digits_length[OF that(2)] digits_length_ge[OF that(1)] by simp
  have l0: "length (digits (unat val)) = 1" if "unat val < 10" using that digits.simps[of "unat val"] by simp
  show ?thesis using assms l0 len[of 1] len[of 2] len[of 3] len[of 4] len[of 5] len[of 6]
    by (auto simp: calcIntSerializedLen_def int_text_def word_less_nat_alt)
qed

lemma calc_large:
  assumes "\<not> val < 10000000"
  shows "calcIntSerializedLen val = 22" "length (int_text prefix val) \<le> 22"
proof -
  have "unat val < 2 ^ 64" using unsigned_less[of val] by simp
  then have "unat val < 10 ^ Suc 19" by simp
  then show "length (int_text prefix val) \<le> 22" using digits_length[of "unat val" 19] by (simp add: int_text_def)
  show "calcIntSerializedLen val = 22" using assms by (auto simp: calcIntSerializedLen_def word_less_nat_alt)
qed

lemma calc_enough: "int (length (int_text prefix val)) \<le> calcIntSerializedLen val"
  using calc_exact[of val prefix] calc_large[of val] by (cases "val < 10000000") auto

lemma calc_ge_3: "3 \<le> calcIntSerializedLen val"
  using calc_enough[of nul val] int_text_length[of nul val] by linarith

lemma calc_mono:
  assumes "a \<le> b"
  shows "calcIntSerializedLen a \<le> calcIntSerializedLen b"
  using assms by (auto simp: calcIntSerializedLen_def)

lemma emit_int_ok:
  "int (length (int_text prefix val)) < sz \<Longrightarrow>
   emit_int prefix val (out, sz) = Some (out @ int_text prefix val, sz - int (length (int_text prefix val)))"
  by (simp add: emit_int_def encodeInteger_def int_text_def)

lemma str_text_length: "int (length (str_text s)) \<le> string_size s" "4 \<le> string_size s"
  using calc_enough[of "CHR ''$''" "of_nat (length s)"] calc_ge_3[of "of_nat (length s)"] by (simp_all add: str_text_def string_size_def)

lemma emit_arg_ok:
  assumes "string_size s \<le> sz"
  shows "emit_arg s (out, sz) = Some (out @ str_text s, sz - int (length (str_text s)))"
proof -
  let ?h = "int_text (CHR ''$'') (of_nat (length s))"
  have "int (length ?h) + int (length s) + 1 \<le> sz"
    using assms calc_enough[of "CHR ''$''" "of_nat (length s)"] by (simp add: string_size_def)
  then show ?thesis using emit_int_ok[of "CHR ''$''" "of_nat (length s)" sz out] by (simp add: emit_arg_def str_text_def)
qed

definition opt_string :: "string option \<Rightarrow> string" where
  "opt_string a = (case a of None \<Rightarrow> [] | Some s \<Rightarrow> s)"

lemma calcSerializeStringSize_opt: "calcSerializeStringSize a = string_size (opt_string a)"
  by (cases a) (simp_all add: calcSerializeStringSize_def string_size_def opt_string_def Let_def)

lemma emit_string_ok:
  assumes "string_size (opt_string a) \<le> sz"
  shows "emit_string a (out, sz) = Some (out @ str_text (opt_string a), sz - int (length (str_text (opt_string a))))"
proof -
  let ?s = "opt_string a" and ?h = "int_text (CHR ''$'') (of_nat (length (opt_string a)))"
  have "int (length ?h) + int (length ?s) + 1 \<le> sz"
    using assms calc_enough[of "CHR ''$''" "of_nat (length ?s)"] by (simp add: string_size_def)
  then show ?thesis by (simp add: emit_string_def encodeString_def encodeInteger_def str_text_def int_text_def Let_def flip: opt_string_def)
qed

lemma emit_all_ok:
  assumes "\<And>x out sz. x \<in> set xs \<Longrightarrow> size_of x \<le> sz \<Longrightarrow> f x (out, sz) = Some (out @ txt x, sz - int (length (txt x)))"
    and "\<And>x. x \<in> set xs \<Longrightarrow> int (length (txt x)) \<le> size_of x"
    and "sum_list (map size_of xs) \<le> sz"
  shows "emit_all f xs (out, sz) = Some (out @ concat (map txt xs), sz - int (length (concat (map txt xs))))"
  using assms
proof (induction xs arbitrary: out sz)
  case (Cons x xs)
  have nonneg: "0 \<le> sum_list (map size_of xs)" using Cons.prems(2) by (intro sum_list_nonneg) fastforce
  have "f x (out, sz) = Some (out @ txt x, sz - int (length (txt x)))" using Cons.prems(1)[of x sz out] Cons.prems(3) nonneg by simp
  moreover have "sum_list (map size_of xs) \<le> sz - int (length (txt x))" using Cons.prems(2)[of x] Cons.prems(3) by simp
  ultimately show ?case using Cons.IH[of "sz - int (length (txt x))" "out @ txt x"] Cons.prems(1,2) by simp
qed simp

lemma those_arr_get: "n = int (length xs) \<Longrightarrow> those (map (arr_get xs) [0..n - 1]) = Some xs"
proof -
  assume n: "n = int (length xs)"
  have "those (map (arr_get xs) [0..n - 1]) = Some (map (\<lambda>i. xs ! nat i) [0..n - 1])" using n by (intro those_map_Some) (simp add: arr_get_def)
  moreover have "map (\<lambda>i. xs ! nat i) [0..n - 1] = xs" using n by (intro nth_equalityI) auto
  ultimately show ?thesis by simp
qed

section \<open>Commands\<close>

definition args_of :: "RaftRedisCommand \<Rightarrow> string list" where
  "args_of c = (case argv c of Live xs \<Rightarrow> map the xs | _ \<Rightarrow> [])"

definition command_ok :: "RaftRedisCommand \<Rightarrow> bool" where
  "command_ok c \<longleftrightarrow> argv c = Live (map Some (args_of c)) \<and> argc c = int (length (args_of c)) \<and>
     0 < argc c \<and> argc c < 2 ^ 31 \<and> (\<forall>s \<in> set (args_of c). short s)"

lemma those_map_id: "those (map Some xs) = Some xs"
  by (induction xs) auto

lemma arg_strings_live:
  assumes "argv c = Live (map Some xs)" "argc c = int (length xs)"
  shows "arg_strings c = Some xs"
proof -
  have "arg_at c = arr_get (map Some xs)" using assms(1) by (auto simp: arg_at_def)
  then show ?thesis using assms(2) those_arr_get[of "argc c" "map Some xs"] by (simp add: arg_strings_def those_map_id)
qed

definition cmd_text :: "RaftRedisCommand \<Rightarrow> string" where
  "cmd_text c = int_text (CHR ''*'') (of_int (argc c)) @ concat (map str_text (args_of c))"

definition cmd_size :: "RaftRedisCommand \<Rightarrow> int" where
  "cmd_size c = calcIntSerializedLen (of_int (argc c + 1)) + sum_list (map string_size (args_of c))"

lemma command_okD:
  assumes "command_ok c"
  shows "argc c = int (length (args_of c))" "args_of c \<noteq> []" "length (args_of c) < 2 ^ 31" "\<forall>s \<in> set (args_of c). short s"
    "arg_strings c = Some (args_of c)" "argv c = Live (map Some (args_of c))"
  using assms arg_strings_live[of c "args_of c"] unfolding command_ok_def by auto

lemma calcSerializedSize_ok: "command_ok c \<Longrightarrow> calcSerializedSize c = Some (cmd_size c)"
  by (simp add: calcSerializedSize_def command_okD(5) cmd_size_def)

lemma argc_calc: "command_ok c \<Longrightarrow> calcIntSerializedLen (of_int (argc c)) \<le> calcIntSerializedLen (of_int (argc c + 1))"
proof (rule calc_mono)
  assume "command_ok c"
  then have "0 < argc c" "argc c < 2 ^ 31" unfolding command_ok_def by blast+
  then have "uint (of_int (argc c) :: 64 word) = argc c" "uint (of_int (argc c + 1) :: 64 word) = argc c + 1"
    by (auto intro!: uint_small simp del: of_int_add)
  then show "(of_int (argc c) :: 64 word) \<le> of_int (argc c + 1)" unfolding word_le_def by linarith
qed

lemma sum_list_length_bound:
  "(\<And>x. x \<in> set xs \<Longrightarrow> int (length (txt x)) \<le> size_of x) \<Longrightarrow> int (length (concat (map txt xs))) \<le> sum_list (map size_of xs)"
  by (induction xs) (auto simp: add_mono)

lemma cmd_text_length: "command_ok c \<Longrightarrow> int (length (cmd_text c)) \<le> cmd_size c"
  using calc_enough[of "CHR ''*''" "of_int (argc c)"] argc_calc[of c] sum_list_length_bound[of "args_of c" str_text string_size] str_text_length
  by (simp add: cmd_text_def cmd_size_def)

lemma emit_command_ok:
  assumes ok: "command_ok c" and sz: "cmd_size c \<le> sz"
  shows "emit_command c (out, sz) = Some (out @ cmd_text c, sz - int (length (cmd_text c)))"
proof -
  let ?h = "int_text (CHR ''*'') (of_int (argc c))"
  obtain s ss where args: "args_of c = s # ss" using command_okD(2)[OF ok] by (cases "args_of c") auto
  have "0 \<le> sum_list (map string_size ss)" using str_text_length(2) by (intro sum_list_nonneg) (auto intro: order_trans[of 0 4])
  then have four: "4 \<le> sum_list (map string_size (args_of c))" using args str_text_length(2)[of s] by simp
  have h: "int (length ?h) \<le> calcIntSerializedLen (of_int (argc c + 1))"
    using calc_enough[of "CHR ''*''" "of_int (argc c)"] argc_calc[OF ok] by linarith
  have "emit_int (CHR ''*'') (of_int (argc c)) (out, sz) = Some (out @ ?h, sz - int (length ?h))"
    using h four sz by (intro emit_int_ok) (simp add: cmd_size_def)
  moreover have "emit_all emit_arg (args_of c) (out @ ?h, sz - int (length ?h)) =
      Some ((out @ ?h) @ concat (map str_text (args_of c)), sz - int (length ?h) - int (length (concat (map str_text (args_of c)))))"
    using h sz str_text_length(1) by (intro emit_all_ok[of _ string_size]) (auto simp: emit_arg_ok cmd_size_def)
  ultimately show ?thesis by (simp add: emit_command_def command_okD(5)[OF ok] cmd_text_def)
qed

lemma read_args_text:
  "\<forall>s \<in> set args. short s \<Longrightarrow>
   read_args (length args) (concat (map str_text args) @ rest) = Some (args, Some (int (length (concat (map str_text args)))))"
proof (induction args)
  case (Cons s args)
  let ?h = "int_text (CHR ''$'') (of_nat (length s))" and ?t = "concat (map str_text args) @ rest"
  have tx: "concat (map str_text (s # args)) @ rest = ?h @ (s @ newline # ?t)" by (simp add: str_text_def)
  have "unat (of_nat (length s) :: 64 word) = length s" using Cons.prems by (simp add: short_unat)
  moreover have "length (str_text s) = length ?h + length s + 1" by (simp add: str_text_def)
  moreover have "read_args (length args) ?t = Some (args, Some (int (length (concat (map str_text args)))))"
    using Cons by simp
  ultimately show ?case using decode_int_text[of "CHR ''$''" "of_nat (length s)" "s @ newline # ?t"]
    unfolding tx by simp
qed simp

lemma argc_word:
  assumes "0 < n" "n < 2 ^ 31"
  shows "sint (ucast (of_int n :: 64 word) :: 32 word) = n" "(of_int n :: 64 word) \<noteq> 0"
proof -
  have u: "uint (of_int n :: 64 word) = n" using assms by (intro uint_small) auto
  show "sint (ucast (of_int n :: 64 word) :: 32 word) = n"
    using assms by (simp add: signed_ucast_eq u signed_take_bit_int_eq_self)
  show "(of_int n :: 64 word) \<noteq> 0" using u assms by auto
qed

lemma deserialize_cmd_text:
  assumes "command_ok c"
  shows "RaftRedisCommandDeserialize t (cmd_text c @ rest) = Some (int (length (cmd_text c)), c)"
proof -
  note c = command_okD[OF assms]
  let ?h = "int_text (CHR ''*'') (of_int (argc c))"
  have "0 < argc c" "argc c < 2 ^ 31" using assms unfolding command_ok_def by blast+
  note w = argc_word[OF this]
  have tx: "cmd_text c @ rest = ?h @ (concat (map str_text (args_of c)) @ rest)" by (simp add: cmd_text_def)
  have "nat (argc c) = length (args_of c)" "unat (of_int (argc c) :: 64 word) = length (args_of c)"
    using c(1,3) uint_small[of "argc c"] by (simp_all add: unat_eq_nat_uint)
  then have "padded (unat (of_int (argc c) :: 64 word)) (args_of c) = map Some (args_of c)" by (simp add: padded_def)
  moreover have "t\<lparr>argc := argc c, argv := Live (map Some (args_of c))\<rparr> = c" using c(6) by (cases c) simp
  ultimately show ?thesis using \<open>nat (argc c) = length (args_of c)\<close> decode_int_text[of "CHR ''*''" "of_int (argc c)"] read_args_text[OF c(4), of rest] w
    unfolding tx RaftRedisCommandDeserialize_def by (simp add: cmd_text_def Let_def)
qed

lemma read_commands_text:
  "\<forall>c \<in> set cs. command_ok c \<Longrightarrow> read_commands (length cs) (concat (map cmd_text cs) @ rest) = Some (cs, True)"
proof (induction cs)
  case (Cons c cs)
  have "length (cmd_text c) \<noteq> 0" using int_text_length[of "CHR ''*''" "of_int (argc c)"] by (auto simp: cmd_text_def)
  then show ?case using Cons by (simp add: deserialize_cmd_text)
qed simp

section \<open>Command arrays, there and back\<close>

text \<open>
  The arrays that the module builds: at least one command, each with at least one argument, in a
  fully used array, and no empty access control string.
\<close>

definition acl_ok :: "string ptr \<Rightarrow> bool" where
  "acl_ok p \<longleftrightarrow> (case p of Null \<Rightarrow> True | Live s \<Rightarrow> s \<noteq> [] \<and> short s | Freed \<Rightarrow> False)"

definition acl_string :: "string ptr \<Rightarrow> string" where
  "acl_string p = (case p of Live s \<Rightarrow> s | _ \<Rightarrow> [])"

lemma deref_acl: "acl_ok p \<Longrightarrow> \<exists>str. deref p = Some str \<and> opt_string str = acl_string p"
  by (cases p) (auto simp: acl_ok_def acl_string_def opt_string_def)

definition array_ok :: "RaftRedisCommandArray \<Rightarrow> bool" where
  "array_ok a \<longleftrightarrow> (\<exists>cs. commands a = map Some cs \<and> cs \<noteq> [] \<and> (\<forall>c \<in> set cs. command_ok c) \<and>
     a_len a = int (length cs) \<and> length cs < 2 ^ 31) \<and> acl_ok (acl a)"

definition array_text :: "RaftRedisCommandArray \<Rightarrow> RaftRedisCommand list \<Rightarrow> string" where
  "array_text a cs = int_text (CHR ''*'') 2 @ int_text (CHR ''*'') 3 @ int_text (CHR '':'') (if asking a then 1 else 0) @
     int_text (CHR '':'') (cmd_flags a) @ str_text (acl_string (acl a)) @ int_text (CHR ''*'') (of_int (a_len a)) @
     concat (map cmd_text cs)"

lemma source_commands_ok: "commands a = map Some cs \<Longrightarrow> a_len a = int (length cs) \<Longrightarrow> source_commands a = Some cs"
  using those_arr_get[of "a_len a" "commands a"] by (simp add: source_commands_def those_map_id)

lemma cmd_size_pos: "command_ok c \<Longrightarrow> 3 \<le> cmd_size c"
proof -
  assume "command_ok c"
  have "0 \<le> sum_list (map string_size (args_of c))" using str_text_length(2) by (intro sum_list_nonneg) (auto intro: order_trans[of 0 4])
  then show ?thesis using calc_ge_3[of "of_int (argc c + 1)"] by (simp add: cmd_size_def)
qed

lemma sum_cmd_size_pos:
  assumes "cs \<noteq> []" "\<forall>c \<in> set cs. command_ok c"
  shows "3 \<le> sum_list (map cmd_size cs)"
proof -
  have nonneg: "0 \<le> sum_list (map cmd_size ds)" if "\<forall>c \<in> set ds. command_ok c" for ds
    using that by (induction ds) (use cmd_size_pos in force)+
  obtain c ds where "cs = c # ds" using assms(1) by (cases cs) auto
  then show ?thesis using nonneg[of ds] cmd_size_pos[of c] assms(2) by simp
qed

lemma serialize_array:
  assumes cs: "commands a = map Some cs" "cs \<noteq> []" "\<forall>c \<in> set cs. command_ok c" "a_len a = int (length cs)"
    and acl: "acl_ok (acl a)"
  shows "\<exists>pad. RaftRedisCommandArraySerialize a = Some (array_text a cs @ pad)"
proof -
  obtain str where str: "deref (acl a) = Some str" "opt_string str = acl_string (acl a)" using deref_acl[OF acl] by blast
  define ask n S where "ask = (if asking a then 1 else 0 :: 64 word)" and "n = (of_int (a_len a) :: 64 word)"
    and "S = sum_list (map cmd_size cs)"
  define L where "L p v = int (length (int_text p v))" for p v
  define A where "A = int (length (str_text (acl_string (acl a))))"
  have pos: "3 \<le> S" unfolding S_def by (rule sum_cmd_size_pos[OF cs(2,3)])
  have sizes: "those (map calcSerializedSize cs) = Some (map cmd_size cs)"
    using cs(3) by (intro those_map_Some) (simp add: calcSerializedSize_ok)
  define sz where "sz = calcIntSerializedLen 2 + calcIntSerializedLen 3 + calcIntSerializedLen ask +
    calcIntSerializedLen (cmd_flags a) + calcIntSerializedLen n + S + calcSerializeStringSize str"
  have "L (CHR ''*'') 2 + L (CHR ''*'') 3 + L (CHR '':'') ask + L (CHR '':'') (cmd_flags a) + L (CHR ''*'') n + S +
      string_size (acl_string (acl a)) \<le> sz"
    unfolding L_def sz_def calcSerializeStringSize_opt str(2) by (intro add_mono calc_enough order_refl)
  moreover have "A \<le> string_size (acl_string (acl a))" by (simp add: A_def str_text_length(1))
  moreover have "0 \<le> A" "0 \<le> L (CHR ''*'') 2" "0 \<le> L (CHR ''*'') 3" "0 \<le> L (CHR '':'') ask" "0 \<le> L (CHR '':'') (cmd_flags a)"
    "0 \<le> L (CHR ''*'') n" by (simp_all add: L_def A_def)
  ultimately have room: "L (CHR ''*'') 2 < sz" "L (CHR ''*'') 3 < sz - L (CHR ''*'') 2"
      "L (CHR '':'') ask < sz - L (CHR ''*'') 2 - L (CHR ''*'') 3"
      "L (CHR '':'') (cmd_flags a) < sz - L (CHR ''*'') 2 - L (CHR ''*'') 3 - L (CHR '':'') ask"
      "string_size (acl_string (acl a)) \<le> sz - L (CHR ''*'') 2 - L (CHR ''*'') 3 - L (CHR '':'') ask - L (CHR '':'') (cmd_flags a)"
      "L (CHR ''*'') n < sz - L (CHR ''*'') 2 - L (CHR ''*'') 3 - L (CHR '':'') ask - L (CHR '':'') (cmd_flags a) - A"
      "S \<le> sz - L (CHR ''*'') 2 - L (CHR ''*'') 3 - L (CHR '':'') ask - L (CHR '':'') (cmd_flags a) - A - L (CHR ''*'') n"
    using pos str_text_length(2)[of "acl_string (acl a)"] by linarith+
  have all: "emit_all emit_command cs (out, r) = Some (out @ concat (map cmd_text cs), r - int (length (concat (map cmd_text cs))))"
    if "S \<le> r" for out r
    using that cs(3) by (intro emit_all_ok[of _ cmd_size]) (auto simp: emit_command_ok cmd_text_length S_def)
  note ok = emit_int_ok[folded L_def] emit_string_ok[of str, unfolded str(2), folded A_def]
  have at: "array_text a cs = int_text (CHR ''*'') 2 @ int_text (CHR ''*'') 3 @ int_text (CHR '':'') ask @
      int_text (CHR '':'') (cmd_flags a) @ str_text (acl_string (acl a)) @ int_text (CHR ''*'') n @ concat (map cmd_text cs)"
    by (simp only: array_text_def ask_def n_def)
  have "RaftRedisCommandArraySerialize a = Some (entry_data sz (array_text a cs))"
    unfolding RaftRedisCommandArraySerialize_def source_commands_ok[OF cs(1,4)] str(1) bind.simps sizes Let_def
      ask_def[symmetric] n_def[symmetric] S_def[symmetric] sz_def[symmetric]
    using room by (simp add: ok all at)
  then show ?thesis by (auto simp: entry_data_def)
qed

lemma decodeString_text: "short s \<Longrightarrow> decodeString (str_text s @ rest) = Some (Some (int (length (str_text s)), s))"
  using decode_int_text[of "CHR ''$''" "of_nat (length s)" "s @ newline # rest"]
  by (simp add: decodeString_def str_text_def short_unat)

text \<open>Freeing an array that is well formed.\<close>

lemma free_command_ok: "command_ok c \<Longrightarrow> \<exists>r. RaftRedisCommandFree c = Some r"
  using command_okD(5,6)[of c] by (simp add: RaftRedisCommandFree_def)

lemma array_free_ok:
  assumes "array_ok a"
  shows "\<exists>p. RaftRedisCommandArrayFree a = Some (a\<lparr>commands := [], a_size := 0, a_len := 0, acl := p, asking := False\<rparr>)"
proof -
  obtain cs where cs: "commands a = map Some cs" "\<forall>c \<in> set cs. command_ok c" "a_len a = int (length cs)" and acl: "acl_ok (acl a)"
    using assms by (auto simp: array_ok_def)
  have slot: "free_command_slot (commands a) i = Some ()" if "i \<in> set [0..a_len a - 1]" for i
  proof -
    have "nat i < length cs" "0 \<le> i" using that cs(3) by auto
    then show ?thesis using cs(1,2) free_command_ok[of "cs ! nat i"] by (auto simp: free_command_slot_def arr_get_def)
  qed
  obtain str where "deref (acl a) = Some str" using deref_acl[OF acl] by blast
  then show ?thesis using those_map_Some[of "[0..a_len a - 1]" "free_command_slot (commands a)" "\<lambda>_. ()"] slot
    by (auto simp: RaftRedisCommandArrayFree_def)
qed

lemma deserialize_array:
  assumes cs: "commands a = map Some cs" "cs \<noteq> []" "\<forall>c \<in> set cs. command_ok c" "a_len a = int (length cs)" "length cs < 2 ^ 31"
    and acl: "acl_ok (acl a)"
    and t: "a_len t = 0 \<or> array_ok t"
  shows "RaftRedisCommandArrayDeserialize t (array_text a cs @ pad) =
    Some (RR_OK, t\<lparr>asking := asking a, cmd_flags := cmd_flags a, acl := acl a, a_len := a_len a, a_size := a_len a, commands := commands a\<rparr>)"
proof -
  define n where "n = (of_int (a_len a) :: 64 word)"
  have len: "0 < a_len a" "a_len a < 2 ^ 31" using cs(2,4,5) by (auto simp: Suc_le_eq)
  have n: "n \<noteq> 0" "sint (ucast n :: 32 word) = a_len a" "unat n = length cs"
    using argc_word[OF len] uint_small[of "a_len a"] len cs(4) by (auto simp: n_def unat_eq_nat_uint)
  have body: "read_body t' (int_text (CHR ''*'') n @ concat (map cmd_text cs) @ pad) =
      Some (RR_OK, t'\<lparr>a_len := a_len a, a_size := a_len a, commands := commands a\<rparr>)" for t'
    using decode_int_text[of "CHR ''*''" n "concat (map cmd_text cs) @ pad"] read_commands_text[OF cs(3), of pad] n cs(1)
    by (simp add: read_body_def padded_def Let_def)
  have str: "short (acl_string (acl a))" "(if length (acl_string (acl a)) = 0 then Null else Live (acl_string (acl a))) = acl a"
    using acl by (auto simp: acl_ok_def acl_string_def short_def split: ptr.splits)
  have read_acl: "read_acl t' (str_text (acl_string (acl a)) @ int_text (CHR ''*'') n @ concat (map cmd_text cs) @ pad) =
      Some (RR_OK, t'\<lparr>acl := acl a, a_len := a_len a, a_size := a_len a, commands := commands a\<rparr>)" for t'
    using decodeString_text[OF str(1)] str(2) by (simp add: read_acl_def body)
  obtain t' where t': "(if a_len t \<noteq> 0 then RaftRedisCommandArrayFree t else Some t) = Some t'"
      "t'\<lparr>asking := x, cmd_flags := y, acl := z, a_len := u, a_size := v, commands := w\<rparr> =
       t\<lparr>asking := x, cmd_flags := y, acl := z, a_len := u, a_size := v, commands := w\<rparr>" for x y z u v w
    using t array_free_ok[of t] by (cases "a_len t = 0") auto
  show ?thesis unfolding array_text_def n_def[symmetric] RaftRedisCommandArrayDeserialize_def t'(1)
    by (simp add: decode_int_text read_flags_def read_acl Let_def t'(2))
qed

text \<open>
  C35. Round trip of commands. An array of at least one command, each with at least one argument,
  serializes into an entry without failing an assertion or writing outside the computed size, and
  reading the entry into an array that is empty or well formed succeeds and gives back the commands, their arguments, the flags,
  the asking mode and the access control string.
\<close>

theorem command_array_roundtrip:
  assumes "array_ok a" and t: "a_len t = 0 \<or> array_ok t"
  shows "\<exists>data. RaftRedisCommandArraySerialize a = Some data \<and>
    RaftRedisCommandArrayDeserialize t data = Some (RR_OK,
      t\<lparr>asking := asking a, cmd_flags := cmd_flags a, acl := acl a, a_len := a_len a, a_size := a_len a, commands := commands a\<rparr>)"
proof -
  obtain cs where cs: "commands a = map Some cs" "cs \<noteq> []" "\<forall>c \<in> set cs. command_ok c" "a_len a = int (length cs)" "length cs < 2 ^ 31"
      "acl_ok (acl a)"
    using assms(1) by (auto simp: array_ok_def)
  then show ?thesis using serialize_array[OF cs(1-4,6)] deserialize_array[OF cs t] by blast
qed

definition ex_array :: RaftRedisCommandArray where
  "ex_array = \<lparr>client_id = 7, asking = True, a_size = 2, a_len = 2, cmd_flags = 123456789,
     commands = [Some \<lparr>argc = 3, argv = Live [Some ''SET'', Some ''key'', Some ''value'']\<rparr>,
       Some \<lparr>argc = 1, argv = Live [Some ''PING'']\<rparr>], acl = Live ''user''\<rparr>"

definition empty_array :: RaftRedisCommandArray where
  "empty_array = \<lparr>client_id = 0, asking = False, a_size = 0, a_len = 0, cmd_flags = 0, commands = [], acl = Null\<rparr>"

theorem command_array_roundtrip_witness:
  "\<exists>data. RaftRedisCommandArraySerialize ex_array = Some data \<and>
     RaftRedisCommandArrayDeserialize empty_array data = Some (RR_OK, ex_array\<lparr>client_id := 0\<rparr>)"
proof -
  have "array_ok ex_array" unfolding array_ok_def
    by (intro conjI exI[of _ "[\<lparr>argc = 3, argv = Live [Some ''SET'', Some ''key'', Some ''value'']\<rparr>,
        \<lparr>argc = 1, argv = Live [Some ''PING'']\<rparr>]"])
      (simp_all add: ex_array_def command_ok_def args_of_def acl_ok_def short_def)
  from command_array_roundtrip[OF this, of empty_array] show ?thesis by (simp add: empty_array_def ex_array_def)
qed

section \<open>Reading any buffer\<close>

lemma decode_digits_total: "p \<noteq> [] \<Longrightarrow> decode_digits p tmp len \<noteq> None"
  by (induction p arbitrary: tmp len) auto

lemma decodeInteger_total: "\<exists>r. decodeInteger p prefix = Some r"
proof (cases "length p < 3")
  case False
  then have "tl p \<noteq> []" by (cases p; cases "tl p") auto
  then show ?thesis using decode_digits_total[of "tl p" 0 1] False by (auto simp: decodeInteger_def arr_get_def)
qed (simp add: decodeInteger_def)

lemma decodeString_total: "\<exists>r. decodeString p = Some r"
  using decodeInteger_total[of p "CHR ''$''"] by (auto simp: decodeString_def Let_def split: option.splits)

lemma total_bind: "\<exists>r. m = Some r \<Longrightarrow> (\<And>r. m = Some r \<Longrightarrow> \<exists>y. f r = Some y) \<Longrightarrow> \<exists>y. Option.bind m f = Some y"
  by auto

lemma total_case: "\<exists>y. a = Some y \<Longrightarrow> (\<And>n v. r = Some (n, v) \<Longrightarrow> \<exists>y. f n v = Some y) \<Longrightarrow>
    \<exists>y. (case r of None \<Rightarrow> a | Some (n, v) \<Rightarrow> f n v) = Some y"
  by (cases r) auto

lemma total_if: "(b \<Longrightarrow> \<exists>y. m = Some y) \<Longrightarrow> (\<not> b \<Longrightarrow> \<exists>y. n = Some y) \<Longrightarrow> \<exists>y. (if b then m else n) = Some y"
  by simp

lemma total_Some: "\<exists>y. Some x = Some y"
  by simp

lemma read_args_total: "\<exists>r. read_args k p = Some r"
proof (induction k arbitrary: p)
  case (Suc k)
  have "\<exists>y. (case r of (args, m) \<Rightarrow> Some (f args m)) = Some y" for r and f :: "string list \<Rightarrow> int option \<Rightarrow> string list \<times> int option"
    by (cases r) auto
  then show ?case unfolding read_args.simps Let_def by (intro total_bind total_case total_if total_Some decodeInteger_total Suc)
qed simp

lemma read_args_length:
  "read_args k p = Some (args, m) \<Longrightarrow> if m = None then length args < k else length args = k"
proof (induction k arbitrary: p args m)
  case (Suc k)
  obtain r where r: "decodeInteger p (CHR ''$'') = Some r" using decodeInteger_total by blast
  show ?case
  proof (cases r)
    case (Some x)
    obtain n len where x: "x = (n, len)" by (cases x)
    obtain as m' where "read_args k (drop (unat len + 1) (drop (nat n) p)) = Some (as, m')" using read_args_total by fastforce
    then show ?thesis using Suc.IH[of "drop (unat len + 1) (drop (nat n) p)" as m'] Suc.prems r Some x
      by (auto simp: Let_def split: if_splits)
  qed (use r Suc.prems in simp)
qed simp

lemma those_None: "None \<in> set xs \<Longrightarrow> those xs = None"
  by (induction xs) (auto split: option.splits)

lemma those_mem: "those (map f xs) = Some ys \<Longrightarrow> x \<in> set xs \<Longrightarrow> \<exists>y \<in> set ys. f x = Some y"
  by (induction xs arbitrary: ys) (auto split: option.splits)

lemma arg_strings_padded:
  assumes "argv c = Live (padded n args)"
  shows "argc c = int (length args) \<Longrightarrow> arg_strings c = Some args" "int (length args) < argc c \<Longrightarrow> arg_strings c = None"
proof -
  assume len: "argc c = int (length args)"
  have "those (map (arg_at c) [0..argc c - 1]) = Some (map (\<lambda>i. Some (args ! nat i)) [0..argc c - 1])"
    using len by (intro those_map_Some) (auto simp: arg_at_def assms padded_def arr_get_def nth_append)
  moreover have "map (\<lambda>i. Some (args ! nat i)) [0..argc c - 1] = map Some args" using len by (intro nth_equalityI) auto
  ultimately show "arg_strings c = Some args" by (simp add: arg_strings_def those_map_id)
next
  let ?i = "int (length args)"
  assume len: "?i < argc c"
  then have mem: "?i \<in> set [0..argc c - 1]" by simp
  have "arg_at c ?i = (if length args < n then Some None else None)"
    by (simp add: arg_at_def assms padded_def arr_get_def nth_append)
  then consider "arg_at c ?i = None" | "arg_at c ?i = Some None" by (cases "length args < n") auto
  then show "arg_strings c = None"
  proof cases
    case 1
    then have "None \<in> set (map (arg_at c) [0..argc c - 1])" using mem by (metis imageI list.set_map)
    then show ?thesis by (simp add: arg_strings_def those_None)
  next
    case 2
    have "None \<in> set ys" if "those (map (arg_at c) [0..argc c - 1]) = Some ys" for ys
      using those_mem[OF that mem] 2 by simp
    then show ?thesis by (cases "those (map (arg_at c) [0..argc c - 1])") (auto simp: arg_strings_def those_None)
  qed
qed

text \<open>
  The reader of a command fails exactly when an argument cannot be read: it then frees the arguments
  that were not read. A command that it returns can be freed.
\<close>

abbreviation no_command :: RaftRedisCommand where
  "no_command \<equiv> \<lparr>argc = 0, argv = Null\<rparr>"

definition bad_arguments :: "string \<Rightarrow> bool" where
  "bad_arguments p \<longleftrightarrow> (\<exists>n len args. decodeInteger p (CHR ''*'') = Some (Some (n, len)) \<and> len \<noteq> 0 \<and>
     read_args (nat (sint (ucast len :: 32 word))) (drop (nat n) p) = Some (args, None))"

lemma command_result:
  "if bad_arguments p then RaftRedisCommandDeserialize no_command p = None
   else \<exists>n c. RaftRedisCommandDeserialize no_command p = Some (n, c) \<and> RaftRedisCommandFree c \<noteq> None"
proof -
  obtain r where r: "decodeInteger p (CHR ''*'') = Some r" using decodeInteger_total by blast
  have none: "RaftRedisCommandFree no_command \<noteq> None" by (simp add: RaftRedisCommandFree_def)
  consider "r = None" | n where "r = Some (n, 0)" | n len where "r = Some (n, len)" "len \<noteq> 0" by (cases r) auto
  then show ?thesis
  proof cases
    case 3
    let ?argc = "sint (ucast len :: 32 word)"
    obtain args m where a: "read_args (nat ?argc) (drop (nat n) p) = Some (args, m)" using read_args_total by fastforce
    let ?c = "\<lparr>argc = ?argc, argv = Live (padded (unat len) args)\<rparr>"
    have bad: "bad_arguments p \<longleftrightarrow> m = None" using r 3 a by (auto simp: bad_arguments_def)
    have res: "RaftRedisCommandDeserialize no_command p =
        (case m of None \<Rightarrow> do { t \<leftarrow> RaftRedisCommandFree ?c; Some (0, t) } | Some m \<Rightarrow> Some (n + m, ?c))"
      using r 3 a by (simp add: RaftRedisCommandDeserialize_def Let_def)
    show ?thesis
    proof (cases m)
      case None
      then have "int (length args) < ?argc" using read_args_length[OF a] by simp
      then have "arg_strings ?c = None" by (intro arg_strings_padded(2)[of _ "unat len" args]) simp_all
      then show ?thesis using res None bad by (simp add: RaftRedisCommandFree_def)
    next
      case (Some k)
      have "arg_strings ?c \<noteq> None"
      proof (cases "0 \<le> ?argc")
        case True
        then show ?thesis using arg_strings_padded(1)[of ?c "unat len" args] read_args_length[OF a] Some by simp
      qed (simp add: arg_strings_def)
      then show ?thesis using res Some bad by (auto simp: RaftRedisCommandFree_def)
    qed
  qed (use r none in \<open>auto simp: RaftRedisCommandDeserialize_def bad_arguments_def\<close>)
qed

lemma read_commands_total:
  assumes "\<forall>m. \<not> bad_arguments (drop m p)"
  shows "\<exists>cs done. read_commands k p = Some (cs, done) \<and> (\<forall>c \<in> set cs. RaftRedisCommandFree c \<noteq> None)"
  using assms
proof (induction k arbitrary: p)
  case (Suc k)
  obtain n c where c: "RaftRedisCommandDeserialize no_command p = Some (n, c)" "RaftRedisCommandFree c \<noteq> None"
    using command_result[of p] Suc.prems[rule_format, of 0] by auto
  obtain cs ok where "read_commands k (drop (nat n) p) = Some (cs, ok)" "\<forall>c \<in> set cs. RaftRedisCommandFree c \<noteq> None"
    using Suc.IH[of "drop (nat n) p"] Suc.prems by auto
  then show ?case using c by (cases "n = 0") auto
next
  case 0
  show ?case by (intro exI[of _ "[]"] exI[of _ True]) simp
qed

lemma array_free_total:
  assumes "\<forall>c \<in> set cs. RaftRedisCommandFree c \<noteq> None" "commands a = padded n cs" "a_len a \<le> int (length (commands a))" "acl a \<noteq> Freed"
  shows "\<exists>r. RaftRedisCommandArrayFree a = Some r"
proof -
  have slot: "free_command_slot (commands a) i = Some ()" if "i \<in> set [0..a_len a - 1]" for i
  proof -
    have "arr_get (commands a) i = Some (commands a ! nat i)" "nat i < length (commands a)" using that assms(3) by (auto simp: arr_get_def)
    moreover from this(2) have "commands a ! nat i \<in> insert None (Some ` set cs)" using nth_mem[of "nat i" "commands a"]
      by (auto simp: assms(2) padded_def)
    ultimately show ?thesis using assms(1) by (auto simp: free_command_slot_def)
  qed
  then have "those (map (free_command_slot (commands a)) [0..a_len a - 1]) = Some (map (\<lambda>_. ()) [0..a_len a - 1])" by (intro those_map_Some)
  then show ?thesis using assms(4) by (cases "acl a") (auto simp: RaftRedisCommandArrayFree_def)
qed

lemma sint_ucast_le: "sint (ucast n :: 32 word) \<le> int (unat (n :: 64 word))"
proof -
  have "sint (ucast n :: 32 word) \<le> uint (ucast n :: 32 word)"
    using order_trans[of "- 2147483648" 0 "uint (ucast n :: 32 word)"]
    by (simp add: sint_uint signed_take_bit_int_less_eq_self_iff)
  also have "\<dots> \<le> uint n" by (simp add: unsigned_ucast_eq take_bit_int_less_eq_self_iff)
  finally show ?thesis by simp
qed

lemma read_body_total:
  assumes "\<forall>m. \<not> bad_arguments (drop m p)" "acl t \<noteq> Freed"
  shows "\<exists>r. read_body t p = Some r"
proof -
  obtain r where r: "decodeInteger p (CHR ''*'') = Some r" using decodeInteger_total by blast
  show ?thesis
  proof (cases r)
    case (Some x)
    obtain n num where x: "x = (n, num)" by (cases x)
    obtain cs ok where cs: "read_commands (unat num) (drop (nat n) p) = Some (cs, ok)" "\<forall>c \<in> set cs. RaftRedisCommandFree c \<noteq> None"
      using read_commands_total[of "drop (nat n) p" "unat num"] assms(1) by auto
    let ?len = "sint (ucast num :: 32 word)"
    have len: "int (unat num) \<le> int (length (padded (unat num) cs))" by (simp only: padded_def of_nat_le_iff) simp
    have "\<exists>r. RaftRedisCommandArrayFree (t\<lparr>a_len := ?len, a_size := ?len, commands := padded (unat num) cs\<rparr>) = Some r"
      using order_trans[OF sint_ucast_le len] assms(2) cs(2) by (intro array_free_total[of cs _ "unat num"]) simp_all
    then show ?thesis using r Some x cs(1) by (auto simp: read_body_def Let_def)
  qed (use r in \<open>simp add: read_body_def\<close>)
qed

lemma read_keys_total: "\<exists>r. read_keys k p = Some r"
proof (induction k arbitrary: p)
  case (Suc k)
  obtain r where r: "decodeString p = Some r" using decodeString_total by blast
  show ?case
  proof (cases r)
    case (Some x)
    obtain n a where x: "x = (n, a)" by (cases x)
    obtain r' where r': "decodeString (drop (nat n) p) = Some r'" using decodeString_total by blast
    show ?thesis
    proof (cases r')
      case (Some y)
      obtain m b where y: "y = (m, b)" by (cases y)
      obtain q where "read_keys k (drop (nat m) (drop (nat n) p)) = Some q" using Suc by blast
      then show ?thesis using r r' \<open>r = Some x\<close> x Some y by (cases q) (auto simp: Let_def)
    next
      case None
      then show ?thesis using r r' \<open>r = Some x\<close> x by (intro exI[of _ "([a], [], False)"]) simp
    qed
  next
    case None
    then show ?thesis using r by (intro exI[of _ "([], [], False)"]) simp
  qed
next
  case 0
  show ?case by (intro exI[of _ "([], [], True)"]) simp
qed

lemmas total = total_bind total_case total_if total_Some decodeInteger_total decodeString_total read_keys_total


definition cut_off_entry :: string where
  "cut_off_entry = concat (map (\<lambda>s. s @ [newline]) [''*2'', ''*3'', '':0'', '':0'', ''$0'', '''', ''*1'', ''*1'', ''$5'', ''ab''])"


section \<open>Timeouts, there and back\<close>

text \<open>
  C38. Timeout entries. The entry for the timeout of a blocked command is always written, but it can
  only be read back for log indexes below ten million: for a larger index the computed size is larger
  than the text, and the assertion of the reader that one character is left over fails.
\<close>

theorem timeout_entry_readable:
  assumes "0 \<le> idx" "idx < 2 ^ 63"
  shows "\<exists>data. RaftRedisSerializeTimeout idx error = Some data \<and>
    RaftRedisDeserializeTimeout data = (if idx < 10000000 then Some (RR_OK, idx, error) else None)"
proof -
  define v e where "v = (of_int idx :: 64 word)" and "e = (if error then 1 else 0 :: 64 word)"
  define I E where "I = int_text (CHR ''*'') v" and "E = int_text (CHR ''*'') e"
  define sz where "sz = calcIntSerializedLen v + calcIntSerializedLen e + 1"
  define pad where "pad = replicate (nat sz - length (I @ E)) nul"
  have u: "uint v = idx" using assms unfolding v_def by (intro uint_small) auto
  have small: "v < 10000000 \<longleftrightarrow> idx < 10000000" using u by (simp add: word_less_def)
  have v: "sint v = idx" using assms u by (simp add: v_def signed_of_int signed_take_bit_int_eq_self)
  have e: "calcIntSerializedLen e = int (length E)" "e = 1 \<longleftrightarrow> error"
    using calc_exact[of e "CHR ''*''"] by (auto simp: e_def E_def)
  have le: "int (length I) \<le> calcIntSerializedLen v" unfolding I_def by (rule calc_enough)
  have "RaftRedisSerializeTimeout idx error = Some (I @ E @ pad)"
    using le e(1) emit_int_ok[of "CHR ''*''" v sz "[]"] emit_int_ok[of "CHR ''*''" e "sz - int (length I)" I]
    unfolding RaftRedisSerializeTimeout_def Let_def v_def[symmetric] e_def[symmetric] sz_def[symmetric] I_def[symmetric] E_def[symmetric]
    by (simp add: sz_def entry_data_def pad_def)
  moreover have "RaftRedisDeserializeTimeout (I @ E @ pad) = (if length pad = 1 then Some (RR_OK, idx, error) else None)"
    unfolding RaftRedisDeserializeTimeout_def I_def E_def by (simp add: decode_int_text v e(2) Let_def)
  moreover have "length pad = 1 \<longleftrightarrow> idx < 10000000"
  proof (cases "idx < 10000000")
    case True
    then show ?thesis using calc_exact[of v "CHR ''*''"] small e(1) by (simp add: pad_def sz_def I_def)
  next
    case False
    have "unat v < 10 ^ Suc 18" using u assms by (simp add: unat_eq_nat_uint nat_less_iff)
    then have "length I \<le> 21" using digits_length[of "unat v" 18] by (simp add: I_def int_text_def)
    then show ?thesis using False calc_large(1)[of v] small e(1) by (simp add: pad_def sz_def)
  qed
  ultimately show ?thesis by auto
qed

theorem timeout_entry_readable_witness:
  "(\<exists>data. RaftRedisSerializeTimeout 42 True = Some data \<and> RaftRedisDeserializeTimeout data = Some (RR_OK, 42, True)) \<and>
   (\<exists>data. RaftRedisSerializeTimeout 10000000 False = Some data \<and> RaftRedisDeserializeTimeout data = None)"
  using timeout_entry_readable[of 42 True] timeout_entry_readable[of 10000000 False] by simp

section \<open>Lock requests, there and back\<close>

definition keys_size :: "string list \<Rightarrow> int" where
  "keys_size ks = sum_list (map (\<lambda>k. int (length k) + 1) ks)"

definition keys_text :: "string list \<Rightarrow> string" where
  "keys_text ks = concat (map (\<lambda>k. k @ [nul]) ks)"

lemma keys_size_text: "keys_size ks = int (length (keys_text ks))"
  by (induction ks) (auto simp: keys_size_def keys_text_def)

lemma collect_keys_spec:
  assumes "distinct dict" "total_size = keys_size dict" "num = int (length dict)" "collect_keys ks dict total_size num = (d, t, n)"
  shows "distinct d \<and> set d = set dict \<union> set ks \<and> t = keys_size d \<and> n = int (length d)"
  using assms
proof (induction ks arbitrary: dict total_size num)
  case (Cons k ks)
  show ?case
  proof (cases "k \<in> set dict")
    case True
    then show ?thesis using Cons.IH[OF Cons.prems(1-3)] Cons.prems(4) by auto
  next
    case False
    then show ?thesis using Cons.IH[of "k # dict" "total_size + (int (length k) + 1)" "num + 1"] Cons.prems
      by (auto simp: keys_size_def)
  qed
qed auto

lemma write_keys_spec:
  "\<forall>k \<in> set ks. int (length k) + 1 \<le> t \<Longrightarrow> write_keys ks t out l = Some (out @ keys_text ks, l - keys_size ks)"
  by (induction ks arbitrary: out l) (auto simp: keys_text_def keys_size_def)

lemma keys_size_mset: "mset xs = mset ys \<Longrightarrow> keys_size xs = keys_size ys"
  unfolding keys_size_def by (metis mset_map sum_mset_sum_list)

lemma keys_size_mem: "k \<in> set ks \<Longrightarrow> int (length k) + 1 \<le> keys_size ks"
proof (induction ks)
  case (Cons x ks)
  have "0 \<le> keys_size ks" by (simp add: keys_size_text)
  then show ?case using Cons by (auto simp: keys_size_def)
qed simp

lemma c_strlen_nul: "nul \<notin> set k \<Longrightarrow> c_strlen (k @ nul # rest) = Some (length k)"
proof -
  assume "nul \<notin> set k"
  then have "takeWhile (\<lambda>c. c \<noteq> nul) (k @ nul # rest) = k" by (induction k) auto
  then show ?thesis by (simp add: c_strlen_def)
qed

lemma read_lock_keys_text:
  "\<forall>k \<in> set ks. nul \<notin> set k \<Longrightarrow> read_lock_keys (length ks) (keys_text ks @ rest) = Some ks"
  by (induction ks) (simp_all add: keys_text_def c_strlen_nul)

text \<open>
  C39. Lock entries. With a dictionary that iterates over its keys in some order, the entry for
  locking fewer than ten million distinct keys is written exactly when the text of the keys is longer
  than the text of their number, since the writer passes the wrong size: for a single key of at most
  two characters the assertion fails. When it is written and no key contains a zero character,
  reading it back gives the distinct keys in the order of the dictionary.
\<close>

theorem lock_keys_entry:
  assumes dict: "\<And>d. distinct d \<Longrightarrow> mset (dict_keys d) = mset d"
    and few: "card (set args) < 10000000"
  shows "(\<exists>ks. distinct ks \<and> set ks = set args \<and>
      (case RaftRedisLockKeysSerialize dict_keys args of
         None \<Rightarrow> keys_size ks \<le> int (length (digits (length ks))) + 2
       | Some data \<Rightarrow> int (length (digits (length ks))) + 2 < keys_size ks \<and>
           ((\<forall>k \<in> set args. nul \<notin> set k) \<longrightarrow> RaftRedisLockKeysDeserialize data = Some (Some (dict_keys ks)))))"
proof -
  obtain d t n where c: "collect_keys args [] 0 0 = (d, t, n)" by (cases "collect_keys args [] 0 0")
  have spec: "distinct d" "set d = set args" "t = keys_size d" "n = int (length d)"
    using collect_keys_spec[OF _ _ _ c] by (auto simp: keys_size_def)
  define v where "v = (of_int n :: 64 word)"
  define H where "H = int_text (CHR ''*'') v"
  have len: "length d < 10000000" using few spec(1,2) by (metis distinct_card)
  then have "uint v = n" unfolding v_def by (intro uint_small) (auto simp: spec(4))
  then have v: "v < 10000000" "unat v = length d" using len spec(4) by (simp_all add: word_less_def unat_eq_nat_uint)
  have H: "int (length H) = int (length (digits (length d))) + 2" "calcIntSerializedLen v = int (length H)"
    using calc_exact[OF v(1), of "CHR ''*''"] v(2) by (simp_all add: H_def int_text_def)
  have ks: "mset (dict_keys d) = mset d" by (rule dict[OF spec(1)])
  have t: "keys_size (dict_keys d) = t" "\<forall>k \<in> set (dict_keys d). int (length k) + 1 \<le> t"
    using keys_size_mset[OF ks] keys_size_mem[of _ d] spec(3) mset_eq_setD[OF ks] by auto
  have ser: "RaftRedisLockKeysSerialize dict_keys args = (if t \<le> int (length H) then None else Some (H @ keys_text (dict_keys d)))"
    using H(2) t unfolding RaftRedisLockKeysSerialize_def c
    by (simp add: Let_def v_def[symmetric] encodeInteger_def write_keys_spec entry_data_def keys_size_text flip: int_text_def H_def)
  have des: "RaftRedisLockKeysDeserialize (H @ keys_text (dict_keys d)) = Some (Some (dict_keys d))" if "\<forall>k \<in> set args. nul \<notin> set k"
  proof -
    have "\<forall>k \<in> set (dict_keys d). nul \<notin> set k" using that mset_eq_setD[OF ks] spec(2) by simp
    moreover have "length (dict_keys d) = unat v" using mset_eq_length[OF ks] v(2) by simp
    ultimately show ?thesis using read_lock_keys_text[of "dict_keys d" "[]"]
      by (simp add: RaftRedisLockKeysDeserialize_def H_def decode_int_text)
  qed
  show ?thesis using ser des spec H(1) by (intro exI[of _ d]) auto
qed

theorem lock_keys_entry_witness:
  "RaftRedisLockKeysSerialize (\<lambda>d. rev d) [''ab'', ''ab''] = None \<and>
   RaftRedisLockKeysSerialize (\<lambda>d. rev d) [''key1'', ''key2''] = Some (''*2'' @ [newline] @ ''key1'' @ [nul] @ ''key2'' @ [nul]) \<and>
   (\<exists>ks. distinct ks \<and> set ks = {''key1'', ''key2''} \<and>
     RaftRedisLockKeysDeserialize (''*2'' @ [newline] @ ''key1'' @ [nul] @ ''key2'' @ [nul]) = Some (Some (rev ks)))"
proof -
  have a: "RaftRedisLockKeysSerialize (\<lambda>d. rev d) [''ab'', ''ab''] = None" by code_simp
  have b: "RaftRedisLockKeysSerialize (\<lambda>d. rev d) [''key1'', ''key2''] = Some (''*2'' @ [newline] @ ''key1'' @ [nul] @ ''key2'' @ [nul])"
    by code_simp
  have n: "\<forall>k \<in> set [''key1'', ''key2'']. nul \<notin> set k" by simp
  show ?thesis using lock_keys_entry[of "\<lambda>d. rev d" "[''key1'', ''key2'']"] a b n by auto
qed

section \<open>Imported keys, there and back\<close>

definition pair_text :: "string \<times> string \<Rightarrow> string" where
  "pair_text = (\<lambda>(a, b). str_text a @ str_text b)"

lemma those_nth_key: "n = length ks \<Longrightarrow> those (map (nth_key ks) [0..<n]) = Some ks"
proof -
  assume n: "n = length ks"
  have "those (map (nth_key ks) [0..<n]) = Some (map ((!) ks) [0..<n])"
    using n by (intro those_map_Some) (simp add: nth_key_def arr_get_def)
  then show ?thesis using n by (simp add: map_nth)
qed

lemma emit_pair_ok:
  assumes "string_size a + string_size b \<le> sz"
  shows "do { w \<leftarrow> emit_string (Some a) (out, sz); emit_string (Some b) w } =
    Some (out @ pair_text (a, b), sz - int (length (pair_text (a, b))))"
proof -
  have "0 \<le> string_size b" "int (length (str_text a)) \<le> string_size a" using str_text_length(2)[of b] str_text_length(1)[of a] by linarith+
  then show ?thesis using assms emit_string_ok[of "Some a" sz out] emit_string_ok[of "Some b" "sz - int (length (str_text a))" "out @ str_text a"]
    by (simp add: opt_string_def pair_text_def)
qed

lemma pairs_nonneg: "0 \<le> sum_list (map (\<lambda>(a, b). string_size a + string_size b) ps)"
proof (induction ps)
  case (Cons p ps)
  then show ?case using str_text_length(2)[of "fst p"] str_text_length(2)[of "snd p"] by (cases p) simp
qed simp

lemma emit_pairs_ok:
  assumes "sum_list (map (\<lambda>(a, b). string_size a + string_size b) ps) \<le> sz"
  shows "emit_all (\<lambda>(a, b) w. do { w \<leftarrow> emit_string a w; emit_string b w }) (map (\<lambda>(a, b). (Some a, Some b)) ps) (out, sz) =
    Some (out @ concat (map pair_text ps), sz - int (length (concat (map pair_text ps))))"
  using assms
proof (induction ps arbitrary: out sz)
  case (Cons p ps)
  obtain a b where p: "p = (a, b)" by (cases p)
  have "int (length (pair_text (a, b))) \<le> string_size a + string_size b"
    using str_text_length(1)[of a] str_text_length(1)[of b] by (simp add: pair_text_def)
  then show ?case using Cons emit_pair_ok[of a b sz out] p pairs_nonneg[of ps] by simp
qed simp

lemma read_keys_text:
  "\<forall>(a, b) \<in> set ps. short a \<and> short b \<Longrightarrow>
   read_keys (length ps) (concat (map pair_text ps) @ rest) = Some (map fst ps, map snd ps, True)"
  by (induction ps) (auto simp: pair_text_def decodeString_text)

definition import_ok :: "ImportKeys \<Rightarrow> bool" where
  "import_ok k \<longleftrightarrow> 0 < i_term k \<and> i_term k < 2 ^ 63 \<and> (\<exists>ps. ps \<noteq> [] \<and> unat (num_keys k) = length ps \<and>
     key_names k = map (Some \<circ> fst) ps \<and> key_serialized k = map (Some \<circ> snd) ps \<and> (\<forall>(a, b) \<in> set ps. short a \<and> short b))"

text \<open>
  C36. Round trip of imported keys. An import of at least one key in a term of at least 1 serializes
  within the computed size, and reading the entry gives back the term, the session key and all names
  and values.
\<close>

theorem import_roundtrip:
  assumes "import_ok k"
  shows "\<exists>data. RaftRedisSerializeImport k = Some data \<and> RaftRedisDeserializeImport t data = Some (RR_OK, k)"
proof -
  obtain ps where ps: "ps \<noteq> []" "unat (num_keys k) = length ps" "key_names k = map (Some \<circ> fst) ps"
      "key_serialized k = map (Some \<circ> snd) ps" "\<forall>(a, b) \<in> set ps. short a \<and> short b" "0 < i_term k" "i_term k < 2 ^ 63"
    using assms by (auto simp: import_ok_def)
  define T where "T = (of_int (i_term k) :: 64 word)"
  have u: "uint T = i_term k" using ps(6,7) unfolding T_def by (intro uint_small) auto
  have T: "T \<noteq> 0" "sint T = i_term k" using u ps(6,7) by (auto simp: T_def signed_of_int signed_take_bit_int_eq_self)
  define L where "L v = int (length (int_text (CHR ''*'') v))" for v
  define S where "S = sum_list (map (\<lambda>(a, b). string_size a + string_size b) ps)"
  define sz where "sz = calcIntSerializedLen T + calcIntSerializedLen (migration_session_key k) + calcIntSerializedLen (num_keys k) + S"
  have zip: "zip (key_names k) (key_serialized k) = map (\<lambda>(a, b). (Some a, Some b)) ps"
    unfolding ps(3,4) by (induction ps) auto
  have pos: "1 \<le> S"
  proof -
    obtain a b qs where q: "ps = (a, b) # qs" using ps(1) by (cases ps) auto
    then show ?thesis using str_text_length(2)[of a] str_text_length(2)[of b] pairs_nonneg[of qs] by (simp add: S_def)
  qed
  have "L T + L (migration_session_key k) + L (num_keys k) + S \<le> sz" unfolding L_def sz_def by (intro add_mono calc_enough order_refl)
  moreover have "0 \<le> L T" "0 \<le> L (migration_session_key k)" "0 \<le> L (num_keys k)" by (simp_all add: L_def)
  ultimately have room: "L T < sz" "L (migration_session_key k) < sz - L T" "L (num_keys k) < sz - L T - L (migration_session_key k)"
      "S \<le> sz - L T - L (migration_session_key k) - L (num_keys k)" using pos by linarith+
  define body where "body = int_text (CHR ''*'') T @ int_text (CHR ''*'') (migration_session_key k) @ int_text (CHR ''*'') (num_keys k) @ concat (map pair_text ps)"
  have names: "those (map (nth_key (key_names k)) [0..<unat (num_keys k)]) = Some (key_names k)"
      "those (map (nth_key (key_serialized k)) [0..<unat (num_keys k)]) = Some (key_serialized k)"
    using ps(2-4) by (auto intro!: those_nth_key)
  have size: "sum_list (map (\<lambda>(a, b). calcSerializeStringSize a + calcSerializeStringSize b) (map (\<lambda>(a, b). (Some a, Some b)) ps)) = S"
    unfolding S_def by (simp add: calcSerializeStringSize_opt opt_string_def case_prod_unfold comp_def)
  note ok = emit_int_ok[where prefix = "CHR ''*''", folded L_def] emit_pairs_ok[of ps, folded S_def]
  have "RaftRedisSerializeImport k = Some (entry_data sz body)"
    unfolding RaftRedisSerializeImport_def names bind.simps Let_def zip size T_def[symmetric] sz_def[symmetric]
    using room by (simp add: ok body_def)
  then obtain pad where "RaftRedisSerializeImport k = Some (body @ pad)" by (auto simp: entry_data_def)
  moreover have "num_keys k \<noteq> 0" using ps(1,2) by auto
  then have "RaftRedisDeserializeImport t (body @ pad) = Some (RR_OK, k)"
    using read_keys_text[OF ps(5), of pad] T ps(2-4)
    unfolding RaftRedisDeserializeImport_def body_def by (simp add: decode_int_text Let_def padded_def comp_def)
  ultimately show ?thesis by blast
qed

definition ex_import :: ImportKeys where
  "ex_import = \<lparr>i_term = 3, migration_session_key = 99, num_keys = 1, key_names = [Some ''k''], key_serialized = [Some ''v'']\<rparr>"

theorem import_roundtrip_witness:
  "\<exists>data. RaftRedisSerializeImport ex_import = Some data \<and>
     RaftRedisDeserializeImport \<lparr>i_term = 0, migration_session_key = 0, num_keys = 0, key_names = [], key_serialized = []\<rparr> data = Some (RR_OK, ex_import)"
proof -
  have "import_ok ex_import"
    by (auto simp: import_ok_def ex_import_def short_def intro!: exI[of _ "[(''k'', ''v'')]"])
  then show ?thesis by (rule import_roundtrip)
qed

section \<open>Building command arrays\<close>

lemma move_loop_ok:
  assumes "0 \<le> i" "i \<le> int (length src)" "length rest = length src - nat i"
  shows "move_loop (pre @ rest) (int (length pre)) src (int (length src)) i =
    Some (pre @ drop (nat i) src, int (length pre) + int (length src) - i)"
  using assms
proof (induction "length src - nat i" arbitrary: i pre rest)
  case 0
  then show ?case by (subst move_loop.simps) auto
next
  case (Suc n)
  obtain r rs where rest: "rest = r # rs" using Suc.hyps(2) Suc.prems(3) by (cases rest) auto
  have i: "i < int (length src)" using Suc.hyps(2) by linarith
  have "pre @ drop (nat i) src = (pre @ [src ! nat i]) @ drop (nat (i + 1)) src"
    using i Suc.prems(1) by (simp add: Cons_nth_drop_Suc nat_add_distrib)
  moreover have "n = length src - nat (i + 1)" "length rs = length src - nat (i + 1)"
    using Suc.hyps(2) Suc.prems rest by (auto simp: nat_add_distrib)
  ultimately show ?case using Suc.hyps(1)[of "i + 1" rs "pre @ [src ! nat i]"] Suc.prems(1) i rest
    by (subst move_loop.simps) (simp add: arr_get_def arr_set_def list_update_append algebra_simps)
qed

text \<open>
  Moving the commands of a fully used array to the end of another one: the source is left empty.
\<close>

lemma RaftRedisCommandArrayMove_ok:
  assumes t: "a_len t = int (length (commands t))" "a_size t = a_len t" and s: "a_len s = int (length (commands s))"
  shows "\<exists>t' s'. RaftRedisCommandArrayMove t s = Some (t', s') \<and> commands t' = commands t @ commands s \<and>
    a_len t' = a_len t + a_len s \<and> asking t' = (asking t \<or> asking s) \<and> a_len s' = 0"
proof -
  let ?pad = "replicate (length (commands s)) None"
  have "move_loop (commands t @ ?pad) (a_len t) (commands s) (a_len s) 0 = Some (commands t @ commands s, a_len t + a_len s)"
    using move_loop_ok[of 0 "commands s" ?pad "commands t"] t(1) s by simp
  then show ?thesis using t s
    by (cases "acl s"; cases "commands s = []") (auto simp: RaftRedisCommandArrayMove_def Let_def nat_add_distrib)
qed

lemma RaftRedisCommandArrayExtend_ok:
  assumes "a_len t = int (length (commands t))" "a_size t = a_len t"
  shows "RaftRedisCommandArrayExtend t = Some (t\<lparr>a_size := a_len t + 1, a_len := a_len t + 1,
    commands := commands t @ [Some \<lparr>argc = 0, argv = Null\<rparr>]\<rparr>)"
  using assms by (simp add: RaftRedisCommandArrayExtend_def arr_set_def Let_def)

end
