(* ===== verification/Spec2Isabelle.thy ===== *)
theory Spec2Isabelle
  imports Raft_Election Raft_Log_Spec Raft_Loops Raft_Replication Ddb_Lock Ddb_Shim Entry_Cache Redis_Slots Redis_Serialize
begin

text \<open>
  A verification library for the C code of the DDB repository: the replicated store that serves as its
  debugging target, and the tracker that is preloaded into debugged processes.

  \<^bold>\<open>The program.\<close> DDB debugs distributed programs. Its main target is RedisRaft under
  \<open>src/apps/redisraft/redisraft\<close>: a Redis module (directory \<open>src\<close>) on top of a raft library
  (\<open>deps/raft\<close>). A client command is serialized into a raft entry, appended to the log of the leader,
  replicated, committed, and applied on every node by deserializing it; the module caches recent
  entries in memory. The tracker \<open>src/libddb\<close> is loaded into a process; it keeps a table of threads,
  lock waits and lock owners in a shared segment from which the debugger finds deadlocks.

  \<^bold>\<open>Conventions\<close> (\<open>Prelude\<close>). A C function is a HOL function that takes the state it reads and returns
  the state it has changed. \<open>None\<close> is a program that stops: a failed assertion, an access outside an
  array or buffer, or the use of freed memory. Error codes are ordinary results. Application callbacks,
  the allocator and the clock are parameters (fields of a context record) and may fail or answer
  anything unless a theorem says otherwise. Unsigned numbers that wrap around are words; signed log
  indexes, terms and times are integers, since overflow of them is undefined in C.

  \<^bold>\<open>The raft library.\<close>
  \<^item> \<open>Raft_Types\<close>: entries, messages, states and codes of \<open>include/raft.h\<close>.
  \<^item> \<open>Raft_Log_Impl\<close>: the function table \<open>raft_log_impl_t\<close> and its contract, the locale
    \<open>raft_log_store\<close>. \<open>Raft_Log\<close> models the ring buffer of \<open>src/raft_log.c\<close> with every operation and
    interprets the locale on it (\<open>internal_log\<close>). \<open>Raft_Log_Spec\<close> shows that any sequence of
    operations does to the buffer what it does to a list with a base index, and has two defects:
    clearing reports wrong indexes, and polling does not return after a positive callback result.
  \<^item> \<open>Raft_Node\<close>: \<open>src/raft_node.c\<close>, a peer with its flag word, index marks and message identifiers.
  \<^item> \<open>Raft_Server_Model\<close>: \<open>src/raft_server.c\<close> and \<open>src/raft_server_properties.c\<close> in the order of the
    code: \<open>raft_server\<close> is the struct, \<open>raft_ctx\<close> the callbacks, and each handler of votes, appended
    entries, snapshots, reads, membership, timeouts and client requests is one function with the
    source's name. Only log functions of the table are called.
  \<^item> \<open>Raft_Quorum\<close>: what an element in the middle of a sorted list says about majorities; used for the
    commit index, the acknowledged message identifier and the count of votes.
  \<^item> \<open>Raft_Server_Steps\<close>: each public function is shown once to be a sequence of small steps
    (\<open>srv_step\<close>, collected in \<open>raft_op\<close> and \<open>raft_api\<close>), so that an invariant needs one case per step.
  \<^item> \<open>Raft_Server_Safety\<close>: the locale \<open>raft_on_log\<close>, a server on any log that keeps the contract, with the
    invariants of indexes, terms, votes and nodes, stability of committed entries, and the order of
    applied entries; interpreted on the ring buffer (\<open>internal_raft\<close>). Votes survive a crash.
  \<^item> \<open>Raft_Election\<close>: what a granted vote means, and an inductive relation of a cluster of servers with
    calls, vote requests, restarts and responses that may be lost, late or repeated, in which no two servers lead in one term. Membership
    is fixed there.
  \<^item> \<open>Raft_Replication\<close>: success, refusal and failure of append-entries requests, and client requests.
  \<^item> \<open>Raft_Loops\<close>: the loops that apply, read, send and restore return and have done all their work.
  \<^item> \<open>Raft_Example\<close>: the concrete server and cluster on which theorems are instantiated.

  \<^bold>\<open>The module.\<close>
  \<^item> \<open>Entry_Cache\<close>: \<open>src/entrycache.c\<close>, a ring that refines a list with a first index; it stays well
    formed, and deleting below the first index wrongly removes nothing.
  \<^item> \<open>Redis_Serialize\<close>: \<open>src/serialization.c\<close> and \<open>src/serialization_utils.c\<close>. Commands and imported
    keys survive the round trip; what the readers do on any data; which timeout and lock entries cannot
    be read or written.
  \<^item> \<open>Redis_Slots\<close>: \<open>deps/common/crc16.c\<close> and \<open>keyHashSlot\<close> of \<open>src/util.c\<close>. The table computes the
    bit-by-bit checksum, and keys with the same braced part have the same slot.

  \<^bold>\<open>The tracker.\<close>
  \<^item> \<open>Ddb_Lock\<close>: the reader-writer spin lock of \<open>include/ddb/lock.h\<close>, one atomic access a step
    (\<open>rw_step\<close>); writers exclude everybody else in every interleaving.
  \<^item> \<open>Ddb_Shim\<close>: the segment and the interposed thread and mutex functions of \<open>shim.c\<close>, \<open>hook.c\<close> and
    \<open>include/ddb/common.h\<close>, with the interleavings of any number of threads (\<open>shim_step\<close>). Waits and
    owners are shown correctly as long as an unlock is not interrupted; an interleaving in which the
    wrong owner is shown; the bound of the owner table.

  \<^bold>\<open>Bounds and fuel.\<close> Loops over a bounded range are total functions with a measure, or structural on
  a number that the code has read. Loops whose end depends on callbacks or on the log (deleting,
  polling, sending, applying, serving reads, restoring) are partial functions in which not returning
  is \<open>None\<close>; that they return is proved under named conditions on the callbacks, and that they do not is proved where it happens. Round trips
  assume fewer than \<open>2 ^ 31\<close> commands and arguments, the range of the C \<open>int\<close>, and strings shorter than
  \<open>2 ^ 64\<close>; terms and indexes are below \<open>2 ^ 63\<close>, the range of the C \<open>long\<close>; lock requests have fewer than ten
  million keys, up to which the computed length of a number is exact.

  \<^bold>\<open>Not modelled.\<close>
  \<^item> Reference counts of raft entries and the debug log of the raft library.
  \<^item> The other files of the module (\<open>raft.c\<close>, \<open>redisraft.c\<close>, \<open>cluster.c\<close>, \<open>snapshot.c\<close>, \<open>connection.c\<close>
    and so on): nearly every line calls the interface of Redis, hiredis or threads, which is not part
    of the module; \<open>log.c\<close>, \<open>file.c\<close> and \<open>metadata.c\<close> read and write files. Of \<open>util.c\<close> only the hash slot
    and \<open>FreeImportKeys\<close> are modelled.
  \<^item> In \<open>libddb\<close>, the interposed functions that only pass their arguments on, and \<open>logger.c\<close>, which prints.
  \<^item> The directories \<open>redisraft-bug-raft-*\<close>, copies of RedisRaft with one historic defect each; vendored
    Redis, hiredis and libfaketime; the C++ demo \<open>apps/raft\<close> on gRPC; the connector headers, which send
    reports over the network and read machine registers; the debugger and its terminal interface,
    which are Rust programs around GDB; benchmarks, scripts and tests.
\<close>

end
